(* ===== verification/Prelude.thy ===== *)
theory Prelude
  imports Main "HOL-Library.Word"
begin

text \<open>
  Shared vocabulary of the development: the names of Go's machine types, the error values of
  the program, and the parts of Go's standard library that several components use
  (\<open>errors\<close>, \<open>encoding/binary\<close>, \<open>hash.Hash\<close>, the built-in \<open>copy\<close>), together with the
  generic lemmas about them.
\<close>

section \<open>Collections of rewrite rules\<close>

named_theorems go_defs \<open>definitions of small Go library helpers, unfolded by clients\<close>

named_theorems codec_simps \<open>lengths and round trips of byte encodings\<close>

section \<open>Machine types\<close>

type_synonym byte = "8 word"
type_synonym bytes = "8 word list"
type_synonym u8 = "8 word"
type_synonym u32 = "32 word"
type_synonym u64 = "64 word"

text \<open>On the 64-bit targets the program is built for, Go's \<open>uint\<close> has 64 bits.\<close>

type_synonym uint = "64 word"

section \<open>Errors as values\<close>

text \<open>
  A Go \<open>error\<close> is one of the program's sentinel errors, an opaque error
  (\<open>errors.New\<close>, or \<open>fmt.Errorf\<close> without \<open>%w\<close>), a wrapper made by
  \<open>fmt.Errorf\<close> with one \<open>%w\<close>, or the join of two errors (\<open>errors.Join\<close>, or two
  \<open>%w\<close> verbs). A \<open>nil\<close> error is \<open>None\<close>.
\<close>

datatype goerr =
    ErrNotFound | ErrNotExist | ErrDbClosed | ErrEOF | ErrCanceled
  | ErrInvalidPow | ErrInvalidPowParams
  | ErrInvalidCertificate | ErrTooLateToRegister | ErrCertificationIsNotSupported
  | ErrTrustedKeyDirPathIsNotSet | ErrNoMatchingCertPublicKeys | ErrInvalidPublicKey
  | ErrMaxMembersReached | ErrChallengeAlreadySubmitted | ErrConflictingRegistration
  | ErrCertExpired | ErrCertSignatureMismatch | ErrCertDataMismatch
  | Opaque string
  | Wrap string goerr
  | Join goerr goerr

text \<open>\<open>errors.Is\<close> walks the chain (and the tree of a join) and compares each error with the target.\<close>

fun errors_Is :: "goerr \<Rightarrow> goerr \<Rightarrow> bool" where
  "errors_Is (Wrap m e) t = (Wrap m e = t \<or> errors_Is e t)"
| "errors_Is (Join a b) t = (Join a b = t \<or> errors_Is a t \<or> errors_Is b t)"
| "errors_Is e t = (e = t)"

text \<open>A call that can panic: the panic is not an error value and no error handler sees it.\<close>

datatype 'a outcome = Ret 'a | Panic

section \<open>Big- and little-endian integers (package \<open>encoding/binary\<close>)\<close>

text \<open>The bytes of a word, most significant first; \<open>n\<close> is the number of bytes.\<close>

fun put_be :: "nat \<Rightarrow> 'a::len word \<Rightarrow> bytes" where
  "put_be 0 w = []"
| "put_be (Suc n) w = ucast (drop_bit (8 * n) w) # put_be n w"

definition PutUint64_BE :: "u64 \<Rightarrow> bytes" where
  "PutUint64_BE w = put_be 8 w"

definition PutUint32_BE :: "u32 \<Rightarrow> bytes" where
  "PutUint32_BE w = put_be 4 w"

definition PutUint64_LE :: "u64 \<Rightarrow> bytes" where
  "PutUint64_LE w = rev (put_be 8 w)"

definition Uint64_BE :: "bytes \<Rightarrow> u64" where
  "Uint64_BE bs = foldl (\<lambda>acc b. push_bit 8 acc + ucast b) 0 bs"

section \<open>The built-in \<open>copy\<close> and slices of a buffer\<close>

text \<open>
  \<open>copy(buffer[offset:], src)\<close>: as many bytes as fit are overwritten; the second component
  is the number of bytes copied.
\<close>

definition go_copy :: "bytes \<Rightarrow> nat \<Rightarrow> bytes \<Rightarrow> bytes \<times> nat" where
  "go_copy buffer offset src =
     (let n = min (length buffer - offset) (length src)
      in (take offset buffer @ take n src @ drop (offset + n) buffer, n))"

section \<open>\<open>hash.Hash\<close> objects\<close>

text \<open>
  The state of a hasher is the data written since the last reset. \<open>Sum\<close> appends the digest
  of that data to its argument and leaves the state alone.
\<close>

type_synonym hasher = bytes

definition hash_Reset :: "hasher \<Rightarrow> hasher" where
  [go_defs]: "hash_Reset h = []"

definition hash_Write :: "hasher \<Rightarrow> bytes \<Rightarrow> hasher" where
  [go_defs]: "hash_Write h d = h @ d"

definition hash_Sum :: "(bytes \<Rightarrow> bytes) \<Rightarrow> hasher \<Rightarrow> bytes \<Rightarrow> bytes" where
  [go_defs]: "hash_Sum digest h b = b @ digest h"

section \<open>Closures with hidden state\<close>

text \<open>
  Several functions of the program return a closure that reuses a hasher or a buffer between
  its calls. A closure is a function from its hidden state and its argument to the next hidden
  state and the result; \<open>run_calls\<close> is a sequence of calls.
\<close>

fun run_calls :: "('s \<Rightarrow> 'a \<Rightarrow> 's \<times> 'b) \<Rightarrow> 's \<Rightarrow> 'a list \<Rightarrow> 's \<times> 'b list" where
  "run_calls run s [] = (s, [])"
| "run_calls run s (x # xs) =
     (let (s', y) = run s x; (s'', ys) = run_calls run s' xs in (s'', y # ys))"

text \<open>
  The contract of such a closure: as long as its hidden state is one that the closure itself
  can produce, every call returns what a pure function of the argument returns.
\<close>

locale go_closure =
  fixes run :: "'s \<Rightarrow> 'a \<Rightarrow> 's \<times> 'b"
    and spec :: "'a \<Rightarrow> 'b"
    and inv :: "'s \<Rightarrow> bool"
    and dom :: "'a \<Rightarrow> bool"
  assumes call_spec: "inv s \<Longrightarrow> dom x \<Longrightarrow> snd (run s x) = spec x"
    and call_inv: "inv s \<Longrightarrow> dom x \<Longrightarrow> inv (fst (run s x))"
begin

lemma call_result:
  assumes "inv s" and "dom x" and "run s x = (s', y)"
  shows "y = spec x" and "inv s'"
  using call_spec [OF assms(1,2)] call_inv [OF assms(1,2)] assms(3) by simp_all

lemma calls_spec:
  "inv s \<Longrightarrow> list_all dom xs \<Longrightarrow> run_calls run s xs = (s', ys) \<Longrightarrow> ys = map spec xs \<and> inv s'"
proof (induction xs arbitrary: s ys)
  case (Cons x xs)
  obtain t y where r: "run s x = (t, y)" by fastforce
  obtain t' zs where rs: "run_calls run t xs = (t', zs)" by fastforce
  from Cons.prems have "inv s" "dom x" "list_all dom xs" by simp_all
  with r have "y = spec x" "inv t" using call_result by blast+
  with Cons.IH [OF _ \<open>list_all dom xs\<close>] rs Cons.prems(3) r show ?case by auto
qed simp

lemma calls_results:
  assumes "inv s" and "list_all dom xs"
  shows "snd (run_calls run s xs) = map spec xs"
  using calls_spec [OF assms, of "fst (run_calls run s xs)" "snd (run_calls run s xs)"] by simp

end

section \<open>Transition systems\<close>

text \<open>
  The contract that a state machine and its invariant fulfil: every step keeps the invariant. The
  machines of the development are instances; the lemmas carry the invariant to all reachable states.
\<close>

locale step_system =
  fixes step :: "'s \<Rightarrow> 's \<Rightarrow> bool"
    and inv :: "'s \<Rightarrow> bool"
  assumes step_inv: "inv s \<Longrightarrow> step s s' \<Longrightarrow> inv s'"
begin

lemma reachable_inv:
  assumes "step\<^sup>*\<^sup>* s s'" and "inv s"
  shows "inv s'"
  using assms by (induction rule: rtranclp_induct) (auto intro: step_inv)

lemma reachable_mono:
  assumes "step\<^sup>*\<^sup>* s s'" and "inv s" and "P s" and "\<And>t t'. inv t \<Longrightarrow> step t t' \<Longrightarrow> P t \<Longrightarrow> P t'"
  shows "P s'"
proof -
  from assms(1) have "inv s' \<and> P s'"
  proof (induction rule: rtranclp_induct)
    case (step y z)
    then show ?case using step_inv assms(4) by blast
  qed (simp add: assms(2,3))
  then show ?thesis by simp
qed

end

section \<open>Refinement\<close>

text \<open>
  The contract between an implementation and its specification: as long as the invariant of the
  implementation holds, every operation of it does on the abstract state what the specification
  does, with the same result. The lemma carries this to all sequences of operations.
\<close>

locale op_refinement =
  fixes cop :: "'s \<Rightarrow> 'op \<Rightarrow> 's \<times> 'out"
    and aop :: "'a \<Rightarrow> 'op \<Rightarrow> 'a \<times> 'out"
    and abs :: "'s \<Rightarrow> 'a"
    and inv :: "'s \<Rightarrow> bool"
  assumes op_sim: "inv s \<Longrightarrow> aop (abs s) x = (abs (fst (cop s x)), snd (cop s x))"
    and op_inv: "inv s \<Longrightarrow> inv (fst (cop s x))"
begin

lemma run_sim:
  assumes "inv s" and "run_calls cop s xs = (s', outs)"
  shows "run_calls aop (abs s) xs = (abs s', outs)" and "inv s'"
proof -
  have "run_calls aop (abs s) xs = (abs s', outs) \<and> inv s'" using assms
  proof (induction xs arbitrary: s outs)
    case (Cons x xs)
    obtain t y where c: "cop s x = (t, y)" by fastforce
    obtain zs where r: "run_calls cop t xs = (s', zs)" and outs: "outs = y # zs"
      using Cons.prems(2) c by (auto simp: Let_def split: prod.splits)
    from c op_sim [OF Cons.prems(1), of x] op_inv [OF Cons.prems(1), of x]
    have "aop (abs s) x = (abs t, y)" "inv t" by simp_all
    with Cons.IH [OF _ r] outs show ?case by simp
  qed simp
  then show "run_calls aop (abs s) xs = (abs s', outs)" and "inv s'" by simp_all
qed

end

section \<open>Lemmas\<close>

lemma errors_Is_refl [simp]: "errors_Is e e"
  by (cases e) simp_all

lemma length_put_be [simp, codec_simps]: "length (put_be n w) = n"
  by (induction n) simp_all

lemma put_be_numeral:
  "put_be (numeral k) w = ucast (drop_bit (8 * pred_numeral k) w) # put_be (pred_numeral k) w"
  by (simp add: numeral_eq_Suc)

lemma PutUint64_BE_bytes:
  "PutUint64_BE w = [ucast (drop_bit 56 w), ucast (drop_bit 48 w), ucast (drop_bit 40 w),
     ucast (drop_bit 32 w), ucast (drop_bit 24 w), ucast (drop_bit 16 w), ucast (drop_bit 8 w), ucast w]"
  by (simp add: PutUint64_BE_def put_be_numeral)

lemma PutUint32_BE_bytes:
  "PutUint32_BE w = [ucast (drop_bit 24 w), ucast (drop_bit 16 w), ucast (drop_bit 8 w), ucast w]"
  by (simp add: PutUint32_BE_def put_be_numeral)

lemma put_be_encodings [codec_simps]:
  "length (PutUint64_BE a) = 8" "length (PutUint32_BE b) = 4" "length (PutUint64_LE a) = 8"
  by (simp_all add: PutUint64_BE_def PutUint32_BE_def PutUint64_LE_def)

lemma go_copy_length [simp]:
  "offset \<le> length buffer \<Longrightarrow> length (fst (go_copy buffer offset src)) = length buffer"
  by (simp add: go_copy_def Let_def)

lemma go_copy_fits:
  assumes "offset + length src \<le> length buffer"
  shows "snd (go_copy buffer offset src) = length src"
    and "take (offset + length src) (fst (go_copy buffer offset src)) = take offset buffer @ src"
proof -
  from assms have "min (length buffer - offset) (length src) = length src" by simp
  with assms show "snd (go_copy buffer offset src) = length src"
    and "take (offset + length src) (fst (go_copy buffer offset src)) = take offset buffer @ src"
    by (simp_all add: go_copy_def Let_def)
qed

text \<open>The encoding of a word determines the word, so labels of different leaves differ in their input.\<close>

lemma put_be_bit:
  fixes w :: "'a::len word"
  assumes "i < 8 * n" and "i < LENGTH('a)"
  shows "bit (rev (put_be n w) ! (i div 8)) (i mod 8) = bit w i"
  using assms(1)
proof (induction n)
  case 0
  then show ?case by simp
next
  case (Suc n)
  show ?case
  proof (cases "i < 8 * n")
    case True
    then have "i div 8 < n" by (simp add: less_mult_imp_div_less mult.commute)
    with Suc.IH True show ?thesis by (simp add: nth_append)
  next
    case False
    with Suc.prems have q: "i div 8 = n" by (simp add: div_nat_eqI)
    then have "8 * n + i mod 8 = i"
      by (metis mult_div_mod_eq)
    with q assms(2) show ?thesis
      by (simp add: nth_append bit_simps)
  qed
qed

lemma put_be_inject:
  fixes v w :: "'a::len word"
  assumes "LENGTH('a) \<le> 8 * n" and "put_be n v = put_be n w"
  shows "v = w"
proof (rule bit_word_eqI)
  fix i assume "i < LENGTH('a)"
  with assms(1) have i: "i < 8 * n" "i < LENGTH('a)" by simp_all
  show "bit v i = bit w i"
    using put_be_bit [OF i, of v] put_be_bit [OF i, of w] assms(2) by simp
qed

lemma PutUint64_BE_inject [simp]: "PutUint64_BE v = PutUint64_BE w \<longleftrightarrow> v = w"
  using put_be_inject [of 8 v w] by (auto simp: PutUint64_BE_def)

lemma PutUint32_BE_inject [simp]: "PutUint32_BE v = PutUint32_BE w \<longleftrightarrow> v = w"
  using put_be_inject [of 4 v w] by (auto simp: PutUint32_BE_def)

lemma PutUint64_LE_inject [simp]: "PutUint64_LE v = PutUint64_LE w \<longleftrightarrow> v = w"
  using put_be_inject [of 8 v w] by (auto simp: PutUint64_LE_def)

text \<open>Reading the encoding back gives the word.\<close>

lemma ucast_byte_ucast:
  "(ucast (ucast w :: byte) :: 'a word) = take_bit 8 w" for w :: "'a::len word"
  by (rule bit_word_eqI) (auto simp: bit_simps)

lemma foldl_put_be:
  fixes w :: "'a::len word"
  shows "foldl (\<lambda>acc b. push_bit 8 acc + ucast b) acc (put_be n w)
    = push_bit (8 * n) acc + take_bit (8 * n) w"
proof (induction n arbitrary: acc)
  case (Suc n)
  let ?a = "take_bit (8 * Suc n) w"
  have "push_bit (8 * n) (take_bit 8 (drop_bit (8 * n) w)) + take_bit (8 * n) w = ?a"
    using bits_ident [of "8 * n" ?a] by (simp add: drop_bit_take_bit min_def)
  then show ?case
    by (simp add: Suc.IH ucast_byte_ucast push_bit_add push_bit_push_bit add.assoc add.commute [of _ 8])
qed simp

lemma Uint64_BE_PutUint64_BE [simp, codec_simps]: "Uint64_BE (PutUint64_BE w) = w"
  by (simp add: Uint64_BE_def PutUint64_BE_def foldl_put_be take_bit_word_eq_self)

section \<open>Words as bounded numbers\<close>

lemma unat_of_nat_upto:
  fixes n :: "'a::len word"
  assumes "k \<le> unat n"
  shows "unat (of_nat k :: 'a word) = k"
proof -
  have "unat n < 2 ^ LENGTH('a)" by simp
  with assms have "k < 2 ^ LENGTH('a)" by linarith
  then show ?thesis by (simp add: unat_of_nat)
qed

lemma unat_of_nat_below: "k < unat n \<Longrightarrow> unat (of_nat k :: 'a word) = k" for n :: "'a::len word"
  by (rule unat_of_nat_upto [OF less_imp_le])

lemma word_diff_Suc_less: "a < b \<Longrightarrow> unat (b - (a + 1)) < unat (b - a)" for a b :: "'a::len word"
  by unat_arith

lemma unat_ucast_u8 [simp]: "unat (ucast t :: u64) = unat t" for t :: u8
proof -
  have "unat t < 256" using unsigned_less [of t] by simp
  then show ?thesis by (simp add: unsigned_ucast_eq take_bit_nat_eq_self)
qed

lemma unat_image_below: "unat ` {i. i < n} = {..<unat n}" for n :: "'a::len word"
proof -
  have "k \<in> unat ` {i. i < n}" if "k < unat n" for k
    using that by (intro image_eqI [of _ _ "of_nat k"]) (simp_all add: unat_of_nat_below word_less_nat_alt)
  then show ?thesis by (auto simp: word_less_nat_alt)
qed

lemma of_nat_upto_unat: "set (map of_nat [0..<unat n]) = {i. i < n}" for n :: "'a::len word"
proof -
  have "of_nat ` unat ` {i. i < n} = {i. i < n}" by (simp add: image_image)
  then show ?thesis by (simp add: unat_image_below atLeast0LessThan)
qed

lemma card_words_below: "card {i. i < n} = unat n" for n :: "'a::len word"
proof -
  have "card (unat ` {i. i < n}) = card {i. i < n}"
    by (intro card_image) (simp add: inj_on_def word_unat_eq_iff)
  then show ?thesis by (simp add: unat_image_below)
qed

end
