(* ===== verification/Leveldb.thy ===== *)
theory Leveldb
  imports Prelude "HOL-Library.List_Lexorder"
begin

text \<open>
  The \<open>goleveldb\<close> package is third-party: its operations are the fields of a record. \<open>'w\<close> is the
  state of the file system and of the open databases, \<open>'h\<close> a database handle. The predicates
  \<open>ldb_*_ok\<close> name the documented behaviour that the program relies on, and \<open>ref_ldb\<close> is an
  instance that has it.
\<close>

section \<open>The operations\<close>

text \<open>
  An iterator over the whole database is the list of the items it yields and what its \<open>Error\<close>
  method reports afterwards. A batch is the list of its records. A database has at most one open
  transaction, so the operations of a transaction take the handle.
\<close>

type_synonym kvs = "(bytes \<times> bytes) list"

record ('w, 'h) leveldb_api =
  ldb_OpenFile :: "'w \<Rightarrow> string \<Rightarrow> bool \<Rightarrow> 'w \<times> (goerr + 'h)"
  ldb_Get :: "'w \<Rightarrow> 'h \<Rightarrow> bytes \<Rightarrow> goerr + bytes"
  ldb_Put :: "'w \<Rightarrow> 'h \<Rightarrow> bytes \<Rightarrow> bytes \<Rightarrow> 'w \<times> goerr option"
  ldb_Write :: "'w \<Rightarrow> 'h \<Rightarrow> kvs \<Rightarrow> 'w \<times> goerr option"
  ldb_Items :: "'w \<Rightarrow> 'h \<Rightarrow> kvs \<times> goerr option"
  ldb_Close :: "'w \<Rightarrow> 'h \<Rightarrow> 'w \<times> goerr option"
  ldb_OpenTransaction :: "'w \<Rightarrow> 'h \<Rightarrow> 'w \<times> goerr option"
  ldb_TxGet :: "'w \<Rightarrow> 'h \<Rightarrow> bytes \<Rightarrow> goerr + bytes"
  ldb_TxPut :: "'w \<Rightarrow> 'h \<Rightarrow> bytes \<Rightarrow> bytes \<Rightarrow> 'w \<times> goerr option"
  ldb_TxCommit :: "'w \<Rightarrow> 'h \<Rightarrow> 'w \<times> goerr option"
  ldb_TxDiscard :: "'w \<Rightarrow> 'h \<Rightarrow> 'w"

section \<open>What the code relies on\<close>

text \<open>
  \<open>cont w p\<close> is the contents of the database stored at path \<open>p\<close> (\<open>None\<close>: there is none) and
  \<open>path w h\<close> the path of an open handle (\<open>None\<close>: the handle is closed).
\<close>

type_synonym 'w ldb_cont = "'w \<Rightarrow> string \<Rightarrow> (bytes \<rightharpoonup> bytes) option"
type_synonym ('w, 'h) ldb_path = "'w \<Rightarrow> 'h \<Rightarrow> string option"

definition apply_batch :: "(bytes \<rightharpoonup> bytes) \<Rightarrow> kvs \<Rightarrow> (bytes \<rightharpoonup> bytes)" where
  "apply_batch m b = m ++ map_of (rev b)"

text \<open>A lookup gives the stored value; \<open>ErrNotFound\<close> is reported for absent keys only.\<close>

definition ldb_get_ok :: "('w, 'h) leveldb_api \<Rightarrow> 'w ldb_cont \<Rightarrow> ('w, 'h) ldb_path \<Rightarrow> bool" where
  "ldb_get_ok L cont path \<longleftrightarrow> (\<forall>w h p m k. path w h = Some p \<longrightarrow> cont w p = Some m \<longrightarrow>
     (\<forall>v. ldb_Get L w h k = Inr v \<longrightarrow> m k = Some v) \<and>
     (\<forall>e. ldb_Get L w h k = Inl e \<longrightarrow> errors_Is e ErrNotFound \<longrightarrow> m k = None))"

text \<open>A batch is applied as a whole when no error is reported, and as a whole or not at all otherwise.\<close>

definition ldb_write_ok :: "('w, 'h) leveldb_api \<Rightarrow> 'w ldb_cont \<Rightarrow> ('w, 'h) ldb_path \<Rightarrow> bool" where
  "ldb_write_ok L cont path \<longleftrightarrow> (\<forall>w h p m b w' r. path w h = Some p \<longrightarrow> cont w p = Some m \<longrightarrow>
     ldb_Write L w h b = (w', r) \<longrightarrow>
     path w' = path w \<and> (cont w' = (cont w)(p \<mapsto> apply_batch m b) \<or> r \<noteq> None \<and> cont w' = cont w))"

text \<open>
  An iterator yields items in the order of their keys (bytewise); without an error it yields all
  of them.
\<close>

definition ldb_items_ok :: "('w, 'h) leveldb_api \<Rightarrow> 'w ldb_cont \<Rightarrow> ('w, 'h) ldb_path \<Rightarrow> bool" where
  "ldb_items_ok L cont path \<longleftrightarrow> (\<forall>w h p m. path w h = Some p \<longrightarrow> cont w p = Some m \<longrightarrow>
     snd (ldb_Items L w h) = None \<longrightarrow>
     sorted (map fst (fst (ldb_Items L w h))) \<and> distinct (map fst (fst (ldb_Items L w h))) \<and>
     map_of (fst (ldb_Items L w h)) = m)"

text \<open>Every operation on a closed database reports \<open>ErrClosed\<close> and does nothing.\<close>

definition ldb_closed_ok :: "('w, 'h) leveldb_api \<Rightarrow> ('w, 'h) ldb_path \<Rightarrow> bool" where
  "ldb_closed_ok L path \<longleftrightarrow> (\<forall>w h. path w h = None \<longrightarrow>
     ldb_Items L w h = ([], Some ErrDbClosed) \<and> ldb_Close L w h = (w, Some ErrDbClosed) \<and>
     (\<forall>k. ldb_Get L w h k = Inl ErrDbClosed) \<and> (\<forall>b. ldb_Write L w h b = (w, Some ErrDbClosed)))"

definition ldb_close_ok :: "('w, 'h) leveldb_api \<Rightarrow> 'w ldb_cont \<Rightarrow> ('w, 'h) ldb_path \<Rightarrow> bool" where
  "ldb_close_ok L cont path \<longleftrightarrow> (\<forall>w h p w' r. path w h = Some p \<longrightarrow> ldb_Close L w h = (w', r) \<longrightarrow>
     cont w' = cont w \<and> path w' = (path w)(h := None))"

text \<open>
  Opening gives a fresh handle on the stored contents, or on an empty database unless a missing
  database is an error; a database that is open already is locked. A failure changes nothing, and
  \<open>ErrNotExist\<close> is reported for a missing database only.
\<close>

definition ldb_open_ok :: "('w, 'h) leveldb_api \<Rightarrow> 'w ldb_cont \<Rightarrow> ('w, 'h) ldb_path \<Rightarrow> bool" where
  "ldb_open_ok L cont path \<longleftrightarrow> (\<forall>w p mustExist w' r. ldb_OpenFile L w p mustExist = (w', r) \<longrightarrow>
     (case r of
        Inl e \<Rightarrow> cont w' = cont w \<and> path w' = path w \<and> (errors_Is e ErrNotExist \<longrightarrow> cont w p = None)
      | Inr h \<Rightarrow> path w h = None \<and> path w' = (path w)(h \<mapsto> p) \<and> (\<forall>h'. path w h' \<noteq> Some p) \<and>
          (mustExist \<longrightarrow> cont w p \<noteq> None) \<and>
          cont w' = (cont w)(p \<mapsto> (case cont w p of None \<Rightarrow> Map.empty | Some m \<Rightarrow> m))))"

definition leveldb_contract :: "('w, 'h) leveldb_api \<Rightarrow> 'w ldb_cont \<Rightarrow> ('w, 'h) ldb_path \<Rightarrow> bool" where
  "leveldb_contract L cont path \<longleftrightarrow> ldb_get_ok L cont path \<and> ldb_write_ok L cont path \<and>
     ldb_items_ok L cont path \<and> ldb_closed_ok L path \<and> ldb_close_ok L cont path \<and> ldb_open_ok L cont path"

text \<open>Single writes, and transactions: \<open>tview w h\<close> is the contents as the open transaction sees them.\<close>

definition ldb_put_ok :: "('w, 'h) leveldb_api \<Rightarrow> 'w ldb_cont \<Rightarrow> ('w, 'h) ldb_path \<Rightarrow> bool" where
  "ldb_put_ok L cont path \<longleftrightarrow> (\<forall>w h p m k v w' r. path w h = Some p \<longrightarrow> cont w p = Some m \<longrightarrow>
     ldb_Put L w h k v = (w', r) \<longrightarrow>
     path w' = path w \<and> (cont w' = (cont w)(p \<mapsto> m(k \<mapsto> v)) \<or> r \<noteq> None \<and> cont w' = cont w))"

type_synonym ('w, 'h) ldb_tview = "'w \<Rightarrow> 'h \<Rightarrow> (bytes \<rightharpoonup> bytes)"

definition ldb_tx_open_ok :: "('w, 'h) leveldb_api \<Rightarrow> 'w ldb_cont \<Rightarrow> ('w, 'h) ldb_path \<Rightarrow> ('w, 'h) ldb_tview \<Rightarrow> bool" where
  "ldb_tx_open_ok L cont path tview \<longleftrightarrow> (\<forall>w h p m w' r. path w h = Some p \<longrightarrow> cont w p = Some m \<longrightarrow>
     ldb_OpenTransaction L w h = (w', r) \<longrightarrow>
     cont w' = cont w \<and> path w' = path w \<and> (r = None \<longrightarrow> tview w' h = m))"

definition ldb_tx_get_ok :: "('w, 'h) leveldb_api \<Rightarrow> ('w, 'h) ldb_path \<Rightarrow> ('w, 'h) ldb_tview \<Rightarrow> bool" where
  "ldb_tx_get_ok L path tview \<longleftrightarrow> (\<forall>w h k. path w h \<noteq> None \<longrightarrow>
     (\<forall>v. ldb_TxGet L w h k = Inr v \<longrightarrow> tview w h k = Some v) \<and>
     (\<forall>e. ldb_TxGet L w h k = Inl e \<longrightarrow> errors_Is e ErrNotFound \<longrightarrow> tview w h k = None))"

definition ldb_tx_put_ok :: "('w, 'h) leveldb_api \<Rightarrow> 'w ldb_cont \<Rightarrow> ('w, 'h) ldb_path \<Rightarrow> ('w, 'h) ldb_tview \<Rightarrow> bool" where
  "ldb_tx_put_ok L cont path tview \<longleftrightarrow> (\<forall>w h k v w' r. path w h \<noteq> None \<longrightarrow> ldb_TxPut L w h k v = (w', r) \<longrightarrow>
     cont w' = cont w \<and> path w' = path w \<and>
     tview w' h = (if r = None then (tview w h)(k \<mapsto> v) else tview w h))"

definition ldb_tx_end_ok :: "('w, 'h) leveldb_api \<Rightarrow> 'w ldb_cont \<Rightarrow> ('w, 'h) ldb_path \<Rightarrow> ('w, 'h) ldb_tview \<Rightarrow> bool" where
  "ldb_tx_end_ok L cont path tview \<longleftrightarrow>
     (\<forall>w h p w' r. path w h = Some p \<longrightarrow> ldb_TxCommit L w h = (w', r) \<longrightarrow>
        path w' = path w \<and> (cont w' = (cont w)(p \<mapsto> tview w h) \<or> r \<noteq> None \<and> cont w' = cont w)) \<and>
     (\<forall>w h. cont (ldb_TxDiscard L w h) = cont w \<and> path (ldb_TxDiscard L w h) = path w)"

definition ldb_tx_contract :: "('w, 'h) leveldb_api \<Rightarrow> 'w ldb_cont \<Rightarrow> ('w, 'h) ldb_path \<Rightarrow> ('w, 'h) ldb_tview \<Rightarrow> bool" where
  "ldb_tx_contract L cont path tview \<longleftrightarrow> ldb_tx_open_ok L cont path tview \<and> ldb_tx_get_ok L path tview \<and>
     ldb_tx_put_ok L cont path tview \<and> ldb_tx_end_ok L cont path tview"

section \<open>Lemmas\<close>

lemma apply_batch_Nil [simp]: "apply_batch m [] = m"
  by (simp add: apply_batch_def)

lemma apply_batch_mem:
  assumes "distinct (map fst b)" and "(k, v) \<in> set b"
  shows "apply_batch m b k = Some v"
  using assms by (simp add: apply_batch_def map_add_def map_of_eq_Some_iff rev_map [symmetric] split: option.split)

lemma apply_batch_other: "k \<notin> fst ` set b \<Longrightarrow> apply_batch m b k = m k"
  by (force simp: apply_batch_def map_add_def split: option.split dest: map_of_SomeD)

lemma dom_apply_batch [simp]: "dom (apply_batch m b) = dom m \<union> fst ` set b"
  by (auto simp: apply_batch_def dom_map_of_conv_image_fst)

text \<open>The order of an iteration is a function of the contents.\<close>

lemma sorted_items_unique:
  fixes xs ys :: kvs
  assumes "sorted (map fst xs)" "distinct (map fst xs)" "sorted (map fst ys)" "distinct (map fst ys)"
    and m: "map_of xs = map_of ys"
  shows "xs = ys"
proof -
  from m have "set (map fst xs) = set (map fst ys)" by (metis dom_map_of_conv_image_fst set_map)
  with assms have k: "map fst xs = map fst ys" by (metis sorted_distinct_set_unique)
  have "xs = map (\<lambda>k. (k, the (map_of xs k))) (map fst xs)"
    using assms(2) by (auto intro!: map_idI [symmetric] simp: map_of_eq_Some_iff)
  also have "\<dots> = map (\<lambda>k. (k, the (map_of ys k))) (map fst ys)" by (simp only: k m)
  also have "\<dots> = ys" using assms(4) by (auto intro!: map_idI simp: map_of_eq_Some_iff)
  finally show ?thesis .
qed

lemma contract_write:
  assumes "leveldb_contract L cont path" "path w h = Some p" "cont w p = Some m" "ldb_Write L w h b = (w', r)"
  shows "path w' = path w" and "cont w' p = Some (apply_batch m b) \<or> r \<noteq> None \<and> cont w' p = Some m"
proof -
  from assms(1) have "ldb_write_ok L cont path" by (simp add: leveldb_contract_def)
  with assms(2-4) have "path w' = path w \<and> (cont w' = (cont w)(p \<mapsto> apply_batch m b) \<or> r \<noteq> None \<and> cont w' = cont w)"
    unfolding ldb_write_ok_def by blast
  with assms(3) show "path w' = path w" and "cont w' p = Some (apply_batch m b) \<or> r \<noteq> None \<and> cont w' p = Some m"
    by auto
qed

lemma contract_get:
  assumes "leveldb_contract L cont path" "path w h = Some p" "cont w p = Some m"
  shows "ldb_Get L w h k = Inr v \<Longrightarrow> m k = Some v"
    and "ldb_Get L w h k = Inl e \<Longrightarrow> errors_Is e ErrNotFound \<Longrightarrow> m k = None"
  using assms unfolding leveldb_contract_def ldb_get_ok_def by blast+

lemma contract_closed:
  assumes "leveldb_contract L cont path" "path w h = None"
  shows "ldb_Items L w h = ([], Some ErrDbClosed)" "ldb_Close L w h = (w, Some ErrDbClosed)"
    "ldb_Get L w h k = Inl ErrDbClosed" "ldb_Write L w h b = (w, Some ErrDbClosed)"
  using assms unfolding leveldb_contract_def ldb_closed_ok_def by blast+

lemma contract_close:
  assumes "leveldb_contract L cont path" "path w h = Some p" "ldb_Close L w h = (w', r)"
  shows "cont w' = cont w" and "path w' = (path w)(h := None)"
  using assms unfolding leveldb_contract_def ldb_close_ok_def by blast+

lemma contract_items:
  assumes "leveldb_contract L cont path" "path w h = Some p" "cont w p = Some m" "ldb_Items L w h = (its, None)"
  shows "sorted (map fst its)" "distinct (map fst its)" "map_of its = m"
proof -
  from assms(1) have "ldb_items_ok L cont path" by (simp add: leveldb_contract_def)
  from this [unfolded ldb_items_ok_def, rule_format, OF assms(2,3)] assms(4)
  show "sorted (map fst its)" "distinct (map fst its)" "map_of its = m" by simp_all
qed

lemma contract_open:
  assumes "leveldb_contract L cont path" "ldb_OpenFile L w p b = (w', Inr h)"
  shows "path w' h = Some p" "b \<Longrightarrow> cont w p \<noteq> None"
    "cont w' p = Some (case cont w p of None \<Rightarrow> Map.empty | Some m \<Rightarrow> m)"
proof -
  from assms(1) have "ldb_open_ok L cont path" by (simp add: leveldb_contract_def)
  from this [unfolded ldb_open_ok_def, rule_format, OF assms(2)]
  show "path w' h = Some p" "b \<Longrightarrow> cont w p \<noteq> None"
    "cont w' p = Some (case cont w p of None \<Rightarrow> Map.empty | Some m \<Rightarrow> m)" by simp_all
qed

lemma contract_open_all:
  assumes "leveldb_contract L cont path" "ldb_OpenFile L w p b = (w', Inr h)"
  shows "path w h = None" "path w' = (path w)(h \<mapsto> p)"
    "cont w' = (cont w)(p \<mapsto> (case cont w p of None \<Rightarrow> Map.empty | Some m \<Rightarrow> m))"
proof -
  from assms(1) have "ldb_open_ok L cont path" by (simp add: leveldb_contract_def)
  from this [unfolded ldb_open_ok_def, rule_format, OF assms(2)]
  show "path w h = None" "path w' = (path w)(h \<mapsto> p)"
    "cont w' = (cont w)(p \<mapsto> (case cont w p of None \<Rightarrow> Map.empty | Some m \<Rightarrow> m))" by simp_all
qed

lemma contract_open_missing:
  assumes "leveldb_contract L cont path" "ldb_OpenFile L w p b = (w', Inl e)" "errors_Is e ErrNotExist"
  shows "cont w p = None"
proof -
  from assms(1) have "ldb_open_ok L cont path" by (simp add: leveldb_contract_def)
  from this [unfolded ldb_open_ok_def, rule_format, OF assms(2)] assms(3) show ?thesis by simp
qed

lemma contract_put:
  assumes "ldb_put_ok L cont path" "path w h = Some p" "cont w p = Some m" "ldb_Put L w h k v = (w', None)"
  shows "path w' = path w" and "cont w' = (cont w)(p \<mapsto> m(k \<mapsto> v))"
  using assms unfolding ldb_put_ok_def by blast+

lemma tx_open:
  assumes "ldb_tx_contract L cont path tview" "path w h = Some p" "cont w p = Some m"
    "ldb_OpenTransaction L w h = (w', None)"
  shows "cont w' = cont w" "path w' = path w" "tview w' h = m"
  using assms unfolding ldb_tx_contract_def ldb_tx_open_ok_def by blast+

lemma tx_get:
  assumes "ldb_tx_contract L cont path tview" "path w h = Some p"
  shows "ldb_TxGet L w h k = Inr v \<Longrightarrow> tview w h k = Some v"
    and "ldb_TxGet L w h k = Inl e \<Longrightarrow> errors_Is e ErrNotFound \<Longrightarrow> tview w h k = None"
  using assms unfolding ldb_tx_contract_def ldb_tx_get_ok_def by auto

lemma tx_put:
  assumes "ldb_tx_contract L cont path tview" "path w h = Some p" "ldb_TxPut L w h k v = (w', r)"
  shows "cont w' = cont w" "path w' = path w" "tview w' h = (if r = None then (tview w h)(k \<mapsto> v) else tview w h)"
  using assms unfolding ldb_tx_contract_def ldb_tx_put_ok_def by (metis option.distinct(1))+

lemma tx_commit:
  assumes "ldb_tx_contract L cont path tview" "path w h = Some p" "ldb_TxCommit L w h = (w', None)"
  shows "path w' = path w" "cont w' = (cont w)(p \<mapsto> tview w h)"
  using assms unfolding ldb_tx_contract_def ldb_tx_end_ok_def by blast+

section \<open>A reference instance\<close>

text \<open>
  Databases as association lists (the first record of a key counts), handles as indices. The
  disk may be full, in which case nothing can be written.
\<close>

record ldb_world =
  stored :: "(string \<times> kvs) list"
  opened :: "string option list"
  txns :: "(nat \<times> kvs) list"
  diskFull :: bool

definition ref_cont :: "ldb_world ldb_cont" where
  "ref_cont w p = map_option map_of (map_of (stored w) p)"

definition ref_path :: "(ldb_world, nat) ldb_path" where
  "ref_path w h = (if h < length (opened w) then opened w ! h else None)"

fun kv_put :: "bytes \<Rightarrow> bytes \<Rightarrow> kvs \<Rightarrow> kvs" where
  "kv_put k v [] = [(k, v)]"
| "kv_put k v ((k', v') # xs) =
     (if k < k' then (k, v) # (k', v') # xs else if k = k' then (k, v) # xs else (k', v') # kv_put k v xs)"

definition kv_sort :: "kvs \<Rightarrow> kvs" where
  "kv_sort xs = foldr (\<lambda>(k, v). kv_put k v) xs []"

definition ref_lookup :: "kvs \<Rightarrow> bytes \<Rightarrow> goerr + bytes" where
  "ref_lookup kv k = (case map_of kv k of None \<Rightarrow> Inl ErrNotFound | Some v \<Rightarrow> Inr v)"

definition ref_kvs :: "ldb_world \<Rightarrow> string \<Rightarrow> kvs" where
  "ref_kvs w p = (case map_of (stored w) p of None \<Rightarrow> [] | Some kv \<Rightarrow> kv)"

definition ref_append :: "ldb_world \<Rightarrow> nat \<Rightarrow> kvs \<Rightarrow> ldb_world \<times> goerr option" where
  "ref_append w h b =
     (case ref_path w h of
        None \<Rightarrow> (w, Some ErrDbClosed)
      | Some p \<Rightarrow> if diskFull w then (w, Some (Opaque ''no space left on device''))
                  else (w\<lparr>stored := (p, rev b @ ref_kvs w p) # stored w\<rparr>, None))"

definition ref_open :: "ldb_world \<Rightarrow> string \<Rightarrow> bool \<Rightarrow> ldb_world \<times> (goerr + nat)" where
  "ref_open w p mustExist =
     (if Some p \<in> set (opened w) then (w, Inl (Opaque ''resource temporarily unavailable''))
      else if mustExist \<and> map_of (stored w) p = None then (w, Inl ErrNotExist)
      else (w\<lparr>stored := (p, ref_kvs w p) # stored w, opened := opened w @ [Some p]\<rparr>,
            Inr (length (opened w))))"

definition ref_txn :: "ldb_world \<Rightarrow> nat \<Rightarrow> kvs" where
  "ref_txn w h = (case map_of (txns w) h of None \<Rightarrow> [] | Some b \<Rightarrow> b)"

definition ref_ldb :: "(ldb_world, nat) leveldb_api" where
  "ref_ldb = \<lparr>
     ldb_OpenFile = ref_open,
     ldb_Get = (\<lambda>w h k. case ref_path w h of None \<Rightarrow> Inl ErrDbClosed | Some p \<Rightarrow> ref_lookup (ref_kvs w p) k),
     ldb_Put = (\<lambda>w h k v. ref_append w h [(k, v)]),
     ldb_Write = ref_append,
     ldb_Items = (\<lambda>w h. case ref_path w h of None \<Rightarrow> ([], Some ErrDbClosed) | Some p \<Rightarrow> (kv_sort (ref_kvs w p), None)),
     ldb_Close = (\<lambda>w h. case ref_path w h of None \<Rightarrow> (w, Some ErrDbClosed)
                        | Some p \<Rightarrow> (w\<lparr>opened := (opened w)[h := None]\<rparr>, None)),
     ldb_OpenTransaction = (\<lambda>w h. case ref_path w h of None \<Rightarrow> (w, Some ErrDbClosed)
                        | Some p \<Rightarrow> (w\<lparr>txns := (h, []) # txns w\<rparr>, None)),
     ldb_TxGet = (\<lambda>w h k. case ref_path w h of None \<Rightarrow> Inl ErrDbClosed | Some p \<Rightarrow> ref_lookup (ref_txn w h @ ref_kvs w p) k),
     ldb_TxPut = (\<lambda>w h k v. (w\<lparr>txns := (h, (k, v) # ref_txn w h) # txns w\<rparr>, None)),
     ldb_TxCommit = (\<lambda>w h. ref_append (w\<lparr>txns := (h, []) # txns w\<rparr>) h (rev (ref_txn w h))),
     ldb_TxDiscard = (\<lambda>w h. w\<lparr>txns := (h, []) # txns w\<rparr>)\<rparr>"

lemma map_of_kv_put [simp]: "map_of (kv_put k v xs) = (map_of xs)(k \<mapsto> v)"
  by (induction k v xs rule: kv_put.induct) (auto simp: fun_eq_iff)

lemma set_kv_put: "fst ` set (kv_put k v xs) = insert k (fst ` set xs)"
  by (induction k v xs rule: kv_put.induct) auto

lemma kv_put_sorted:
  "sorted (map fst xs) \<and> distinct (map fst xs) \<Longrightarrow>
   sorted (map fst (kv_put k v xs)) \<and> distinct (map fst (kv_put k v xs))"
proof (induction k v xs rule: kv_put.induct)
  case (2 k v k' v' xs)
  then show ?case using set_kv_put [of k v xs] by (fastforce simp: less_imp_le not_less)
qed simp

lemma kv_sort_items:
  "sorted (map fst (kv_sort xs))" "distinct (map fst (kv_sort xs))" "map_of (kv_sort xs) = map_of xs"
proof -
  have "sorted (map fst (kv_sort xs)) \<and> distinct (map fst (kv_sort xs)) \<and> map_of (kv_sort xs) = map_of xs"
    by (induction xs) (auto simp: kv_sort_def kv_put_sorted)
  then show "sorted (map fst (kv_sort xs))" "distinct (map fst (kv_sort xs))" "map_of (kv_sort xs) = map_of xs"
    by blast+
qed

lemma ref_cont_kvs: "ref_cont w p = Some m \<Longrightarrow> map_of (ref_kvs w p) = m"
  by (auto simp: ref_cont_def ref_kvs_def)

lemma ref_path_Some: "ref_path w h = Some p \<Longrightarrow> h < length (opened w) \<and> opened w ! h = Some p"
  by (simp add: ref_path_def split: if_splits)

lemma ref_path_stored [simp]: "ref_path (w\<lparr>stored := x\<rparr>) = ref_path w"
  by (simp add: ref_path_def fun_eq_iff)

lemma ref_ldb_get: "ldb_get_ok ref_ldb ref_cont ref_path"
  by (auto simp: ldb_get_ok_def ref_ldb_def ref_lookup_def ref_cont_kvs split: option.splits)

lemma ref_ldb_write: "ldb_write_ok ref_ldb ref_cont ref_path"
proof -
  have "ref_cont (w\<lparr>stored := (p, rev b @ ref_kvs w p) # stored w\<rparr>) = (ref_cont w)(p \<mapsto> apply_batch m b)"
    if "ref_cont w p = Some m" for w p b m
    by (rule ext) (simp add: ref_cont_def apply_batch_def ref_cont_kvs [OF that])
  then show ?thesis
    by (auto simp: ldb_write_ok_def ref_ldb_def ref_append_def split: if_splits)
qed

lemma ref_ldb_items: "ldb_items_ok ref_ldb ref_cont ref_path"
  by (auto simp: ldb_items_ok_def ref_ldb_def kv_sort_items ref_cont_kvs)

lemma ref_ldb_closed: "ldb_closed_ok ref_ldb ref_path"
  by (auto simp: ldb_closed_ok_def ref_ldb_def ref_append_def)

lemma ref_ldb_close: "ldb_close_ok ref_ldb ref_cont ref_path"
  by (auto simp: ldb_close_ok_def ref_ldb_def ref_cont_def ref_path_def fun_eq_iff split: if_splits option.splits)

lemma ref_ldb_open: "ldb_open_ok ref_ldb ref_cont ref_path"
  unfolding ldb_open_ok_def
proof (intro allI impI)
  fix w p mustExist w' and r :: "goerr + nat"
  assume "ldb_OpenFile ref_ldb w p mustExist = (w', r)"
  then have o: "ref_open w p mustExist = (w', r)" by (simp add: ref_ldb_def)
  show "case r of Inl e \<Rightarrow> ref_cont w' = ref_cont w \<and> ref_path w' = ref_path w \<and> (errors_Is e ErrNotExist \<longrightarrow> ref_cont w p = None)
     | Inr h \<Rightarrow> ref_path w h = None \<and> ref_path w' = (ref_path w)(h \<mapsto> p) \<and> (\<forall>h'. ref_path w h' \<noteq> Some p) \<and>
          (mustExist \<longrightarrow> ref_cont w p \<noteq> None) \<and>
          ref_cont w' = (ref_cont w)(p \<mapsto> (case ref_cont w p of None \<Rightarrow> Map.empty | Some m \<Rightarrow> m))"
    using o in_set_conv_nth [of "Some p" "opened w"] unfolding ref_open_def
    by (auto simp: ref_path_def ref_cont_def ref_kvs_def fun_eq_iff nth_append split: if_splits option.splits)
qed

lemma ref_leveldb_contract: "leveldb_contract ref_ldb ref_cont ref_path"
  by (simp add: leveldb_contract_def ref_ldb_get ref_ldb_write ref_ldb_items ref_ldb_closed ref_ldb_close ref_ldb_open)

definition ref_tview :: "(ldb_world, nat) ldb_tview" where
  "ref_tview w h = (case ref_path w h of None \<Rightarrow> Map.empty | Some p \<Rightarrow> map_of (ref_txn w h @ ref_kvs w p))"

lemma ref_ldb_put: "ldb_put_ok ref_ldb ref_cont ref_path"
proof -
  have "ref_cont (w\<lparr>stored := (p, (k, v) # ref_kvs w p) # stored w\<rparr>) = (ref_cont w)(p \<mapsto> m(k \<mapsto> v))"
    if "ref_cont w p = Some m" for w p k v m
    by (rule ext) (simp add: ref_cont_def ref_cont_kvs [OF that])
  then show ?thesis by (auto simp: ldb_put_ok_def ref_ldb_def ref_append_def split: if_splits)
qed

lemma ref_txns_simps [simp]:
  "ref_path (w\<lparr>txns := x\<rparr>) = ref_path w" "ref_cont (w\<lparr>txns := x\<rparr>) = ref_cont w" "ref_kvs (w\<lparr>txns := x\<rparr>) = ref_kvs w"
  "ref_txn (w\<lparr>txns := (h, b) # x\<rparr>) h = b"
  by (simp_all add: ref_path_def ref_cont_def ref_kvs_def ref_txn_def fun_eq_iff)

lemma ref_ldb_tx: "ldb_tx_contract ref_ldb ref_cont ref_path ref_tview"
proof -
  have "ldb_tx_open_ok ref_ldb ref_cont ref_path ref_tview"
    by (auto simp: ldb_tx_open_ok_def ref_ldb_def ref_tview_def ref_cont_kvs)
  moreover have "ldb_tx_get_ok ref_ldb ref_path ref_tview"
    by (auto simp: ldb_tx_get_ok_def ref_ldb_def ref_tview_def ref_lookup_def split: option.splits)
  moreover have "ldb_tx_put_ok ref_ldb ref_cont ref_path ref_tview"
    by (auto simp: ldb_tx_put_ok_def ref_ldb_def ref_tview_def)
  moreover have "ldb_tx_end_ok ref_ldb ref_cont ref_path ref_tview"
    by (auto simp: ldb_tx_end_ok_def ref_ldb_def ref_tview_def ref_append_def ref_cont_def fun_eq_iff split: if_splits)
  ultimately show ?thesis by (simp add: ldb_tx_contract_def)
qed

end
