(* ===== verification/Strconv.thy ===== *)
theory Strconv
  imports Prelude
begin

text \<open>
  Decimal numbers (package \<open>strconv\<close>): \<open>FormatUint\<close>, \<open>ParseUint\<close> and \<open>Atoi\<close>, as the program uses
  them for round identifiers, round directories and layer files.
\<close>

section \<open>Printing and parsing\<close>

fun fmt_nat :: "nat \<Rightarrow> string" where
  "fmt_nat n = (if n < 10 then [char_of (48 + n)] else fmt_nat (n div 10) @ [char_of (48 + n mod 10)])"

declare fmt_nat.simps [simp del]

definition FormatUint :: "u64 \<Rightarrow> string" where
  "FormatUint n = fmt_nat (unat n)"

fun parse_digits :: "nat \<Rightarrow> string \<Rightarrow> nat option" where
  "parse_digits acc [] = Some acc"
| "parse_digits acc (c # cs) =
     (let d = of_char c :: nat in
      if 48 \<le> d \<and> d \<le> 57 then parse_digits (acc * 10 + (d - 48)) cs else None)"

definition ParseUint :: "string \<Rightarrow> nat \<Rightarrow> nat option" where
  "ParseUint s bitSize =
     (if s = [] then None
      else (case parse_digits 0 s of
              None \<Rightarrow> None
            | Some n \<Rightarrow> if n < 2 ^ bitSize then Some n else None))"

text \<open>\<open>Atoi\<close> accepts one sign and the range of a signed 64-bit integer.\<close>

definition Atoi :: "string \<Rightarrow> int option" where
  "Atoi s =
     (let neg = (s \<noteq> [] \<and> hd s = CHR ''-'');
          digits = (if s \<noteq> [] \<and> (hd s = CHR ''-'' \<or> hd s = CHR ''+'') then tl s else s)
      in if digits = [] then None
         else (case parse_digits 0 digits of
                 None \<Rightarrow> None
               | Some n \<Rightarrow>
                   if neg then (if n \<le> 2 ^ 63 then Some (- int n) else None)
                   else (if n < 2 ^ 63 then Some (int n) else None)))"

section \<open>Lemmas\<close>

lemma digit_char [simp]: "d < 10 \<Longrightarrow> of_char (char_of (48 + d) :: char) = 48 + d" for d :: nat
  by (simp add: of_char_of)

lemma parse_digits_append:
  "parse_digits acc (xs @ ys) = (case parse_digits acc xs of None \<Rightarrow> None | Some a \<Rightarrow> parse_digits a ys)"
  by (induction xs arbitrary: acc) (auto simp: Let_def)

lemma parse_fmt_nat [simp]: "parse_digits 0 (fmt_nat n) = Some n"
proof (induction n rule: fmt_nat.induct)
  case (1 n)
  show ?case
  proof (cases "n < 10")
    case True
    then show ?thesis by (subst fmt_nat.simps) (simp add: Let_def)
  next
    case False
    with 1 show ?thesis
      by (subst fmt_nat.simps) (simp add: parse_digits_append Let_def)
  qed
qed

lemma fmt_nat_nonempty [simp]: "fmt_nat n \<noteq> []"
  by (subst fmt_nat.simps) simp

lemma fmt_nat_digits: "c \<in> set (fmt_nat n) \<Longrightarrow> 48 \<le> (of_char c :: nat) \<and> (of_char c :: nat) \<le> 57"
proof (induction n rule: fmt_nat.induct)
  case (1 n)
  then show ?case
    by (cases "n < 10") (auto simp: fmt_nat.simps [of n])
qed

lemma fmt_nat_inject [simp]: "fmt_nat m = fmt_nat n \<longleftrightarrow> m = n"
  by (metis option.inject parse_fmt_nat)

lemma FormatUint_inject [simp]: "FormatUint m = FormatUint n \<longleftrightarrow> m = n"
  by (simp add: FormatUint_def word_unat_eq_iff)

lemma ParseUint_FormatUint: "unat n < 2 ^ k \<Longrightarrow> ParseUint (FormatUint n) k = Some (unat n)"
  by (simp add: ParseUint_def FormatUint_def)

lemma Atoi_fmt_nat:
  assumes "n < 2 ^ 63"
  shows "Atoi (fmt_nat n) = Some (int n)"
proof -
  have "hd (fmt_nat n) \<in> set (fmt_nat n)" by simp
  then have "hd (fmt_nat n) \<noteq> CHR ''-''" and "hd (fmt_nat n) \<noteq> CHR ''+''"
    using fmt_nat_digits [of "hd (fmt_nat n)" n] by auto
  with assms show ?thesis by (simp add: Atoi_def Let_def)
qed

end
