(* ===== verification/Paths.thy ===== *)
theory Paths
  imports Strconv
begin

text \<open>
  Package \<open>path/filepath\<close> on Unix: \<open>Clean\<close> and \<open>Join\<close>, with which the program names its databases,
  round directories and layer files, and the fact that different rounds get different paths.
\<close>

section \<open>\<open>Clean\<close> and \<open>Join\<close>\<close>

fun split_on :: "char \<Rightarrow> string \<Rightarrow> string list" where
  "split_on c [] = [[]]"
| "split_on c (x # xs) =
     (if x = c then [] # split_on c xs
      else (case split_on c xs of [] \<Rightarrow> [[x]] | p # ps \<Rightarrow> (x # p) # ps))"

fun join_with :: "char \<Rightarrow> string list \<Rightarrow> string" where
  "join_with c [] = []"
| "join_with c [p] = p"
| "join_with c (p # q # ps) = p @ c # join_with c (q # ps)"

text \<open>The elements kept so far, innermost first; \<open>..\<close> removes one, and is dropped at the root.\<close>

fun path_push :: "bool \<Rightarrow> string list \<Rightarrow> string \<Rightarrow> string list" where
  "path_push rooted stack e =
     (if e = '''' \<or> e = ''.'' then stack
      else if e = ''..'' then
        (case stack of
           [] \<Rightarrow> if rooted then [] else [e]
         | t # ts \<Rightarrow> if t = ''..'' then e # stack else ts)
      else e # stack)"

definition Clean :: "string \<Rightarrow> string" where
  "Clean p =
     (if p = '''' then ''.''
      else let rooted = (hd p = CHR ''/'');
               body = join_with CHR ''/'' (rev (foldl (path_push rooted) [] (split_on CHR ''/'' p)));
               out = (if rooted then CHR ''/'' # body else body)
           in if out = '''' then ''.'' else out)"

definition filepath_Join :: "string list \<Rightarrow> string" where
  "filepath_Join elems =
     (case dropWhile (\<lambda>e. e = '''') elems of
        [] \<Rightarrow> ''''
      | e # es \<Rightarrow> Clean (join_with CHR ''/'' (e # es)))"

section \<open>Lemmas\<close>

lemma split_on_not_Nil [simp]: "split_on c xs \<noteq> []"
  by (induction xs) (auto split: list.splits)

lemma split_on_no_sep [simp]: "c \<notin> set xs \<Longrightarrow> split_on c xs = [xs]"
  by (induction xs) auto

lemma split_on_last: "c \<notin> set d \<Longrightarrow> split_on c (a @ c # d) = split_on c a @ [d]"
  by (induction a) (auto split: list.splits)

lemma join_with_snoc: "ps \<noteq> [] \<Longrightarrow> join_with c (ps @ [d]) = join_with c ps @ c # d"
  by (induction ps rule: join_with.induct) (auto simp: neq_Nil_conv)

text \<open>A last element that is a proper name ends the cleaned path.\<close>

definition plain_name :: "string \<Rightarrow> bool" where
  "plain_name d \<longleftrightarrow> d \<noteq> '''' \<and> d \<noteq> ''.'' \<and> d \<noteq> ''..'' \<and> CHR ''/'' \<notin> set d"

lemma Clean_last:
  assumes "a \<noteq> ''''"
  obtains pre where "\<And>d. plain_name d \<Longrightarrow> Clean (a @ CHR ''/'' # d) = pre @ d"
    and "pre = [] \<or> last pre = CHR ''/''"
proof -
  let ?r = "hd a = CHR ''/''"
  let ?ps = "rev (foldl (path_push ?r) [] (split_on CHR ''/'' a))"
  have "Clean (a @ CHR ''/'' # d)
      = (if ?r then ''/'' else '''') @ (if ?ps = [] then '''' else join_with CHR ''/'' ?ps @ ''/'') @ d"
    if "plain_name d" for d
    using that assms by (auto simp: Clean_def Let_def plain_name_def split_on_last join_with_snoc)
  moreover have "(if ?r then ''/'' else '''') @ (if ?ps = [] then '''' else join_with CHR ''/'' ?ps @ ''/'') = []
      \<or> last ((if ?r then ''/'' else '''') @ (if ?ps = [] then '''' else join_with CHR ''/'' ?ps @ ''/'')) = CHR ''/''"
    by simp
  ultimately show ?thesis by (intro that [of "(if ?r then ''/'' else '''') @ (if ?ps = [] then '''' else join_with CHR ''/'' ?ps @ ''/'')"]) simp_all
qed

lemma plain_name_FormatUint [simp]: "plain_name (FormatUint n)"
proof -
  have "CHR ''.'' \<notin> set (FormatUint n)" "CHR ''/'' \<notin> set (FormatUint n)"
    using fmt_nat_digits [of "CHR ''.''" "unat n"] fmt_nat_digits [of "CHR ''/''" "unat n"]
    by (auto simp: FormatUint_def)
  moreover have "FormatUint n \<noteq> []" by (simp add: FormatUint_def)
  ultimately show ?thesis by (auto simp: plain_name_def)
qed

lemma filepath_Join_last_inject:
  assumes "plain_name d" "plain_name d'" "b \<noteq> ''''" and "filepath_Join [a, b, d] = filepath_Join [a, b, d']"
  shows "d = d'"
proof -
  let ?p = "if a = '''' then b else a @ CHR ''/'' # b"
  from assms(3) have "?p \<noteq> ''''" by simp
  then obtain pre where "\<And>d. plain_name d \<Longrightarrow> Clean (?p @ CHR ''/'' # d) = pre @ d"
    using Clean_last by blast
  with assms show ?thesis by (cases "a = ''''") (simp_all add: filepath_Join_def)
qed

lemma filepath_Join_name_inject:
  assumes "plain_name d" "plain_name d'" and "filepath_Join [a, d] = filepath_Join [a, d']"
  shows "d = d'"
proof (cases "a = ''''")
  case True
  have "Clean x = x" if "plain_name x" for x
  proof -
    from that have "hd x \<noteq> CHR ''/''" by (cases x) (auto simp: plain_name_def)
    with that show ?thesis by (auto simp: Clean_def plain_name_def Let_def)
  qed
  with True assms show ?thesis by (simp add: filepath_Join_def plain_name_def)
next
  case False
  then obtain pre where "\<And>d. plain_name d \<Longrightarrow> Clean (a @ CHR ''/'' # d) = pre @ d" using Clean_last by blast
  with False assms show ?thesis by (simp add: filepath_Join_def)
qed

text \<open>The last element of a path, and what it is in a joined path.\<close>

definition lastElem :: "string \<Rightarrow> string" where
  "lastElem p = rev (takeWhile (\<lambda>c. c \<noteq> CHR ''/'') (rev p))"

lemma lastElem_append:
  assumes "plain_name d" and "pre = [] \<or> last pre = CHR ''/''"
  shows "lastElem (pre @ d) = d"
proof -
  have nd: "\<forall>c \<in> set (rev d). c \<noteq> CHR ''/''" using assms(1) by (auto simp: plain_name_def)
  then have "takeWhile (\<lambda>c. c \<noteq> CHR ''/'') (rev d @ rev pre) = rev d @ takeWhile (\<lambda>c. c \<noteq> CHR ''/'') (rev pre)"
    by (intro takeWhile_append2) blast
  moreover have "takeWhile (\<lambda>c. c \<noteq> CHR ''/'') (rev pre) = []"
    using assms(2) by (cases pre rule: rev_cases) auto
  ultimately show ?thesis by (simp add: lastElem_def)
qed

lemma lastElem_Join:
  assumes "plain_name d"
  shows "lastElem (filepath_Join [a, d]) = d"
proof (cases "a = ''''")
  case True
  from assms have "hd d \<noteq> CHR ''/''" by (cases d) (auto simp: plain_name_def)
  with assms have "Clean d = d" by (auto simp: Clean_def plain_name_def Let_def)
  with True assms lastElem_append [OF assms, of "[]"] show ?thesis by (simp add: filepath_Join_def plain_name_def)
next
  case False
  then obtain pre where p: "\<And>d. plain_name d \<Longrightarrow> Clean (a @ CHR ''/'' # d) = pre @ d"
    and l: "pre = [] \<or> last pre = CHR ''/''" using Clean_last by blast
  from False p [OF assms] lastElem_append [OF assms l] show ?thesis by (simp add: filepath_Join_def)
qed

end
