(* ===== verification/Hash.thy ===== *)
theory Hash
  imports Prelude
begin

text \<open>
  Package \<open>hash\<close> (\<open>hash/hash.go\<close>): the Merkle node hash and the label hash of a round, each in
  two variants, one for the accelerated \<open>sha256.Digest\<close> and one for a generic hasher.
  SHA-256 itself is a third-party package and a parameter of the model.
\<close>

section \<open>The sha256 package\<close>

text \<open>
  \<open>sha_Digest\<close> is the digest of the written data; \<open>sha_Finish\<close> is what
  \<open>CheckSumInto\<close> leaves inside the hasher (unspecified, the callers always reset before the
  next write); \<open>sha_IsMinio\<close> says whether \<open>sha256.New()\<close> returns a \<open>*sha256.Digest\<close>.
\<close>

record sha256_api =
  sha_Digest :: "bytes \<Rightarrow> bytes"
  sha_Finish :: "bytes \<Rightarrow> bytes"
  sha_IsMinio :: bool

definition sha256_Size :: nat where
  [simp]: "sha256_Size = 32"

text \<open>The documented fact the code relies on: a digest has 32 bytes.\<close>

definition sha256_ok :: "sha256_api \<Rightarrow> bool" where
  "sha256_ok S \<longleftrightarrow> (\<forall>d. length (sha_Digest S d) = sha256_Size)"

text \<open>\<open>CheckSumInto\<close> overwrites the array it is given with the digest.\<close>

definition CheckSumInto :: "sha256_api \<Rightarrow> hasher \<Rightarrow> bytes \<Rightarrow> hasher \<times> bytes" where
  "CheckSumInto S h arr =
     (sha_Finish S h, sha_Digest S h @ drop (length (sha_Digest S h)) arr)"

section \<open>Merkle node hash\<close>

text \<open>
  The hidden state is the shared hasher. \<open>buf\<close> is the caller's buffer up to its capacity; the
  result of the accelerated variant is written into its first 32 bytes.
\<close>

definition genMerkleHashFuncMinio ::
  "sha256_api \<Rightarrow> bytes \<Rightarrow> hasher \<Rightarrow> bytes \<times> bytes \<times> bytes \<Rightarrow> hasher \<times> bytes" where
  "genMerkleHashFuncMinio S challenge h args =
     (case args of (buf, lChild, rChild) \<Rightarrow>
       let buf = (if length buf < sha256_Size then replicate sha256_Size 0 else take sha256_Size buf);
           h = hash_Reset h;
           h = hash_Write h challenge;
           h = hash_Write h lChild;
           h = hash_Write h rChild
       in CheckSumInto S h buf)"

definition genMerkleHashFuncGeneric ::
  "sha256_api \<Rightarrow> bytes \<Rightarrow> hasher \<Rightarrow> bytes \<times> bytes \<times> bytes \<Rightarrow> hasher \<times> bytes" where
  "genMerkleHashFuncGeneric S challenge h args =
     (case args of (buf, lChild, rChild) \<Rightarrow>
       let h = hash_Reset h;
           h = hash_Write h challenge;
           h = hash_Write h lChild;
           h = hash_Write h rChild
       in (h, hash_Sum (sha_Digest S) h (take 0 buf)))"

definition GenMerkleHashFunc ::
  "sha256_api \<Rightarrow> bytes \<Rightarrow> hasher \<Rightarrow> bytes \<times> bytes \<times> bytes \<Rightarrow> hasher \<times> bytes" where
  "GenMerkleHashFunc S challenge =
     (if sha_IsMinio S then genMerkleHashFuncMinio S challenge
      else genMerkleHashFuncGeneric S challenge)"

section \<open>Label hash\<close>

definition LabelHashNestingDepth :: nat where
  "LabelHashNestingDepth = 400"

text \<open>
  The hidden state is the hasher and the 32-byte array \<open>hashBuf\<close>. The loops run from
  \<open>i = 1\<close> while \<open>i < LabelHashNestingDepth\<close>.
\<close>

function labelLoopMinio :: "sha256_api \<Rightarrow> nat \<Rightarrow> hasher \<times> bytes \<Rightarrow> hasher \<times> bytes" where
  "labelLoopMinio S i st =
     (if i < LabelHashNestingDepth
      then (case st of (h, hashBuf) \<Rightarrow>
              labelLoopMinio S (Suc i) (CheckSumInto S (hash_Write (hash_Reset h) hashBuf) hashBuf))
      else st)"
  by pat_completeness auto
termination by (relation "measure (\<lambda>(S, i, st). LabelHashNestingDepth - i)") auto

definition genLabelHashFuncMinio ::
  "sha256_api \<Rightarrow> bytes \<Rightarrow> hasher \<times> bytes \<Rightarrow> bytes \<Rightarrow> (hasher \<times> bytes) \<times> bytes" where
  "genLabelHashFuncMinio S challenge st data =
     (case st of (h, hashBuf) \<Rightarrow>
       let h = hash_Reset h;
           h = hash_Write h challenge;
           h = hash_Write h data;
           st' = labelLoopMinio S 1 (CheckSumInto S h hashBuf)
       in (st', snd st'))"

text \<open>
  In the generic variant \<open>h.Sum(hashBuf[:0])\<close> and \<open>h.Sum(hash[:0])\<close> append the digest to an
  empty slice over the storage of \<open>hashBuf\<close>; the storage then holds the digest.
\<close>

function labelLoopGeneric :: "sha256_api \<Rightarrow> nat \<Rightarrow> hasher \<times> bytes \<Rightarrow> hasher \<times> bytes" where
  "labelLoopGeneric S i st =
     (if i < LabelHashNestingDepth
      then (case st of (h, hsh) \<Rightarrow>
              let h = hash_Write (hash_Reset h) hsh
              in labelLoopGeneric S (Suc i) (h, hash_Sum (sha_Digest S) h (take 0 hsh)))
      else st)"
  by pat_completeness auto
termination by (relation "measure (\<lambda>(S, i, st). LabelHashNestingDepth - i)") auto

definition genLabelHashFuncGeneric ::
  "sha256_api \<Rightarrow> bytes \<Rightarrow> hasher \<times> bytes \<Rightarrow> bytes \<Rightarrow> (hasher \<times> bytes) \<times> bytes" where
  "genLabelHashFuncGeneric S challenge st data =
     (case st of (h, hashBuf) \<Rightarrow>
       let h = hash_Reset h;
           h = hash_Write h challenge;
           h = hash_Write h data;
           st' = labelLoopGeneric S 1 (h, hash_Sum (sha_Digest S) h (take 0 hashBuf))
       in (st', snd st'))"

definition GenLabelHashFunc ::
  "sha256_api \<Rightarrow> bytes \<Rightarrow> hasher \<times> bytes \<Rightarrow> bytes \<Rightarrow> (hasher \<times> bytes) \<times> bytes" where
  "GenLabelHashFunc S challenge =
     (if sha_IsMinio S then genLabelHashFuncMinio S challenge
      else genLabelHashFuncGeneric S challenge)"

declare labelLoopMinio.simps [simp del] labelLoopGeneric.simps [simp del]

section \<open>Reference definitions\<close>

text \<open>What the two hash functions compute, without the shared state.\<close>

definition merkleHash :: "sha256_api \<Rightarrow> bytes \<Rightarrow> bytes \<times> bytes \<times> bytes \<Rightarrow> bytes" where
  "merkleHash S challenge args =
     (case args of (buf, lChild, rChild) \<Rightarrow> sha_Digest S (challenge @ lChild @ rChild))"

definition labelHash :: "sha256_api \<Rightarrow> bytes \<Rightarrow> bytes \<Rightarrow> bytes" where
  "labelHash S challenge data = (sha_Digest S ^^ LabelHashNestingDepth) (challenge @ data)"

section \<open>Lemmas\<close>

lemma CheckSumInto_digest:
  "sha256_ok S \<Longrightarrow> length arr = sha256_Size \<Longrightarrow>
   CheckSumInto S h arr = (sha_Finish S h, sha_Digest S h)"
  by (simp add: CheckSumInto_def sha256_ok_def)

lemma labelLoopGeneric_nest:
  "snd (labelLoopGeneric S i (h, x)) = (sha_Digest S ^^ (LabelHashNestingDepth - i)) x"
proof (induction "LabelHashNestingDepth - i" arbitrary: i h x)
  case 0
  then show ?case by (simp add: labelLoopGeneric.simps)
next
  case (Suc n)
  then have "i < LabelHashNestingDepth" and n: "n = LabelHashNestingDepth - Suc i" by simp_all
  then have "snd (labelLoopGeneric S i (h, x))
    = snd (labelLoopGeneric S (Suc i) (x, sha_Digest S x))"
    by (subst labelLoopGeneric.simps) (simp add: go_defs)
  also have "\<dots> = (sha_Digest S ^^ n) (sha_Digest S x)"
    using Suc(1) [OF n] n by simp
  finally show ?case by (simp add: Suc(2) [symmetric] funpow_swap1)
qed

lemma labelLoopMinio_nest:
  assumes "sha256_ok S"
  shows "length x = sha256_Size \<Longrightarrow>
    snd (labelLoopMinio S i (h, x)) = (sha_Digest S ^^ (LabelHashNestingDepth - i)) x"
proof (induction "LabelHashNestingDepth - i" arbitrary: i h x)
  case 0
  then show ?case by (simp add: labelLoopMinio.simps)
next
  case (Suc n)
  then have "i < LabelHashNestingDepth" and n: "n = LabelHashNestingDepth - Suc i" by simp_all
  then have "snd (labelLoopMinio S i (h, x))
    = snd (labelLoopMinio S (Suc i) (sha_Finish S x, sha_Digest S x))"
    using Suc(3) by (subst labelLoopMinio.simps) (simp add: go_defs CheckSumInto_digest [OF assms])
  also have "\<dots> = (sha_Digest S ^^ n) (sha_Digest S x)"
    using Suc(1) [OF n] n assms by (simp add: sha256_ok_def)
  finally show ?case by (simp add: Suc(2) [symmetric] funpow_swap1)
qed

lemma length_funpow_digest:
  "sha256_ok S \<Longrightarrow> length x = sha256_Size \<Longrightarrow> length ((sha_Digest S ^^ n) x) = sha256_Size"
  by (induction n) (auto simp: sha256_ok_def)

lemma labelHash_first:
  "labelHash S challenge data
   = (sha_Digest S ^^ (LabelHashNestingDepth - 1)) (sha_Digest S (challenge @ data))"
  by (simp add: labelHash_def LabelHashNestingDepth_def funpow_swap1 numeral_eq_Suc)

lemma length_labelHash: "sha256_ok S \<Longrightarrow> length (labelHash S challenge data) = sha256_Size"
  unfolding labelHash_first by (rule length_funpow_digest) (simp_all add: sha256_ok_def)

lemma genLabelHashFuncMinio_spec:
  assumes "sha256_ok S" and "length hashBuf = sha256_Size"
  shows "snd (genLabelHashFuncMinio S challenge (h, hashBuf) data) = labelHash S challenge data"
proof -
  have "length (sha_Digest S (challenge @ data)) = sha256_Size"
    using assms(1) by (simp add: sha256_ok_def)
  from labelLoopMinio_nest [OF assms(1) this] show ?thesis
    by (simp add: genLabelHashFuncMinio_def go_defs CheckSumInto_digest assms labelHash_first Let_def)
qed

lemma genLabelHashFuncGeneric_spec:
  "snd (genLabelHashFuncGeneric S challenge (h, hashBuf) data) = labelHash S challenge data"
  by (simp add: genLabelHashFuncGeneric_def go_defs labelLoopGeneric_nest labelHash_first Let_def)

lemma GenLabelHashFunc_call:
  assumes "sha256_ok S" and "length (snd st) = sha256_Size"
  shows "snd (GenLabelHashFunc S challenge st data) = labelHash S challenge data"
    and "snd (fst (GenLabelHashFunc S challenge st data)) = labelHash S challenge data"
proof -
  obtain h hb where st: "st = (h, hb)" by fastforce
  with assms show *: "snd (GenLabelHashFunc S challenge st data) = labelHash S challenge data"
    by (simp add: GenLabelHashFunc_def genLabelHashFuncMinio_spec genLabelHashFuncGeneric_spec)
  have "snd (fst (GenLabelHashFunc S challenge st data)) = snd (GenLabelHashFunc S challenge st data)"
    by (simp add: st GenLabelHashFunc_def genLabelHashFuncMinio_def genLabelHashFuncGeneric_def Let_def)
  with * show "snd (fst (GenLabelHashFunc S challenge st data)) = labelHash S challenge data"
    by simp
qed

lemma GenMerkleHashFunc_call:
  assumes "sha256_ok S"
  shows "snd (GenMerkleHashFunc S challenge h args) = merkleHash S challenge args"
  using assms
  by (cases args)
    (simp add: GenMerkleHashFunc_def genMerkleHashFuncMinio_def genMerkleHashFuncGeneric_def
      CheckSumInto_digest merkleHash_def go_defs Let_def)

section \<open>Both hash functions as closures\<close>

interpretation label_closure: go_closure
  "GenLabelHashFunc S challenge" "labelHash S challenge"
  "\<lambda>st. sha256_ok S \<and> length (snd st) = sha256_Size" "\<lambda>_. True" for S challenge
  by unfold_locales (auto simp: GenLabelHashFunc_call length_labelHash simp del: sha256_Size_def)

interpretation merkle_closure: go_closure
  "GenMerkleHashFunc S challenge" "merkleHash S challenge" "\<lambda>_. sha256_ok S" "\<lambda>_. True"
  for S challenge
  by unfold_locales (auto simp: GenMerkleHashFunc_call)

section \<open>A concrete hash\<close>

text \<open>A function with 32-byte results, to evaluate the model on concrete inputs.\<close>

definition demo_sha :: "bool \<Rightarrow> sha256_api" where
  "demo_sha minio =
     \<lparr>sha_Digest = (\<lambda>d. PutUint64_BE (foldl (\<lambda>a b. 31 * a + ucast b) 7 d) @ replicate 24 0),
      sha_Finish = (\<lambda>d. d), sha_IsMinio = minio\<rparr>"

lemma demo_sha_ok [simp]: "sha256_ok (demo_sha minio)"
  by (simp add: sha256_ok_def demo_sha_def codec_simps)

section \<open>Properties\<close>

text \<open>
  C12: Whatever calls were made before, and whichever variant the platform selects, each call
  of a label hash closure returns the 400-fold nested SHA-256 of the challenge followed by the
  data: neither the reused hasher nor the reused digest array leaks between calls.
\<close>

theorem label_hash_calls_stateless:
  assumes "sha256_ok S" and "length hashBuf = 32"
  shows "snd (run_calls (GenLabelHashFunc S challenge) (h, hashBuf) datas)
       = map (\<lambda>d. (sha_Digest S ^^ 400) (challenge @ d)) datas"
  using label_closure.calls_results [of S "(h, hashBuf)" datas challenge] assms
  by (simp add: list.pred_True labelHash_def LabelHashNestingDepth_def)

theorem label_hash_calls_stateless_witness:
  "sha256_ok (demo_sha True) \<and> length (replicate 32 (0 :: byte)) = 32 \<and>
   snd (run_calls (GenLabelHashFunc (demo_sha True) [7]) ([5], replicate 32 0) [[1], [2, 3]])
     = map (\<lambda>d. (sha_Digest (demo_sha True) ^^ 400) ([7] @ d)) [[1], [2, 3]]"
  by (intro conjI demo_sha_ok length_replicate label_hash_calls_stateless)

text \<open>
  The accelerated and the generic Merkle hash agree with SHA-256 of the challenge, the left
  child and the right child, for every buffer the caller passes (too small or not) and after any
  sequence of earlier calls.
\<close>

lemma merkle_hash_calls_stateless:
  assumes "sha256_ok S"
  shows "snd (run_calls (GenMerkleHashFunc S challenge) h calls)
       = map (\<lambda>(buf, l, r). sha_Digest S (challenge @ l @ r)) calls"
  using merkle_closure.calls_results [of S calls challenge h] assms
  by (simp add: list.pred_True merkleHash_def)

end
