(* ===== verification/Shared.thy ===== *)
theory Shared
  imports Hash "HOL-Library.While_Combinator"
begin

text \<open>
  Package \<open>shared\<close> (\<open>shared/shared.go\<close>): the Fiat-Shamir selection of leaf indices, the label
  function with its reused buffer, the Merkle proof and its SCALE codec, and the membership
  tree's node hash. The SCALE library and BLAKE3 are parameters.
\<close>

section \<open>Fiat-Shamir\<close>

definition T :: u8 where
  "T = 150"

text \<open>The index drawn in iteration \<open>i\<close>.\<close>

definition fs_id :: "sha256_api \<Rightarrow> bytes \<Rightarrow> u64 \<Rightarrow> u32 \<Rightarrow> u64" where
  "fs_id S challenge spaceSize i =
     (let hasher = hash_Reset [];
          hasher = hash_Write hasher challenge;
          hasher = hash_Write hasher (PutUint32_BE i);
          digest = hash_Sum (sha_Digest S) hasher []
      in Uint64_BE (take 8 digest) mod spaceSize)"

text \<open>
  The Go map \<open>map[uint64]bool\<close> only ever stores \<open>true\<close>, so it is the set of its keys. The loop
  has no bound of its own (\<open>i\<close> wraps around), so it is a \<open>while_option\<close>: \<open>None\<close> is a loop
  that never ends.
\<close>

definition FiatShamir :: "sha256_api \<Rightarrow> bytes \<Rightarrow> u64 \<Rightarrow> u8 \<Rightarrow> u64 set option" where
  "FiatShamir S challenge spaceSize securityParam =
     (if ucast securityParam > spaceSize
      then Some (set (map of_nat [0..<unat spaceSize]))
      else map_option fst
        (while_option (\<lambda>(ret, i). card ret < unat securityParam)
           (\<lambda>(ret, i). (insert (fs_id S challenge spaceSize i) ret, i + 1))
           ({}, 0)))"

section \<open>Labels\<close>

definition NodeSize :: nat where
  [simp]: "NodeSize = 32"

fun copySiblings :: "bytes \<Rightarrow> nat \<Rightarrow> bytes list \<Rightarrow> bytes \<times> nat" where
  "copySiblings buffer offset [] = (buffer, offset)"
| "copySiblings buffer offset (sibling # rest) =
     (let (buffer', copied) = go_copy buffer offset sibling
      in copySiblings buffer' (offset + copied) rest)"

text \<open>The hidden state of the closure is \<open>buffer\<close>; the argument is the label's id and its left siblings.\<close>

definition MakeLabelFunc ::
  "(bytes \<Rightarrow> bytes) \<Rightarrow> bytes \<Rightarrow> u64 \<times> bytes list \<Rightarrow> bytes \<times> bytes" where
  "MakeLabelFunc hash buffer args =
     (case args of (labelID, leftSiblings) \<Rightarrow>
       let size = 8 + length leftSiblings * NodeSize;
           buffer = (if length buffer < size then replicate size 0 else buffer);
           buffer = PutUint64_BE labelID @ drop 8 buffer;
           (buffer, offset) = copySiblings buffer 8 leftSiblings
       in (buffer, hash (take offset buffer)))"

section \<open>Membership tree node\<close>

definition HashMembershipTreeNode :: "(bytes \<Rightarrow> bytes) \<Rightarrow> bytes \<Rightarrow> bytes \<Rightarrow> bytes \<Rightarrow> bytes" where
  "HashMembershipTreeNode blake3 buf lChild rChild =
     (let hasher = [];
          hasher = hash_Write hasher [1];
          hasher = hash_Write hasher lChild;
          hasher = hash_Write hasher rChild
      in hash_Sum blake3 hasher buf)"

section \<open>Reference definitions\<close>

definition label_of :: "(bytes \<Rightarrow> bytes) \<Rightarrow> u64 \<times> bytes list \<Rightarrow> bytes" where
  "label_of hash args = (case args of (labelID, leftSiblings) \<Rightarrow>
     hash (PutUint64_BE labelID @ concat leftSiblings))"

definition nodes_ok :: "bytes list \<Rightarrow> bool" where
  "nodes_ok nodes \<longleftrightarrow> (\<forall>n \<in> set nodes. length n \<le> NodeSize)"

section \<open>Lemmas on labels\<close>

lemma copySiblings_fits:
  assumes "copySiblings buffer offset sibs = (buffer', offset')"
    and "offset + length (concat sibs) \<le> length buffer"
  shows "take offset' buffer' = take offset buffer @ concat sibs \<and> offset' = offset + length (concat sibs)
    \<and> length buffer' = length buffer"
  using assms
proof (induction sibs arbitrary: buffer offset)
  case (Cons s sibs)
  obtain b1 n where c: "go_copy buffer offset s = (b1, n)" by fastforce
  from Cons.prems(2) have fit: "offset + length s \<le> length buffer" by simp
  from go_copy_fits [OF fit] c have n: "n = length s" and
    t: "take (offset + length s) b1 = take offset buffer @ s" by simp_all
  from fit go_copy_length [of offset buffer s] c have l: "length b1 = length buffer" by simp
  from Cons.prems(1) c n have "copySiblings b1 (offset + length s) sibs = (buffer', offset')" by simp
  from Cons.IH [OF this] Cons.prems(2) l t show ?case by auto
qed simp

lemma length_concat_nodes: "nodes_ok ns \<Longrightarrow> length (concat ns) \<le> length ns * NodeSize"
  by (induction ns) (auto simp: nodes_ok_def)

lemma MakeLabelFunc_call:
  assumes "nodes_ok (snd args)"
  shows "snd (MakeLabelFunc hash buffer args) = label_of hash args"
proof -
  obtain i sibs where args: "args = (i, sibs)" by fastforce
  let ?b = "PutUint64_BE i @ drop 8 (if length buffer < 8 + length sibs * 32
    then replicate (8 + length sibs * 32) 0 else buffer)"
  obtain b' off where c: "copySiblings ?b 8 sibs = (b', off)" by fastforce
  have "8 + length (concat sibs) \<le> length ?b"
    using length_concat_nodes [of sibs] assms args by (auto simp: codec_simps)
  from copySiblings_fits [OF c this] have "take off b' = PutUint64_BE i @ concat sibs"
    by (auto simp: codec_simps)
  with c show ?thesis by (simp add: args MakeLabelFunc_def label_of_def Let_def)
qed

interpretation make_label: go_closure
  "MakeLabelFunc hash" "label_of hash" "\<lambda>_. True" "\<lambda>args. nodes_ok (snd args)" for hash
  by unfold_locales (simp_all add: MakeLabelFunc_call)

text \<open>The input of the label hash determines the leaf index.\<close>

lemma label_input_inject:
  "PutUint64_BE i @ xs = PutUint64_BE j @ ys \<longleftrightarrow> i = j \<and> xs = ys"
  by (metis PutUint64_BE_inject append_eq_append_conv put_be_encodings(1))

section \<open>Lemmas on Fiat-Shamir\<close>

text \<open>After \<open>k\<close> iterations the map holds the first \<open>k\<close> drawn indices.\<close>

lemma fs_iterate:
  "((\<lambda>(ret, i). (insert (f i) ret, i + 1)) ^^ k) ({}, 0 :: u32) = (f ` (of_nat ` {..<k}), of_nat k)"
  by (induction k) (auto simp: lessThan_Suc)

lemma u32_all: "of_nat ` {..<2 ^ 32 :: nat} = (UNIV :: u32 set)"
proof -
  have "(w :: u32) \<in> of_nat ` {..<2 ^ 32}" for w
    using unsigned_less [of w] by (intro image_eqI [of _ _ "unat w"]) simp_all
  then show ?thesis by blast
qed

lemma fs_loop_returns_iff:
  "(\<exists>r. while_option (\<lambda>(ret, i). card ret < t) (\<lambda>(ret, i). (insert (f i) ret, i + 1)) ({}, 0 :: u32)
      = Some r) \<longleftrightarrow> t \<le> card (range f)" (is "?L \<longleftrightarrow> ?R")
proof -
  have *: "?L \<longleftrightarrow> (\<exists>k. t \<le> card (f ` (of_nat ` {..<k})))"
    by (simp add: while_option_def fs_iterate not_less)
  have le: "card (f ` (of_nat ` {..<k})) \<le> card (range f)" for k :: nat
    by (intro card_mono) auto
  have eq: "card (f ` (of_nat ` {..<2 ^ 32 :: nat})) = card (range f)"
    by (simp only: u32_all)
  show ?thesis
  proof (unfold *, rule iffI)
    assume ?R
    then have "t \<le> card (f ` (of_nat ` {..<2 ^ 32 :: nat}))" by (simp only: eq)
    then show "\<exists>k. t \<le> card (f ` (of_nat ` {..<k}))" by blast
  qed (use le order_trans in blast)
qed

lemma fs_loop_result:
  assumes "while_option (\<lambda>(ret, i). card ret < t) (\<lambda>(ret, i). (insert (f i) ret, i + 1)) ({}, 0 :: u32)
      = Some (R, j)"
  shows "finite R \<and> card R = t \<and> R \<subseteq> range f"
proof -
  have "(\<lambda>(ret, i). finite ret \<and> card ret \<le> t \<and> ret \<subseteq> range f) (R, j)"
    by (rule while_option_rule [OF _ assms]) (auto simp: card_insert_if)
  with while_option_stop [OF assms] show ?thesis by auto
qed

lemma fs_id_less: "0 < n \<Longrightarrow> fs_id S c n i < n"
  by (simp add: fs_id_def Let_def word_mod_less_divisor)

lemma FiatShamir_result:
  assumes "FiatShamir S c n t = Some R"
  shows "finite R" and "R \<subseteq> {i. i < n}" and "card R = min (unat t) (unat n)"
proof -
  consider "ucast t > n" "R = set (map of_nat [0..<unat n])"
    | j where "ucast t \<le> n" "while_option (\<lambda>(ret, i). card ret < unat t)
        (\<lambda>(ret, i). (insert (fs_id S c n i) ret, i + 1)) ({}, 0) = Some (R, j)"
    using assms by (auto simp: FiatShamir_def split: if_splits)
  then have "finite R \<and> R \<subseteq> {i. i < n} \<and> card R = min (unat t) (unat n)"
  proof cases
    case 1
    from 1(2) have "R = {i. i < n}" by (simp only: of_nat_upto_unat)
    moreover from 1(1) have "unat n < unat t" by (simp add: word_less_nat_alt)
    ultimately show ?thesis by (simp add: card_words_below)
  next
    case 2
    from fs_loop_result [OF 2(2)] have R: "finite R" "card R = unat t" "R \<subseteq> range (fs_id S c n)"
      by simp_all
    have "R \<subseteq> {i. i < n}"
    proof (cases "n = 0")
      case True
      with 2(1) R have "R = {}" by (simp add: word_le_nat_alt)
      then show ?thesis by simp
    next
      case False
      with R(3) show ?thesis using fs_id_less [of n S c] by (auto simp: word_neq_0_conv)
    qed
    with 2(1) R show ?thesis by (simp add: word_le_nat_alt)
  qed
  then show "finite R" and "R \<subseteq> {i. i < n}" and "card R = min (unat t) (unat n)" by simp_all
qed

lemma FiatShamir_returns_iff:
  assumes "ucast t \<le> n"
  shows "(\<exists>R. FiatShamir S c n t = Some R) \<longleftrightarrow> unat t \<le> card (range (fs_id S c n))"
  using fs_loop_returns_iff [of "unat t" "fs_id S c n"] assms by (auto simp: FiatShamir_def)

section \<open>Properties\<close>

text \<open>
  C9: The Fiat-Shamir loop returns exactly when the hash can produce enough different indices.
  The 32-bit counter wraps around, so no iteration after the first \<open>2^32\<close> adds an index: the loop
  ends if and only if the drawn indices take at least \<open>securityParam\<close> different values.
\<close>

theorem fiat_shamir_terminates_iff:
  assumes "ucast securityParam \<le> spaceSize"
  shows "(\<exists>R. FiatShamir S challenge spaceSize securityParam = Some R) \<longleftrightarrow>
    unat securityParam \<le> card {fs_id S challenge spaceSize i | i. True}"
proof -
  have "{fs_id S challenge spaceSize i | i. True} = range (fs_id S challenge spaceSize)" by auto
  with FiatShamir_returns_iff [OF assms] show ?thesis by simp
qed

theorem fiat_shamir_terminates_iff_witness:
  "ucast (2 :: u8) \<le> (10 :: u64) \<and>
   ((\<exists>R. FiatShamir (demo_sha True) [1, 2] 10 2 = Some R) \<longleftrightarrow>
      unat (2 :: u8) \<le> card {fs_id (demo_sha True) [1, 2] 10 i | i. True})"
proof (rule conjI)
  show *: "ucast (2 :: u8) \<le> (10 :: u64)" by simp
  show "(\<exists>R. FiatShamir (demo_sha True) [1, 2] 10 2 = Some R) \<longleftrightarrow>
      unat (2 :: u8) \<le> card {fs_id (demo_sha True) [1, 2] 10 i | i. True}"
    by (rule fiat_shamir_terminates_iff [OF *])
qed

text \<open>
  The selected indices all lie inside the tree, and there are exactly as many of them as the
  security parameter asks for, or as many as there are leaves when the tree is smaller; an empty
  tree never divides by zero.
\<close>

lemma fiat_shamir_indices:
  assumes "FiatShamir S challenge spaceSize securityParam = Some R"
  shows "card R = min (unat securityParam) (unat spaceSize) \<and> (\<forall>i \<in> R. i < spaceSize)"
  using FiatShamir_result [OF assms] by auto

text \<open>
  C11: A label closure returns the hash of the big-endian leaf index followed by the left siblings,
  for every sequence of calls: growing and reusing the buffer never leaks bytes of an earlier
  label, and siblings of unequal length (absent layers are empty) are packed without gaps.
\<close>

theorem make_label_calls_stateless:
  assumes "\<forall>(labelID, siblings) \<in> set calls. \<forall>s \<in> set siblings. length s \<le> 32"
  shows "snd (run_calls (MakeLabelFunc hash) buffer calls)
       = map (\<lambda>(labelID, siblings). hash (PutUint64_BE labelID @ concat siblings)) calls"
proof -
  have "list_all (\<lambda>args. nodes_ok (snd args)) calls"
    using assms by (auto simp: list_all_iff nodes_ok_def)
  from make_label.calls_results [OF _ this] show ?thesis by (simp add: label_of_def)
qed

theorem make_label_calls_stateless_witness:
  "snd (run_calls (MakeLabelFunc (\<lambda>d. d)) [] [(5, [[1], [], [2]]), (6, [[3]])])
     = [[0, 0, 0, 0, 0, 0, 0, 5, 1, 2], [0, 0, 0, 0, 0, 0, 0, 6, 3]]"
  by (subst make_label_calls_stateless) (simp_all add: PutUint64_BE_bytes)

end
