(* ===== verification/Schedule.thy ===== *)
theory Schedule
  imports Prelude "HOL-Library.Signed_Division"
begin

text \<open>
  The round schedule of \<open>server/config.go\<close>: when a round starts and ends, and which round is open
  for registration at a point in time. The schedule is the interface \<open>roundConfig\<close> that the
  registration service is given; the locale \<open>round_schedule\<close> states what its clients rely on.
\<close>

section \<open>Package \<open>time\<close>\<close>

text \<open>
  A \<open>time.Duration\<close> is a signed 64-bit number of nanoseconds and wraps around. A \<open>time.Time\<close>
  is kept as a number of nanoseconds; its range of about 292 billion years is not modelled.
  \<open>Sub\<close> saturates at the ends of the range of durations.
\<close>

type_synonym duration = "64 word"
type_synonym gotime = int

definition duration_ns :: "int \<Rightarrow> duration" where
  "duration_ns n = word_of_int n"

definition Time_Add :: "gotime \<Rightarrow> duration \<Rightarrow> gotime" where
  "Time_Add t d = t + sint d"

definition Time_Sub :: "gotime \<Rightarrow> gotime \<Rightarrow> duration" where
  "Time_Sub t u = duration_ns (max (- (2 ^ 63)) (min (2 ^ 63 - 1) (t - u)))"

text \<open>The zero \<open>time.Time\<close> is the start of year 1.\<close>

definition zeroTime :: gotime where
  "zeroTime = - 62135596800 * 1000000000"

text \<open>Go's signed division truncates towards zero and panics when the divisor is zero.\<close>

definition int_div :: "64 word \<Rightarrow> 64 word \<Rightarrow> 64 word outcome" where
  "int_div a b = (if b = 0 then Panic else Ret (word_of_int (sint a sdiv sint b)))"

section \<open>\<open>RoundConfig\<close>\<close>

record RoundConfig =
  EpochDuration :: duration
  PhaseShift :: duration
  CycleGap :: duration

definition DefaultRoundConfig :: RoundConfig where
  "DefaultRoundConfig = \<lparr>EpochDuration = duration_ns (30 * 1000000000),
     PhaseShift = duration_ns (15 * 1000000000), CycleGap = duration_ns (10 * 1000000000)\<rparr>"

definition RoundStart :: "RoundConfig \<Rightarrow> gotime \<Rightarrow> uint \<Rightarrow> gotime" where
  "RoundStart c genesis epoch = Time_Add (Time_Add genesis (PhaseShift c)) (EpochDuration c * epoch)"

definition RoundEnd :: "RoundConfig \<Rightarrow> gotime \<Rightarrow> uint \<Rightarrow> gotime" where
  "RoundEnd c genesis epoch =
     Time_Add (Time_Add (RoundStart c genesis epoch) (EpochDuration c)) (- CycleGap c)"

definition RoundDuration :: "RoundConfig \<Rightarrow> duration" where
  "RoundDuration c = EpochDuration c - CycleGap c"

definition OpenRoundId :: "RoundConfig \<Rightarrow> gotime \<Rightarrow> gotime \<Rightarrow> uint outcome" where
  "OpenRoundId c genesis when =
     (let sinceGenesis = Time_Sub when genesis in
      if sinceGenesis <s PhaseShift c then Ret 0
      else case int_div (sinceGenesis - PhaseShift c) (EpochDuration c) of
             Panic \<Rightarrow> Panic
           | Ret q \<Rightarrow> Ret (q + 1))"

section \<open>What clients of a schedule rely on\<close>

text \<open>
  \<open>upto c e\<close> says that the schedule can be computed up to round \<open>e\<close> without overflow, and
  \<open>window c g w\<close> that the open round can be computed at time \<open>w\<close> for genesis \<open>g\<close>.
\<close>

locale round_schedule =
  fixes start :: "'c \<Rightarrow> gotime \<Rightarrow> uint \<Rightarrow> gotime"
    and open_id :: "'c \<Rightarrow> gotime \<Rightarrow> gotime \<Rightarrow> uint outcome"
    and upto :: "'c \<Rightarrow> uint \<Rightarrow> bool"
    and window :: "'c \<Rightarrow> gotime \<Rightarrow> gotime \<Rightarrow> bool"
  assumes upto_down: "upto c e' \<Longrightarrow> e \<le> e' \<Longrightarrow> upto c e"
    and start_less: "upto c e' \<Longrightarrow> e < e' \<Longrightarrow> start c g e < start c g e'"
    and open_total: "window c g w \<Longrightarrow> \<exists>e. open_id c g w = Ret e \<and> upto c e"
    and open_before: "window c g w \<Longrightarrow> open_id c g w = Ret e \<Longrightarrow> w < start c g e"
    and open_after: "window c g w \<Longrightarrow> open_id c g w = Ret e \<Longrightarrow> e \<noteq> 0 \<Longrightarrow> start c g (e - 1) \<le> w"
begin

lemma start_mono: "upto c e' \<Longrightarrow> e \<le> e' \<Longrightarrow> start c g e \<le> start c g e'"
  by (metis order_le_less start_less)

lemma start_before_pred:
  assumes "upto c k" and "e < k"
  shows "start c g e \<le> start c g (k - 1)"
proof (rule start_mono)
  show "e \<le> k - 1" using assms(2) by unat_arith
  have "k - 1 \<le> k" using assms(2) by unat_arith
  with assms(1) show "upto c (k - 1)" by (rule upto_down)
qed

text \<open>Only one round starts next, so the conditions on the open round determine it.\<close>

lemma open_unique:
  assumes "window c g w" and "upto c e" and "w < start c g e" and "e \<noteq> 0 \<Longrightarrow> start c g (e - 1) \<le> w"
  shows "open_id c g w = Ret e"
proof -
  obtain k where k: "open_id c g w = Ret k" "upto c k" using open_total [OF assms(1)] by blast
  have "\<not> e < k"
    using start_before_pred [OF k(2), of e g] open_after [OF assms(1) k(1)] assms(3) by fastforce
  moreover have "\<not> k < e"
    using start_before_pred [OF assms(2), of k g] assms(4) open_before [OF assms(1) k(1)] by fastforce
  ultimately show ?thesis using k(1) by simp
qed

text \<open>Time moves the open round forwards only.\<close>

lemma open_mono:
  assumes "window c g w" "window c g w'" "w \<le> w'" "open_id c g w = Ret e" "open_id c g w' = Ret e'"
  shows "e \<le> e'"
proof (rule ccontr)
  assume "\<not> e \<le> e'"
  then have less: "e' < e" and nz: "e \<noteq> 0" by unat_arith+
  have "upto c e" using open_total [OF assms(1)] assms(4) by simp
  from start_before_pred [OF this less, of g] open_after [OF assms(1,4) nz] open_before [OF assms(2,5)] assms(3)
  show False by simp
qed

end

section \<open>Arithmetic of durations\<close>

definition fits64 :: "int \<Rightarrow> bool" where
  "fits64 x \<longleftrightarrow> - (2 ^ 63) \<le> x \<and> x < 2 ^ 63"

lemma sint_word_of_int_fits: "fits64 x \<Longrightarrow> sint (word_of_int x :: 64 word) = x"
  by (simp add: fits64_def sint_sbintrunc' signed_take_bit_int_eq_self)

lemma fits64_sint [simp]: "fits64 (sint d)" for d :: "64 word"
  using sint_greater_eq [of d] sint_less [of d] by (simp add: fits64_def)

lemma sint_diff_fits: "fits64 (sint a - sint b) \<Longrightarrow> sint (a - b) = sint a - sint b" for a b :: "64 word"
  using sint_word_of_int_fits [of "sint a - sint b"] by simp

lemma sint_mult_epoch:
  fixes d :: duration and e :: uint
  assumes "fits64 (sint d * uint e)"
  shows "sint (d * e) = sint d * uint e"
  using sint_word_of_int_fits [OF assms] by simp

lemma sint_duration_ns: "fits64 n \<Longrightarrow> sint (duration_ns n) = n"
  by (simp add: duration_ns_def sint_word_of_int_fits)

lemma Time_Sub_exact: "fits64 (t - u) \<Longrightarrow> sint (Time_Sub t u) = t - u"
  by (simp add: Time_Sub_def fits64_def sint_duration_ns)

lemma sdiv_nonneg: "0 \<le> k \<Longrightarrow> 0 < l \<Longrightarrow> k sdiv l = k div l" for k l :: int
  by (cases "k = 0") (simp_all add: signed_divide_int_def)

lemma uint_succ_word_of_int:
  assumes "0 \<le> x" and "x < 2 ^ 63"
  shows "uint (word_of_int x + 1 :: 64 word) = x + 1"
proof -
  have "(word_of_int x + 1 :: 64 word) = word_of_int (x + 1)" by simp
  with assms show ?thesis by (simp only: uint_word_of_int_eq) (simp add: take_bit_int_eq_self)
qed

section \<open>The model's schedule\<close>

text \<open>The configurations, rounds and times at which no 64-bit operation of the schedule overflows.\<close>

definition schedule_upto :: "RoundConfig \<Rightarrow> uint \<Rightarrow> bool" where
  "schedule_upto c e \<longleftrightarrow> 0 < sint (EpochDuration c) \<and> sint (EpochDuration c) * uint e < 2 ^ 63"

definition schedule_window :: "RoundConfig \<Rightarrow> gotime \<Rightarrow> gotime \<Rightarrow> bool" where
  "schedule_window c genesis when \<longleftrightarrow> 0 < sint (EpochDuration c) \<and> 0 \<le> sint (PhaseShift c) \<and>
     - (2 ^ 63) \<le> when - genesis \<and> when - genesis + sint (EpochDuration c) < 2 ^ 63"

lemma RoundStart_exact:
  assumes "schedule_upto c e"
  shows "RoundStart c g e = g + sint (PhaseShift c) + sint (EpochDuration c) * uint e"
proof -
  from assms have "fits64 (sint (EpochDuration c) * uint e)"
    by (auto simp: schedule_upto_def fits64_def intro: order_trans [of _ 0])
  then show ?thesis by (simp add: RoundStart_def Time_Add_def sint_mult_epoch)
qed

lemma schedule_upto_down:
  assumes "schedule_upto c e'" and "e \<le> e'"
  shows "schedule_upto c e"
proof -
  from assms have "sint (EpochDuration c) * uint e \<le> sint (EpochDuration c) * uint e'"
    by (intro mult_left_mono) (simp_all add: schedule_upto_def word_le_def)
  with assms(1) show ?thesis unfolding schedule_upto_def by linarith
qed

lemma RoundStart_less:
  assumes "schedule_upto c e'" and "e < e'"
  shows "RoundStart c g e < RoundStart c g e'"
  using assms RoundStart_exact [OF assms(1)] RoundStart_exact [OF schedule_upto_down [OF assms(1) less_imp_le [OF assms(2)]]]
  by (simp add: schedule_upto_def word_less_def)

text \<open>Before the first round starts the open round is round 0.\<close>

lemma OpenRoundId_early:
  assumes "schedule_window c g w" and "w < g + sint (PhaseShift c)"
  shows "OpenRoundId c g w = Ret 0"
proof -
  from assms(1) have "sint (Time_Sub w g) = w - g"
    by (intro Time_Sub_exact) (simp add: schedule_window_def fits64_def)
  with assms(2) show ?thesis by (simp add: OpenRoundId_def word_sless_alt)
qed

text \<open>Afterwards it is one more than the number of whole epochs that have passed.\<close>

lemma OpenRoundId_late:
  assumes "schedule_window c g w" and "g + sint (PhaseShift c) \<le> w"
  obtains e where "OpenRoundId c g w = Ret e"
    and "uint e = (w - g - sint (PhaseShift c)) div sint (EpochDuration c) + 1"
proof -
  let ?E = "sint (EpochDuration c)" and ?P = "sint (PhaseShift c)"
  let ?x = "w - g - ?P" and ?e = "word_of_int ((w - g - ?P) div ?E) + 1 :: 64 word"
  from assms(1) have E: "0 < ?E" and since: "sint (Time_Sub w g) = w - g" and P: "0 \<le> ?P"
    by (simp_all add: Time_Sub_exact schedule_window_def fits64_def)
  from assms have x: "0 \<le> ?x" "?x < 2 ^ 63" by (simp_all add: schedule_window_def)
  then have diff: "sint (Time_Sub w g - PhaseShift c) = ?x"
    by (subst sint_diff_fits) (simp_all add: since fits64_def)
  have "int_div (Time_Sub w g - PhaseShift c) (EpochDuration c) = Ret (word_of_int (?x div ?E))"
    using E x by (auto simp: int_div_def diff sdiv_nonneg)
  then have 1: "OpenRoundId c g w = Ret ?e"
    using assms(2) by (simp add: OpenRoundId_def word_sless_alt since)
  have "0 \<le> ?x div ?E" "?x div ?E < 2 ^ 63"
    using x E zdiv_mono2 [of ?x 1 ?E] by (simp_all add: pos_imp_zdiv_nonneg_iff)
  then have "uint ?e = ?x div ?E + 1" by (rule uint_succ_word_of_int)
  with 1 show ?thesis by (rule that)
qed

lemma open_round_bounds:
  assumes "schedule_window c g w"
  shows "\<exists>e. OpenRoundId c g w = Ret e \<and> schedule_upto c e \<and> w < RoundStart c g e \<and>
    (e \<noteq> 0 \<longrightarrow> RoundStart c g (e - 1) \<le> w)"
proof (cases "w < g + sint (PhaseShift c)")
  case True
  moreover have upto: "schedule_upto c 0" using assms by (simp add: schedule_upto_def schedule_window_def)
  ultimately show ?thesis using OpenRoundId_early [OF assms True] RoundStart_exact [OF upto] by simp
next
  case False
  let ?E = "sint (EpochDuration c)" and ?x = "w - g - sint (PhaseShift c)"
  from False have late: "g + sint (PhaseShift c) \<le> w" by simp
  obtain e where e: "OpenRoundId c g w = Ret e" and ue: "uint e = ?x div ?E + 1"
    by (rule OpenRoundId_late [OF assms late])
  from assms have E: "0 < ?E" and P: "0 \<le> sint (PhaseShift c)" by (simp_all add: schedule_window_def)
  have split: "?E * (?x div ?E) + ?x mod ?E = ?x" and rem: "0 \<le> ?x mod ?E" "?x mod ?E < ?E" using E by simp_all
  have mult: "?E * uint e = ?E * (?x div ?E) + ?E" by (simp add: ue algebra_simps)
  have upto: "schedule_upto c e"
    using assms E P split rem unfolding schedule_upto_def schedule_window_def mult by linarith
  have "uint e \<noteq> 0" using ue False E pos_imp_zdiv_nonneg_iff [OF E, of ?x] by linarith
  then have nz: "e \<noteq> 0" by auto
  then have "1 \<le> e" by unat_arith
  then have pred: "uint (e - 1) = ?x div ?E" by (simp add: uint_minus_simple_alt [THEN iffD1] ue)
  have "schedule_upto c (e - 1)" using schedule_upto_down [OF upto, of "e - 1"] \<open>1 \<le> e\<close> by (simp add: word_sub_le)
  from RoundStart_exact [OF upto, of g] RoundStart_exact [OF this, of g] split rem
  have "w < RoundStart c g e" "RoundStart c g (e - 1) \<le> w" unfolding mult pred by linarith+
  with e upto show ?thesis by blast
qed

interpretation sched: round_schedule RoundStart OpenRoundId schedule_upto schedule_window
proof
  fix c g w e
  assume w: "schedule_window c g w"
  show "\<exists>e. OpenRoundId c g w = Ret e \<and> schedule_upto c e" using open_round_bounds [OF w] by blast
  assume o: "OpenRoundId c g w = Ret e"
  show "w < RoundStart c g e" using open_round_bounds [OF w] o by simp
  assume "e \<noteq> 0"
  then show "RoundStart c g (e - 1) \<le> w" using open_round_bounds [OF w] o by simp
qed (fact schedule_upto_down RoundStart_less)+

section \<open>Properties\<close>

text \<open>
  C19: The open round is the next one to start, and it is the only such round: at any time at which
  no duration overflows, \<open>OpenRoundId\<close> returns round \<open>e\<close> exactly when that time is before the start
  of \<open>e\<close> and not before the start of \<open>e - 1\<close> (round 0 is open from the beginning).
\<close>

theorem open_round_is_next_to_start:
  assumes "schedule_window c genesis when" and "schedule_upto c e"
  shows "OpenRoundId c genesis when = Ret e \<longleftrightarrow>
    when < RoundStart c genesis e \<and> (e = 0 \<or> RoundStart c genesis (e - 1) \<le> when)"
  using sched.open_before [OF assms(1)] sched.open_after [OF assms(1)] sched.open_unique [OF assms]
  by blast

theorem open_round_is_next_to_start_witness:
  "OpenRoundId DefaultRoundConfig 0 100000000000 = Ret 3 \<and>
   100000000000 < RoundStart DefaultRoundConfig 0 3 \<and> RoundStart DefaultRoundConfig 0 2 \<le> 100000000000"
proof -
  have 1: "schedule_window DefaultRoundConfig 0 100000000000"
    by (simp add: schedule_window_def DefaultRoundConfig_def duration_ns_def)
  have 2: "schedule_upto DefaultRoundConfig 3"
    by (simp add: schedule_upto_def DefaultRoundConfig_def duration_ns_def)
  have 3: "OpenRoundId DefaultRoundConfig 0 100000000000 = Ret 3"
    by (simp add: OpenRoundId_def DefaultRoundConfig_def duration_ns_def Time_Sub_def int_div_def word_sless_alt)
  then show ?thesis using open_round_is_next_to_start [OF 1 2] by simp
qed

text \<open>
  A round lasts \<open>RoundDuration\<close> and is over one cycle gap before the next round starts, so
  with a cycle gap that is not negative the executions of two rounds never overlap.
\<close>

lemma rounds_do_not_overlap:
  assumes "schedule_upto c (e + 1)" and "e + 1 \<noteq> 0"
    and "0 \<le> sint (CycleGap c)"
  shows "RoundEnd c genesis e = RoundStart c genesis e + sint (RoundDuration c) \<and>
    RoundEnd c genesis e = RoundStart c genesis (e + 1) - sint (CycleGap c) \<and>
    RoundEnd c genesis e \<le> RoundStart c genesis (e + 1)"
proof -
  from assms(1) have E: "0 < sint (EpochDuration c)" by (simp add: schedule_upto_def)
  have pred: "e \<le> e + 1" using assms(2) by unat_arith
  have succ: "uint (e + 1) = uint e + 1" using uint_plus_simple [OF pred] by simp
  have fits: "fits64 (- sint (CycleGap c))" "fits64 (sint (EpochDuration c) - sint (CycleGap c))"
    using E assms(3) fits64_sint [of "CycleGap c"] fits64_sint [of "EpochDuration c"]
    unfolding fits64_def by linarith+
  have neg: "sint (- CycleGap c) = - sint (CycleGap c)"
    using sint_diff_fits [of 0 "CycleGap c"] fits(1) by simp
  have "sint (RoundDuration c) = sint (EpochDuration c) - sint (CycleGap c)"
    using sint_diff_fits [OF fits(2)] by (simp add: RoundDuration_def)
  then show ?thesis
    using assms(3) RoundStart_exact [OF assms(1)] RoundStart_exact [OF schedule_upto_down [OF assms(1) pred]]
    by (simp add: RoundEnd_def Time_Add_def neg succ distrib_left)
qed

text \<open>
  A configuration with a zero epoch duration is not rejected anywhere: \<open>OpenRoundId\<close> then
  panics with a division by zero for every time that is not before the first round starts.
\<close>

lemma open_round_zero_epoch_panics:
  assumes "EpochDuration c = 0"
  shows "OpenRoundId c genesis when = Panic \<longleftrightarrow> \<not> Time_Sub when genesis <s PhaseShift c"
  using assms by (simp add: OpenRoundId_def int_div_def Let_def)

end
