(* ===== verification/Reg_Round.thy ===== *)
theory Reg_Round
  imports Leveldb Paths Shared Schedule
begin

text \<open>
  A registration round (\<open>registration/round.go\<close>): challenges are collected in a batch under their
  node ids, written to the round's database by a timed or forced flush, and hashed into the
  membership root. Every method that touches the batch holds the round's mutex for its whole body,
  so one method is one step; the inductive relation \<open>round_step\<close> interleaves them.
\<close>

section \<open>State\<close>

text \<open>
  The channel that a submission returns has capacity one. A round keeps the channels it has made
  in \<open>r_chans\<close>; a channel is identified by its position there.
\<close>

record gochan =
  chan_buf :: "goerr option list"
  chan_closed :: bool

record pendingSubmit =
  p_done :: nat
  p_challenge :: bytes

record 'h round =
  r_epoch :: uint
  r_db :: 'h
  r_maxMembers :: int
  r_members :: int
  r_batch :: kvs
  r_pendingSubmits :: "(bytes \<times> pendingSubmit) list"
  r_pendingFlush :: "duration option"
  r_flushInterval :: duration
  r_maxBatchSize :: int
  r_chans :: "gochan list"

record newRoundOptions =
  o_submitFlushInterval :: duration
  o_maxMembers :: int
  o_maxSubmitBatchSize :: int
  o_failIfNotExists :: bool

definition withMaxMembers :: "int \<Rightarrow> newRoundOptions \<Rightarrow> newRoundOptions" where
  "withMaxMembers n o1 = o1\<lparr>o_maxMembers := n\<rparr>"

definition withSubmitFlushInterval :: "duration \<Rightarrow> newRoundOptions \<Rightarrow> newRoundOptions" where
  "withSubmitFlushInterval d o1 = o1\<lparr>o_submitFlushInterval := d\<rparr>"

definition withMaxSubmitBatchSize :: "int \<Rightarrow> newRoundOptions \<Rightarrow> newRoundOptions" where
  "withMaxSubmitBatchSize n o1 = o1\<lparr>o_maxSubmitBatchSize := n\<rparr>"

definition failIfNotExists :: "newRoundOptions \<Rightarrow> newRoundOptions" where
  "failIfNotExists o1 = o1\<lparr>o_failIfNotExists := True\<rparr>"

definition defaultRoundOptions :: newRoundOptions where
  "defaultRoundOptions = \<lparr>o_submitFlushInterval = duration_ns 1000, o_maxMembers = 2 ^ 32,
     o_maxSubmitBatchSize = 1000, o_failIfNotExists = False\<rparr>"

section \<open>Operations\<close>

definition epochToRoundId :: "uint \<Rightarrow> string" where
  "epochToRoundId e = FormatUint e"

definition roundPath :: "string \<Rightarrow> uint \<Rightarrow> string" where
  "roundPath dbdir e = filepath_Join [dbdir, ''rounds'', epochToRoundId e]"

definition countMembersInDB :: "('w, 'h) leveldb_api \<Rightarrow> 'w \<Rightarrow> 'h \<Rightarrow> int" where
  "countMembersInDB L w h = foldl (\<lambda>count item. count + 1) 0 (fst (ldb_Items L w h))"

definition newRound ::
  "('w, 'h) leveldb_api \<Rightarrow> 'w \<Rightarrow> uint \<Rightarrow> string \<Rightarrow> (newRoundOptions \<Rightarrow> newRoundOptions) list
   \<Rightarrow> 'w \<times> (goerr + 'h round)" where
  "newRound L w e dbdir options =
     (let opts = foldl (\<lambda>os f. f os) defaultRoundOptions options
      in case ldb_OpenFile L w (roundPath dbdir e) (o_failIfNotExists opts) of
           (w', Inl err) \<Rightarrow> (w', Inl (Wrap ''failed to open round db'' err))
         | (w', Inr h) \<Rightarrow>
             (w', Inr \<lparr>r_epoch = e, r_db = h, r_maxMembers = o_maxMembers opts,
                       r_members = countMembersInDB L w' h, r_batch = [], r_pendingSubmits = [],
                       r_pendingFlush = None, r_flushInterval = o_submitFlushInterval opts,
                       r_maxBatchSize = o_maxSubmitBatchSize opts, r_chans = []\<rparr>))"

text \<open>Sending the result on a submission's channel and closing it.\<close>

definition chan_deliver :: "goerr option \<Rightarrow> gochan \<Rightarrow> gochan" where
  "chan_deliver res ch = ch\<lparr>chan_buf := chan_buf ch @ [res], chan_closed := True\<rparr>"

fun deliverAll :: "goerr option \<Rightarrow> gochan list \<Rightarrow> (bytes \<times> pendingSubmit) list \<Rightarrow> gochan list" where
  "deliverAll res chs [] = chs"
| "deliverAll res chs ((k, p) # ps) =
     deliverAll res (chs[p_done p := chan_deliver res (chs ! p_done p)]) ps"

definition flushPendingSubmitsLocked ::
  "('w, 'h) leveldb_api \<Rightarrow> 'w \<Rightarrow> 'h round \<Rightarrow> 'w \<times> 'h round" where
  "flushPendingSubmitsLocked L w r =
     (let r = r\<lparr>r_pendingFlush := None\<rparr> in
      if length (r_batch r) = 0 then (w, r)
      else let (w', err) = ldb_Write L w (r_db r) (r_batch r)
           in (w', r\<lparr>r_chans := deliverAll err (r_chans r) (r_pendingSubmits r),
                     r_members := r_members r + int (length (r_pendingSubmits r)),
                     r_pendingSubmits := [],
                     r_batch := []\<rparr>))"

definition flushPendingSubmits ::
  "('w, 'h) leveldb_api \<Rightarrow> 'w \<Rightarrow> 'h round \<Rightarrow> 'w \<times> 'h round" where
  "flushPendingSubmits L w r = flushPendingSubmitsLocked L w r"

definition timedFlushPendingSubmits ::
  "('w, 'h) leveldb_api \<Rightarrow> 'w \<Rightarrow> 'h round \<Rightarrow> 'w \<times> 'h round" where
  "timedFlushPendingSubmits L w r =
     (if r_pendingFlush r \<noteq> None then flushPendingSubmitsLocked L w r else (w, r))"

text \<open>The part of \<open>submit\<close> after all checks: the record joins the batch.\<close>

definition enqueue ::
  "('w, 'h) leveldb_api \<Rightarrow> 'w \<Rightarrow> 'h round \<Rightarrow> bytes \<Rightarrow> bytes \<Rightarrow> 'w \<times> 'h round \<times> (goerr + nat)" where
  "enqueue L w r key challenge =
     (let ch = length (r_chans r);
          r = r\<lparr>r_batch := r_batch r @ [(key, challenge)],
                r_chans := r_chans r @ [\<lparr>chan_buf = [], chan_closed = False\<rparr>],
                r_pendingSubmits := r_pendingSubmits r @ [(key, \<lparr>p_done = ch, p_challenge = challenge\<rparr>)]\<rparr>
      in if r_maxBatchSize r \<le> int (length (r_batch r)) then
           (case flushPendingSubmitsLocked L w r of (w', r') \<Rightarrow> (w', r', Inr ch))
         else if length (r_batch r) = 1 then
           (w, r\<lparr>r_pendingFlush := Some (r_flushInterval r)\<rparr>, Inr ch)
         else (w, r, Inr ch))"

definition submit ::
  "('w, 'h) leveldb_api \<Rightarrow> 'w \<Rightarrow> 'h round \<Rightarrow> bytes \<Rightarrow> bytes \<Rightarrow> 'w \<times> 'h round \<times> (goerr + nat)" where
  "submit L w r key challenge =
     (if r_maxMembers r \<le> r_members r + int (length (r_pendingSubmits r)) then
        (w, r, Inl ErrMaxMembersReached)
      else case map_of (r_pendingSubmits r) key of
        Some pending \<Rightarrow>
          if challenge = p_challenge pending then (w, r, Inl (Wrap ''key'' ErrChallengeAlreadySubmitted))
          else (w, r, Inl ErrConflictingRegistration)
      | None \<Rightarrow>
          (case ldb_Get L w (r_db r) key of
             Inl err \<Rightarrow>
               if errors_Is err ErrNotFound then enqueue L w r key challenge
               else (w, r, Inl (Wrap ''failed to check if challenge is registered'' err))
           | Inr registered \<Rightarrow>
               if challenge = registered then (w, r, Inl (Wrap ''key'' ErrChallengeAlreadySubmitted))
               else (w, r, Inl ErrConflictingRegistration)))"

text \<open>
  The membership tree is built by the third-party \<open>merkle-tree\<close> package without a cache; the hash
  function it is given appends to a buffer argument.
\<close>

record 't mtree_api =
  mt_Build :: "(bytes \<Rightarrow> bytes \<Rightarrow> bytes \<Rightarrow> bytes) \<Rightarrow> goerr + 't"
  mt_AddLeaf :: "'t \<Rightarrow> bytes \<Rightarrow> 't \<times> goerr option"
  mt_Root :: "'t \<Rightarrow> bytes"

fun addLeaves :: "'t mtree_api \<Rightarrow> 't \<Rightarrow> bytes list \<Rightarrow> goerr + 't" where
  "addLeaves MT t [] = Inr t"
| "addLeaves MT t (v # vs) =
     (case mt_AddLeaf MT t v of (t', None) \<Rightarrow> addLeaves MT t' vs | (t', Some err) \<Rightarrow> Inl err)"

definition calcMembershipRoot ::
  "('w, 'h) leveldb_api \<Rightarrow> 't mtree_api \<Rightarrow> (bytes \<Rightarrow> bytes) \<Rightarrow> 'w \<Rightarrow> 'h round \<Rightarrow> 'w \<times> 'h round \<times> (goerr + bytes)" where
  "calcMembershipRoot L MT blake3 w r =
     (case flushPendingSubmits L w r of (w', r') \<Rightarrow>
       (w', r',
        (case mt_Build MT (HashMembershipTreeNode blake3) of
           Inl err \<Rightarrow> Inl (Opaque ''failed to initialize merkle tree'')
         | Inr mtree \<Rightarrow>
             (case addLeaves MT mtree (map snd (fst (ldb_Items L w' (r_db r')))) of
                Inl err \<Rightarrow> Inl err
              | Inr mtree \<Rightarrow> Inr (mt_Root MT mtree)))))"

definition getMembers :: "('w, 'h) leveldb_api \<Rightarrow> 'w \<Rightarrow> 'h round \<Rightarrow> bytes list" where
  "getMembers L w r = foldl (\<lambda>ms item. ms @ [snd item]) [] (fst (ldb_Items L w (r_db r)))"

definition round_Close :: "('w, 'h) leveldb_api \<Rightarrow> 'w \<Rightarrow> 'h round \<Rightarrow> 'w \<times> 'h round \<times> goerr option" where
  "round_Close L w r =
     (case flushPendingSubmits L w r of (w', r') \<Rightarrow>
        (case ldb_Close L w' (r_db r') of
           (w'', None) \<Rightarrow> (w'', r', None)
         | (w'', Some err) \<Rightarrow> (w'', r', if errors_Is err ErrDbClosed then None else Some err)))"

section \<open>Interleavings\<close>

text \<open>
  The state carries a ghost list with the key and the challenge behind each channel. Other
  components may change the file system, but not the round's own database, which is locked while
  it is open.
\<close>

inductive round_step ::
  "('w, 'h) leveldb_api \<Rightarrow> 'w ldb_cont \<Rightarrow> ('w, 'h) ldb_path \<Rightarrow> string \<Rightarrow>
   'w \<times> 'h round \<times> kvs \<Rightarrow> 'w \<times> 'h round \<times> kvs \<Rightarrow> bool"
  for L cont path dbp where
  step_accepted: "submit L w r k c = (w', r', Inr ch) \<Longrightarrow>
     round_step L cont path dbp (w, r, subs) (w', r', subs @ [(k, c)])"
| step_rejected: "submit L w r k c = (w', r', Inl err) \<Longrightarrow>
     round_step L cont path dbp (w, r, subs) (w', r', subs)"
| step_timer: "timedFlushPendingSubmits L w r = (w', r') \<Longrightarrow>
     round_step L cont path dbp (w, r, subs) (w', r', subs)"
| step_flush: "flushPendingSubmits L w r = (w', r') \<Longrightarrow>
     round_step L cont path dbp (w, r, subs) (w', r', subs)"
| step_close: "round_Close L w r = (w', r', res) \<Longrightarrow>
     round_step L cont path dbp (w, r, subs) (w', r', subs)"
| step_other: "cont w' dbp = cont w dbp \<Longrightarrow> path w' (r_db r) = path w (r_db r) \<Longrightarrow>
     round_step L cont path dbp (w, r, subs) (w', r, subs)"

section \<open>Invariant\<close>

definition open_chan :: gochan where
  "open_chan = \<lparr>chan_buf = [], chan_closed = False\<rparr>"

definition settled_chan :: "goerr option \<Rightarrow> gochan" where
  "settled_chan res = \<lparr>chan_buf = [res], chan_closed = True\<rparr>"

definition pend_keys :: "'h round \<Rightarrow> bytes set" where
  "pend_keys r = fst ` set (r_pendingSubmits r)"

definition pend_dones :: "'h round \<Rightarrow> nat list" where
  "pend_dones r = map (p_done \<circ> snd) (r_pendingSubmits r)"

text \<open>The batch and the pending submissions agree, and every pending channel is open and empty.\<close>

definition pending_ok :: "'h round \<Rightarrow> bool" where
  "pending_ok r \<longleftrightarrow> r_batch r = map (\<lambda>(k, p). (k, p_challenge p)) (r_pendingSubmits r) \<and>
     distinct (map fst (r_pendingSubmits r)) \<and> distinct (pend_dones r) \<and>
     (\<forall>c \<in> set (pend_dones r). c < length (r_chans r) \<and> r_chans r ! c = open_chan)"

text \<open>
  A channel is either pending, or it holds exactly one result and is closed; a \<open>nil\<close> result means
  that the challenge is in the database under its key.
\<close>

definition chan_ok :: "(bytes \<rightharpoonup> bytes) \<Rightarrow> 'h round \<Rightarrow> bytes \<times> bytes \<Rightarrow> nat \<Rightarrow> bool" where
  "chan_ok m r sub c \<longleftrightarrow>
     (\<exists>p. (fst sub, p) \<in> set (r_pendingSubmits r) \<and> p_done p = c \<and> p_challenge p = snd sub) \<or>
     (\<exists>res. r_chans r ! c = settled_chan res \<and> (res = None \<longrightarrow> m (fst sub) = Some (snd sub)))"

definition db_ok :: "(bytes \<rightharpoonup> bytes) \<Rightarrow> 'h round \<Rightarrow> bool" where
  "db_ok m r \<longleftrightarrow> finite (dom m) \<and> pend_keys r \<inter> dom m = {} \<and> int (card (dom m)) \<le> r_members r"

definition chans_ok :: "(bytes \<rightharpoonup> bytes) \<Rightarrow> 'h round \<Rightarrow> kvs \<Rightarrow> bool" where
  "chans_ok m r subs \<longleftrightarrow> length subs = length (r_chans r) \<and> (\<forall>c < length subs. chan_ok m r (subs ! c) c)"

definition handle_ok :: "('w, 'h) ldb_path \<Rightarrow> string \<Rightarrow> 'w \<Rightarrow> 'h round \<Rightarrow> bool" where
  "handle_ok path dbp w r \<longleftrightarrow>
     path w (r_db r) = Some dbp \<or> path w (r_db r) = None \<and> r_pendingSubmits r = []"

definition cap_ok :: "int \<Rightarrow> 'h round \<Rightarrow> bool" where
  "cap_ok cap r \<longleftrightarrow> r_maxMembers r \<le> cap \<and> r_members r + int (length (r_pendingSubmits r)) \<le> cap"

definition timer_ok :: "'h round \<Rightarrow> bool" where
  "timer_ok r \<longleftrightarrow> (r_pendingSubmits r \<noteq> [] \<longrightarrow> r_pendingFlush r \<noteq> None)"

definition round_core ::
  "'w ldb_cont \<Rightarrow> ('w, 'h) ldb_path \<Rightarrow> string \<Rightarrow> int \<Rightarrow> 'w \<Rightarrow> 'h round \<Rightarrow> kvs \<Rightarrow> bool" where
  "round_core cont path dbp cap w r subs \<longleftrightarrow> pending_ok r \<and> handle_ok path dbp w r \<and> cap_ok cap r \<and>
     (\<exists>m. cont w dbp = Some m \<and> db_ok m r \<and> chans_ok m r subs)"

section \<open>Lemmas\<close>

lemma foldl_count [simp]: "foldl (\<lambda>n x. n + 1) (a :: int) xs = a + int (length xs)"
  by (induction xs arbitrary: a) simp_all

lemma foldl_snoc_map [simp]: "foldl (\<lambda>ms x. ms @ [f x]) a xs = a @ map f xs"
  by (induction xs arbitrary: a) simp_all

lemma deliverAll_length [simp]: "length (deliverAll res chs ps) = length chs"
  by (induction res chs ps rule: deliverAll.induct) simp_all

lemma deliverAll_other:
  "c \<notin> set (map (p_done \<circ> snd) ps) \<Longrightarrow> deliverAll res chs ps ! c = chs ! c"
  by (induction res chs ps rule: deliverAll.induct) simp_all

lemma deliverAll_pending:
  assumes "distinct (map (p_done \<circ> snd) ps)" and "c \<in> set (map (p_done \<circ> snd) ps)"
    and "c < length chs" and "chs ! c = open_chan"
  shows "deliverAll res chs ps ! c = settled_chan res"
  using assms
proof (induction res chs ps rule: deliverAll.induct)
  case (2 res chs k p ps)
  show ?case
  proof (cases "c = p_done p")
    case True
    with 2 show ?thesis
      by (simp add: deliverAll_other chan_deliver_def open_chan_def settled_chan_def)
  next
    case False
    with 2 show ?thesis by simp
  qed
qed simp

text \<open>Flushing an empty batch only disarms the timer; otherwise every channel is settled.\<close>

lemma flush_result:
  assumes "flushPendingSubmitsLocked L w r = (w', r')" and "pending_ok r"
  obtains (idle) "r_pendingSubmits r = []" and "w' = w" and "r' = r\<lparr>r_pendingFlush := None\<rparr>"
  | (written) err where "r_pendingSubmits r \<noteq> []" and "ldb_Write L w (r_db r) (r_batch r) = (w', err)"
      and "r' = r\<lparr>r_pendingFlush := None, r_chans := deliverAll err (r_chans r) (r_pendingSubmits r),
             r_members := r_members r + int (length (r_pendingSubmits r)),
             r_pendingSubmits := [], r_batch := []\<rparr>"
  using assms by (auto simp: flushPendingSubmitsLocked_def Let_def pending_ok_def split: if_splits prod.splits)

lemma flush_pending_empty:
  assumes "flushPendingSubmitsLocked L w r = (w', r')" and "pending_ok r"
  shows "r_pendingSubmits r' = []" and "r_db r' = r_db r"
  by (rule flush_result [OF assms], simp_all)+

lemma db_ok_flush:
  assumes "db_ok m r" and "pending_ok r" and "m' = apply_batch m (r_batch r) \<or> m' = m"
    and "r_members r' = r_members r + int (length (r_pendingSubmits r))" and "r_pendingSubmits r' = []"
  shows "db_ok m' r'"
proof -
  have keys: "fst ` set (r_batch r) = pend_keys r"
    using assms(2) by (force simp: pending_ok_def pend_keys_def)
  have "card (pend_keys r) = length (r_pendingSubmits r)"
    using assms(2) by (metis pending_ok_def pend_keys_def distinct_card length_map set_map)
  moreover have "card (dom m \<union> pend_keys r) = card (dom m) + card (pend_keys r)"
    using assms(1) by (intro card_Un_disjoint) (auto simp: db_ok_def pend_keys_def)
  moreover have "finite (pend_keys r)" by (simp add: pend_keys_def)
  ultimately show ?thesis
    using assms keys by (auto simp: db_ok_def pend_keys_def)
qed

lemma chans_ok_flush:
  assumes "chans_ok m r subs" and "pending_ok r" and "pend_keys r \<inter> dom m = {}"
    and "m' = apply_batch m (r_batch r) \<or> m' = m \<and> err \<noteq> None"
    and "r_chans r' = deliverAll err (r_chans r) (r_pendingSubmits r)" and "r_pendingSubmits r' = []"
  shows "chans_ok m' r' subs"
proof -
  have "chan_ok m' r' (subs ! c) c" if c: "c < length subs" for c
  proof (cases "c \<in> set (pend_dones r)")
    case True
    then have settled: "r_chans r' ! c = settled_chan err"
      using assms(2,5) by (simp add: pending_ok_def pend_dones_def deliverAll_pending del: set_map)
    from True assms(2) have "r_chans r ! c = open_chan" by (simp add: pending_ok_def)
    then obtain p where p: "(fst (subs ! c), p) \<in> set (r_pendingSubmits r)" "p_challenge p = snd (subs ! c)"
      using assms(1) c by (auto simp: chans_ok_def chan_ok_def open_chan_def settled_chan_def)
    then have "(fst (subs ! c), snd (subs ! c)) \<in> set (r_batch r)"
      using assms(2) by (force simp: pending_ok_def)
    moreover have "distinct (map fst (r_batch r))"
      using assms(2) by (simp add: pending_ok_def case_prod_unfold comp_def)
    ultimately have "apply_batch m (r_batch r) (fst (subs ! c)) = Some (snd (subs ! c))"
      by (rule apply_batch_mem [rotated])
    with settled assms(4) show ?thesis by (auto simp: chan_ok_def)
  next
    case False
    then have same: "r_chans r' ! c = r_chans r ! c"
      using assms(5) by (simp add: pend_dones_def deliverAll_other)
    have "p_done p \<noteq> c" if "(k, p) \<in> set (r_pendingSubmits r)" for k p
      using False that by (force simp: pend_dones_def)
    moreover from assms(1) c have "chan_ok m r (subs ! c) c" by (simp add: chans_ok_def)
    ultimately obtain res where res: "r_chans r ! c = settled_chan res"
      "res = None \<longrightarrow> m (fst (subs ! c)) = Some (snd (subs ! c))"
      unfolding chan_ok_def by blast
    have "m' k = Some v" if "m k = Some v" for k v
    proof -
      have "k \<notin> fst ` set (r_batch r)"
        using assms(2,3) that by (force simp: pending_ok_def pend_keys_def)
      with assms(4) that show ?thesis by (auto simp: apply_batch_other)
    qed
    with same res show ?thesis by (auto simp: chan_ok_def)
  qed
  with assms(1,5) show ?thesis by (simp add: chans_ok_def)
qed

text \<open>Each operation keeps the core invariant.\<close>

lemma flush_core:
  assumes L: "leveldb_contract L cont path" and inv: "round_core cont path dbp cap w r subs"
    and f: "flushPendingSubmitsLocked L w r = (w', r')"
  shows "round_core cont path dbp cap w' r' subs"
proof -
  from inv obtain m where m: "cont w dbp = Some m" "db_ok m r" "chans_ok m r subs"
    and p: "pending_ok r" "handle_ok path dbp w r" "cap_ok cap r" by (auto simp: round_core_def)
  from f p(1) show ?thesis
  proof (cases rule: flush_result)
    case idle
    then have "db_ok m r'" "chans_ok m r' subs" "pending_ok r'" "handle_ok path dbp w' r'" "cap_ok cap r'"
      using m p by (simp_all add: db_ok_def chans_ok_def chan_ok_def pending_ok_def handle_ok_def cap_ok_def
          pend_keys_def pend_dones_def)
    moreover have "cont w' dbp = Some m" using m(1) idle(2) by simp
    ultimately show ?thesis unfolding round_core_def by blast
  next
    case (written err)
    with p(2) have h: "path w (r_db r) = Some dbp" by (simp add: handle_ok_def)
    note wr = contract_write [OF L h m(1) written(2)]
    then obtain m' where m': "cont w' dbp = Some m'" "m' = apply_batch m (r_batch r) \<or> m' = m \<and> err \<noteq> None"
      by blast
    have keys: "pend_keys r \<inter> dom m = {}" using m(2) by (simp add: db_ok_def)
    have r': "r_members r' = r_members r + int (length (r_pendingSubmits r))" "r_pendingSubmits r' = []"
      "r_chans r' = deliverAll err (r_chans r) (r_pendingSubmits r)"
      using written(3) by simp_all
    have "db_ok m' r'" using db_ok_flush [OF m(2) p(1) _ r'(1,2)] m'(2) by blast
    moreover have "chans_ok m' r' subs" by (rule chans_ok_flush [OF m(3) p(1) keys m'(2) r'(3,2)])
    moreover have "pending_ok r'" "handle_ok path dbp w' r'" "cap_ok cap r'"
      using written(3) wr(1) h p(3) by (simp_all add: pending_ok_def pend_dones_def handle_ok_def cap_ok_def)
    ultimately show ?thesis using m'(1) by (auto simp: round_core_def)
  qed
qed

text \<open>The round with a record added to the batch, before any flush.\<close>

definition with_pending :: "'h round \<Rightarrow> bytes \<Rightarrow> bytes \<Rightarrow> 'h round" where
  "with_pending r key challenge = r\<lparr>r_batch := r_batch r @ [(key, challenge)],
     r_chans := r_chans r @ [open_chan],
     r_pendingSubmits := r_pendingSubmits r @ [(key, \<lparr>p_done = length (r_chans r), p_challenge = challenge\<rparr>)]\<rparr>"

lemma with_pending_core:
  assumes inv: "round_core cont path dbp cap w r subs" and opn: "path w (r_db r) = Some dbp"
    and m: "cont w dbp = Some m" and k: "key \<notin> pend_keys r" "m key = None"
    and room: "r_members r + int (length (r_pendingSubmits r)) < r_maxMembers r"
  shows "round_core cont path dbp cap w (with_pending r key c) (subs @ [(key, c)])"
proof -
  let ?r = "with_pending r key c"
  from inv m have i: "pending_ok r" "cap_ok cap r" "db_ok m r" "chans_ok m r subs" by (auto simp: round_core_def)
  have "pending_ok ?r"
    using i(1) k(1) by (fastforce simp: pending_ok_def with_pending_def pend_keys_def pend_dones_def nth_append)
  moreover have "db_ok m ?r"
    using i(3) k(2) by (auto simp: db_ok_def with_pending_def pend_keys_def)
  moreover have "chan_ok m ?r ((subs @ [(key, c)]) ! j) j" if "j < length (subs @ [(key, c)])" for j
  proof (cases "j < length subs")
    case True
    with i(4) have "chan_ok m r (subs ! j) j" "j < length (r_chans r)" by (simp_all add: chans_ok_def)
    with True show ?thesis by (fastforce simp: chan_ok_def with_pending_def nth_append)
  next
    case False
    with that have j: "j = length subs" "j = length (r_chans r)" using i(4) by (simp_all add: chans_ok_def)
    have "(key, \<lparr>p_done = length (r_chans r), p_challenge = c\<rparr>) \<in> set (r_pendingSubmits ?r)"
      by (simp add: with_pending_def)
    moreover have "(subs @ [(key, c)]) ! j = (key, c)" using j(1) by simp
    ultimately show ?thesis using j(2) by (force simp: chan_ok_def)
  qed
  moreover have "length (subs @ [(key, c)]) = length (r_chans ?r)"
    using i(4) by (simp add: chans_ok_def with_pending_def)
  moreover have "handle_ok path dbp w ?r" using opn by (simp add: handle_ok_def with_pending_def)
  moreover have "cap_ok cap ?r" using i(2) room by (simp add: cap_ok_def with_pending_def)
  ultimately show ?thesis using m unfolding round_core_def chans_ok_def by blast
qed

lemma enqueue_cases:
  assumes "enqueue L w r key c = (w', r', res)"
  obtains (full) "flushPendingSubmitsLocked L w (with_pending r key c) = (w', r')"
  | (first) "w' = w" "r' = (with_pending r key c)\<lparr>r_pendingFlush := Some (r_flushInterval r)\<rparr>"
  | (later) "w' = w" "r' = with_pending r key c" "r_batch r \<noteq> []"
  using assms
  by (auto simp: enqueue_def with_pending_def open_chan_def Let_def split: if_splits prod.splits)

lemma enqueue_result: "enqueue L w r key c = (w', r', res) \<Longrightarrow> res = Inr (length (r_chans r))"
  by (auto simp: enqueue_def Let_def split: if_splits prod.splits)

lemma enqueue_core:
  assumes L: "leveldb_contract L cont path" and e: "enqueue L w r key c = (w', r', res)"
    and core: "round_core cont path dbp cap w (with_pending r key c) subs"
    and old: "pending_ok r" "timer_ok r"
  shows "round_core cont path dbp cap w' r' subs" and "timer_ok r'"
proof -
  from core have p: "pending_ok (with_pending r key c)" by (simp add: round_core_def)
  have "round_core cont path dbp cap w' r' subs \<and> timer_ok r'"
    using e
  proof (cases rule: enqueue_cases)
    case full
    then show ?thesis using flush_core [OF L core full] flush_pending_empty [OF full p] by (simp add: timer_ok_def)
  next
    case first
    with core show ?thesis
      by (simp add: timer_ok_def round_core_def pending_ok_def handle_ok_def cap_ok_def db_ok_def chans_ok_def
          chan_ok_def pend_keys_def pend_dones_def)
  next
    case later
    with core old show ?thesis by (simp add: timer_ok_def pending_ok_def with_pending_def)
  qed
  then show "round_core cont path dbp cap w' r' subs" and "timer_ok r'" by simp_all
qed

lemma submit_rejected_unchanged: "submit L w r key c = (w', r', Inl err) \<Longrightarrow> w' = w \<and> r' = r"
  by (auto simp: submit_def dest: enqueue_result split: if_splits option.splits sum.splits)

lemma submit_accepted:
  assumes "submit L w r key c = (w', r', Inr ch)"
  obtains err where "r_members r + int (length (r_pendingSubmits r)) < r_maxMembers r"
    and "key \<notin> pend_keys r" and "ldb_Get L w (r_db r) key = Inl err" and "errors_Is err ErrNotFound"
    and "enqueue L w r key c = (w', r', Inr ch)"
  using assms
  by (auto simp: submit_def map_of_eq_None_iff pend_keys_def split: if_splits option.splits sum.splits)

lemma submit_core:
  assumes L: "leveldb_contract L cont path" and inv: "round_core cont path dbp cap w r subs" "timer_ok r"
    and s: "submit L w r key c = (w', r', Inr ch)"
  shows "round_core cont path dbp cap w' r' (subs @ [(key, c)])" and "timer_ok r'"
proof -
  from s obtain err where a: "r_members r + int (length (r_pendingSubmits r)) < r_maxMembers r"
    "key \<notin> pend_keys r" "ldb_Get L w (r_db r) key = Inl err" "errors_Is err ErrNotFound"
    "enqueue L w r key c = (w', r', Inr ch)" by (rule submit_accepted)
  from inv(1) obtain m where m: "cont w dbp = Some m" and p: "pending_ok r" and h: "handle_ok path dbp w r"
    by (auto simp: round_core_def)
  have opn: "path w (r_db r) = Some dbp"
    using h a(3,4) contract_closed(3) [OF L, of w "r_db r" key] by (auto simp: handle_ok_def)
  have "m key = None" by (rule contract_get(2) [OF L opn m a(3,4)])
  from with_pending_core [OF inv(1) opn m a(2) this a(1)]
  show "round_core cont path dbp cap w' r' (subs @ [(key, c)])" and "timer_ok r'"
    using enqueue_core [OF L a(5) _ p inv(2)] by blast+
qed

lemma close_core:
  assumes L: "leveldb_contract L cont path" and inv: "round_core cont path dbp cap w r subs"
    and c: "round_Close L w r = (w', r', res)"
  shows "round_core cont path dbp cap w' r' subs" and "r_pendingSubmits r' = []" and "path w' (r_db r') = None"
proof -
  obtain w1 where f: "flushPendingSubmitsLocked L w r = (w1, r')" and cl: "fst (ldb_Close L w1 (r_db r')) = w'"
    using c by (auto simp: round_Close_def flushPendingSubmits_def split: prod.splits option.splits)
  have p: "pending_ok r" using inv by (simp add: round_core_def)
  note core = flush_core [OF L inv f] and none = flush_pending_empty [OF f p]
  have "cont w' = cont w1 \<and> path w' (r_db r') = None"
  proof (cases "path w1 (r_db r')")
    case None
    then show ?thesis using cl contract_closed(2) [OF L None] by auto
  next
    case (Some q)
    obtain e where "ldb_Close L w1 (r_db r') = (w', e)" using cl by (metis prod.collapse)
    from contract_close [OF L Some this] show ?thesis by simp
  qed
  then show "round_core cont path dbp cap w' r' subs" and "r_pendingSubmits r' = []" and "path w' (r_db r') = None"
    using core none by (simp_all add: round_core_def handle_ok_def)
qed

lemma round_step_inv:
  assumes "round_step L cont path dbp s s'" and L: "leveldb_contract L cont path"
    and "case s of (w, r, subs) \<Rightarrow> round_core cont path dbp cap w r subs \<and> timer_ok r"
  shows "case s' of (w, r, subs) \<Rightarrow> round_core cont path dbp cap w r subs \<and> timer_ok r"
  using assms(1,3)
proof (cases rule: round_step.cases)
  case (step_accepted w r k c w' r' ch subs)
  then have i: "round_core cont path dbp cap w r subs" "timer_ok r" using assms(3) by simp_all
  show ?thesis using submit_core [OF L i step_accepted(3)] step_accepted(2) by simp
next
  case (step_rejected w r k c w' r' err subs)
  then show ?thesis using submit_rejected_unchanged [OF step_rejected(3)] assms(3) by simp
next
  case (step_timer w r w' r' subs)
  then have inv: "round_core cont path dbp cap w r subs" "timer_ok r" using assms(3) by simp_all
  then have "pending_ok r" by (simp add: round_core_def)
  then show ?thesis
    using step_timer inv flush_core [OF L inv(1)] flush_pending_empty [of L w r w' r']
    by (cases "r_pendingFlush r") (simp_all add: timedFlushPendingSubmits_def timer_ok_def)
next
  case (step_flush w r w' r' subs)
  then have inv: "round_core cont path dbp cap w r subs" and "pending_ok r" and f: "flushPendingSubmitsLocked L w r = (w', r')"
    using assms(3) by (simp_all add: round_core_def flushPendingSubmits_def)
  then show ?thesis
    using step_flush flush_core [OF L inv f] flush_pending_empty [OF f] by (simp add: timer_ok_def)
next
  case (step_close w r w' r' res subs)
  then have inv: "round_core cont path dbp cap w r subs" using assms(3) by simp
  then show ?thesis using close_core [OF L inv step_close(3)] step_close(2) by (simp add: timer_ok_def)
next
  case (step_other w' w r subs)
  then show ?thesis using assms(3) by (simp add: round_core_def handle_ok_def)
qed

lemma newRound_ok:
  assumes L: "leveldb_contract L cont path" and n: "newRound L w e dbdir options = (w', Inr r)"
    and i: "snd (ldb_Items L w' (r_db r)) = None"
  shows "round_core cont path (roundPath dbdir e) (max (r_maxMembers r) (r_members r)) w' r [] \<and> timer_ok r \<and>
    r_members r = int (card (dom (case cont w (roundPath dbdir e) of None \<Rightarrow> Map.empty | Some m \<Rightarrow> m)))"
proof -
  let ?p = "roundPath dbdir e" and ?m = "case cont w (roundPath dbdir e) of None \<Rightarrow> Map.empty | Some m \<Rightarrow> m"
  obtain b where o: "ldb_OpenFile L w ?p b = (w', Inr (r_db r))"
    using n by (auto simp: newRound_def Let_def split: prod.splits sum.splits)
  have r: "r_members r = countMembersInDB L w' (r_db r)" "r_pendingSubmits r = []" "r_batch r = []" "r_chans r = []"
    using n by (auto simp: newRound_def Let_def split: prod.splits sum.splits)
  note h = contract_open [OF L o]
  obtain its where its: "ldb_Items L w' (r_db r) = (its, None)" using i by (metis prod.collapse)
  note it = contract_items [OF L h(1,3) its]
  have "card (dom ?m) = length its"
    using it(2) distinct_card [OF it(2)] dom_map_of_conv_image_fst [of its] it(3) by simp
  moreover have "finite (dom ?m)" using it(3) finite_dom_map_of by metis
  ultimately show ?thesis
    using r h its by (simp add: round_core_def pending_ok_def pend_dones_def handle_ok_def cap_ok_def db_ok_def
        chans_ok_def pend_keys_def timer_ok_def countMembersInDB_def)
qed

definition round_inv ::
  "('w, 'h) leveldb_api \<Rightarrow> 'w ldb_cont \<Rightarrow> ('w, 'h) ldb_path \<Rightarrow> string \<Rightarrow> int \<Rightarrow> 'w \<times> 'h round \<times> kvs \<Rightarrow> bool" where
  "round_inv L cont path dbp cap s \<longleftrightarrow> leveldb_contract L cont path \<and>
     (case s of (w, r, subs) \<Rightarrow> round_core cont path dbp cap w r subs \<and> timer_ok r)"

interpretation rounds: step_system "round_step L cont path dbp" "round_inv L cont path dbp cap"
  for L cont path dbp cap
proof
  fix s s' assume "round_inv L cont path dbp cap s" and "round_step L cont path dbp s s'"
  then show "round_inv L cont path dbp cap s'"
    using round_step_inv [of L cont path dbp s s' cap] by (simp add: round_inv_def)
qed

text \<open>What holds in every state a round can get into after it was opened.\<close>

lemma round_reachable:
  assumes L: "leveldb_contract L cont path" and n: "newRound L w0 e dbdir options = (w1, Inr r0)"
    and i: "snd (ldb_Items L w1 (r_db r0)) = None"
    and reach: "(round_step L cont path (roundPath dbdir e))\<^sup>*\<^sup>* (w1, r0, []) (w, r, subs)"
  shows "round_core cont path (roundPath dbdir e) (max (r_maxMembers r0) (r_members r0)) w r subs" "timer_ok r"
proof -
  let ?cap = "max (r_maxMembers r0) (r_members r0)"
  have "round_inv L cont path (roundPath dbdir e) ?cap (w1, r0, [])"
    using newRound_ok [OF L n i] L unfolding round_inv_def prod.case by blast
  from rounds.reachable_inv [OF reach this]
  show "round_core cont path (roundPath dbdir e) ?cap w r subs" "timer_ok r" by (simp_all add: round_inv_def)
qed

text \<open>Later submissions get channels of their own.\<close>

lemma round_steps_extend:
  assumes "(round_step L cont path dbp)\<^sup>*\<^sup>* (w, r, subs) (w', r', subs')"
  shows "\<exists>more. subs' = subs @ more"
proof -
  have "\<exists>more. snd (snd t) = snd (snd u) @ more" if "(round_step L cont path dbp)\<^sup>*\<^sup>* u t" for u t
    using that by (induction rule: rtranclp_induct) (auto elim!: round_step.cases)
  from this [OF assms] show ?thesis by simp
qed

lemma pending_chan_open:
  assumes "pending_ok r" and "(k, p) \<in> set (r_pendingSubmits r)"
  shows "r_chans r ! p_done p = open_chan" and "p_done p \<in> set (pend_dones r)"
proof -
  show "p_done p \<in> set (pend_dones r)" using assms(2) by (force simp: pend_dones_def)
  with assms(1) show "r_chans r ! p_done p = open_chan" by (simp add: pending_ok_def)
qed

lemma core_chan:
  assumes "round_core cont path dbp cap w r subs" and "c < length subs"
  obtains m where "cont w dbp = Some m" and "pending_ok r" and "chan_ok m r (subs ! c) c"
  using assms by (auto simp: round_core_def chans_ok_def)

lemma settled_is_stored:
  assumes "round_core cont path dbp cap w r subs" and "c < length subs" and "r_chans r ! c = settled_chan None"
  shows "\<exists>m. cont w dbp = Some m \<and> finite (dom m) \<and> m (fst (subs ! c)) = Some (snd (subs ! c))"
proof -
  obtain m where m: "cont w dbp = Some m" "pending_ok r" "chan_ok m r (subs ! c) c"
    by (rule core_chan [OF assms(1,2)])
  moreover have "finite (dom m)" using assms(1) m(1) by (auto simp: round_core_def db_ok_def)
  ultimately show ?thesis using assms(3) pending_chan_open(1) [OF m(2)]
    by (fastforce simp: chan_ok_def open_chan_def settled_chan_def)
qed

text \<open>A result stays in its channel.\<close>

lemma flush_keeps_settled:
  assumes "flushPendingSubmitsLocked L w r = (w', r')" and "pending_ok r" and "r_chans r ! c = settled_chan res"
  shows "r_chans r' ! c = settled_chan res"
  using assms(1,2)
proof (cases rule: flush_result)
  case (written err)
  have "c \<notin> set (map (p_done \<circ> snd) (r_pendingSubmits r))"
    using assms(3) pending_chan_open(1) [OF assms(2)] by (auto simp: open_chan_def settled_chan_def)
  with written assms(3) show ?thesis by (simp add: deliverAll_other)
qed (simp add: assms(3))

section \<open>The membership tree\<close>

text \<open>
  What the code relies on: a new tree is empty, adding appends a leaf, and the root is a function
  of the leaves.
\<close>

definition mtree_ok ::
  "'t mtree_api \<Rightarrow> (bytes \<Rightarrow> bytes \<Rightarrow> bytes \<Rightarrow> bytes) \<Rightarrow> ('t \<Rightarrow> bytes list) \<Rightarrow> (bytes list \<Rightarrow> bytes) \<Rightarrow> bool" where
  "mtree_ok MT h leaves rootf \<longleftrightarrow> (\<forall>t. mt_Build MT h = Inr t \<longrightarrow> leaves t = []) \<and>
     (\<forall>t l t'. mt_AddLeaf MT t l = (t', None) \<longrightarrow> leaves t' = leaves t @ [l]) \<and>
     (\<forall>t. mt_Root MT t = rootf (leaves t))"

text \<open>The challenges of a database in the order of their keys.\<close>

definition ordered_members :: "(bytes \<rightharpoonup> bytes) \<Rightarrow> bytes list" where
  "ordered_members m = map (\<lambda>k. the (m k)) (sorted_list_of_set (dom m))"

lemma addLeaves_leaves:
  assumes "mtree_ok MT h leaves rootf"
  shows "addLeaves MT t vs = Inr t' \<Longrightarrow> leaves t' = leaves t @ vs"
proof (induction vs arbitrary: t)
  case (Cons v vs)
  then obtain t1 where "mt_AddLeaf MT t v = (t1, None)" "addLeaves MT t1 vs = Inr t'"
    by (auto split: prod.splits option.splits)
  moreover from this have "leaves t1 = leaves t @ [v]" using assms unfolding mtree_ok_def by blast
  ultimately show ?case using Cons.IH [of t1] by simp
qed simp

lemma sorted_items_members:
  fixes its :: kvs
  assumes "sorted (map fst its)" "distinct (map fst its)"
  shows "map snd its = ordered_members (map_of its)"
proof -
  have "sorted_list_of_set (dom (map_of its)) = map fst its"
    using assms by (metis dom_map_of_conv_image_fst set_map sorted_list_of_set.idem_if_sorted_distinct)
  then have "ordered_members (map_of its) = map (\<lambda>k. the (map_of its k)) (map fst its)"
    by (simp add: ordered_members_def)
  also have "\<dots> = map snd its" using assms(2) by (auto simp: map_of_eq_Some_iff)
  finally show ?thesis by simp
qed

lemma items_members:
  assumes "leveldb_contract L cont path" "path w h = Some p" "cont w p = Some m" "snd (ldb_Items L w h) = None"
  shows "map snd (fst (ldb_Items L w h)) = ordered_members m"
proof -
  obtain its where its: "ldb_Items L w h = (its, None)" using assms(4) by (metis prod.collapse)
  from contract_items [OF assms(1-3) its] sorted_items_members show ?thesis by (simp add: its)
qed

lemma calcMembershipRoot_ok:
  assumes "mtree_ok MT (HashMembershipTreeNode blake3) leaves rootf"
    and "calcMembershipRoot L MT blake3 w r = (w', r', Inr root)"
  shows "flushPendingSubmitsLocked L w r = (w', r')"
    and "root = rootf (map snd (fst (ldb_Items L w' (r_db r'))))"
proof -
  show f: "flushPendingSubmitsLocked L w r = (w', r')"
    using assms(2) by (auto simp: calcMembershipRoot_def flushPendingSubmits_def split: prod.splits)
  then obtain t t' where "mt_Build MT (HashMembershipTreeNode blake3) = Inr t"
    "addLeaves MT t (map snd (fst (ldb_Items L w' (r_db r')))) = Inr t'" "root = mt_Root MT t'"
    using assms(2) by (auto simp: calcMembershipRoot_def flushPendingSubmits_def split: sum.splits)
  with addLeaves_leaves [OF assms(1)] assms(1)
  show "root = rootf (map snd (fst (ldb_Items L w' (r_db r'))))" by (simp add: mtree_ok_def)
qed

text \<open>
  The iterator's error is never looked at. On a round whose database is closed already, the
  membership root is computed without an error, as the root of an empty list of members, whatever
  challenges the database holds.
\<close>

lemma closed_round_root_is_empty:
  assumes "leveldb_contract L cont path" and "path w (r_db r) = None" and "r_batch r = []"
    and "mtree_ok MT (HashMembershipTreeNode blake3) leaves rootf"
    and "mt_Build MT (HashMembershipTreeNode blake3) = Inr t"
  shows "snd (snd (calcMembershipRoot L MT blake3 w r)) = Inr (rootf [])"
  using assms contract_closed(1) [OF assms(1,2)]
  by (simp add: calcMembershipRoot_def flushPendingSubmits_def flushPendingSubmitsLocked_def mtree_ok_def)

text \<open>No operation changes which round it is, or the limits of the round.\<close>

lemma flush_epoch:
  "flushPendingSubmitsLocked L w r = (w', r') \<Longrightarrow>
   r_epoch r' = r_epoch r \<and> r_db r' = r_db r \<and> r_maxMembers r' = r_maxMembers r"
  by (auto simp: flushPendingSubmitsLocked_def Let_def split: if_splits prod.splits)

lemma calc_epoch: "calcMembershipRoot L MT b3 w r = (w', r', res) \<Longrightarrow> r_epoch r' = r_epoch r \<and> r_db r' = r_db r"
  by (auto simp: calcMembershipRoot_def flushPendingSubmits_def dest: flush_epoch split: prod.splits)

lemma close_epoch: "round_Close L w r = (w', r', res) \<Longrightarrow> r_epoch r' = r_epoch r \<and> r_db r' = r_db r"
  by (auto simp: round_Close_def flushPendingSubmits_def dest: flush_epoch split: prod.splits option.splits)

lemma newRound_epoch: "newRound L w e dbdir options = (w', Inr r) \<Longrightarrow> r_epoch r = e"
  by (auto simp: newRound_def Let_def split: prod.splits sum.splits)

lemma submit_epoch: "submit L w r k c = (w', r', res) \<Longrightarrow> r_epoch r' = r_epoch r"
  by (auto simp: submit_def enqueue_def Let_def dest: flush_epoch split: if_splits option.splits sum.splits prod.splits)

lemma round_step_epoch:
  assumes "round_step L cont path dbp s s'"
  shows "r_epoch (fst (snd s')) = r_epoch (fst (snd s))"
  using assms
  by (cases rule: round_step.cases)
    (auto simp: timedFlushPendingSubmits_def flushPendingSubmits_def dest: submit_epoch flush_epoch close_epoch split: if_splits)

lemma reachable_epoch:
  assumes "(round_step L cont path dbp)\<^sup>*\<^sup>* (w, r, subs) (w', r', subs')"
  shows "r_epoch r' = r_epoch r"
proof -
  from assms have "r_epoch (fst (snd (w', r', subs'))) = r_epoch (fst (snd (w, r, subs)))"
    by (induction rule: rtranclp_induct) (auto dest: round_step_epoch)
  then show ?thesis by simp
qed

section \<open>Properties\<close>

text \<open>
  C15: Durability. Whatever submissions, timer flushes, forced flushes and closings are interleaved
  after a round has been opened, a submission whose channel has received \<open>nil\<close> is stored: the
  round's database holds the submitted challenge under the submitter's key, then and in every later
  state.
\<close>

theorem accepted_challenge_is_durable:
  assumes "leveldb_contract L cont path" and "newRound L w0 e dbdir options = (w1, Inr r0)"
    and "snd (ldb_Items L w1 (r_db r0)) = None"
    and "(round_step L cont path (roundPath dbdir e))\<^sup>*\<^sup>* (w1, r0, []) (w, r, subs)"
    and "c < length subs" and "r_chans r ! c = settled_chan None"
  shows "\<exists>m. cont w (roundPath dbdir e) = Some m \<and> m (fst (subs ! c)) = Some (snd (subs ! c))"
  using settled_is_stored [OF round_reachable(1) [OF assms(1-4)] assms(5,6)] by blast

text \<open>
  C17: Every accepted submission gets exactly one answer. In every reachable state its channel is
  either empty and open, with a flush scheduled, or it holds one result and is closed; and when the
  timer fires, no channel is left without its result. In particular no send ever blocks or hits a
  closed channel.
\<close>

theorem every_submission_is_answered:
  assumes "leveldb_contract L cont path" and "newRound L w0 e dbdir options = (w1, Inr r0)"
    and "snd (ldb_Items L w1 (r_db r0)) = None"
    and "(round_step L cont path (roundPath dbdir e))\<^sup>*\<^sup>* (w1, r0, []) (w, r, subs)"
    and "c < length subs"
  shows "(r_chans r ! c = open_chan \<and> r_pendingFlush r \<noteq> None \<or> (\<exists>res. r_chans r ! c = settled_chan res)) \<and>
    (\<exists>res. r_chans (snd (timedFlushPendingSubmits L w r)) ! c = settled_chan res)"
proof -
  note core = round_reachable(1) [OF assms(1-4)] and timer = round_reachable(2) [OF assms(1-4)]
  obtain m where m: "cont w (roundPath dbdir e) = Some m" "pending_ok r" "chan_ok m r (subs ! c) c"
    by (rule core_chan [OF core assms(5)])
  have now: "r_chans r ! c = open_chan \<and> r_pendingSubmits r \<noteq> [] \<or> (\<exists>res. r_chans r ! c = settled_chan res)"
    using m(3) pending_chan_open(1) [OF m(2)] by (fastforce simp: chan_ok_def)
  obtain w' r' where t: "timedFlushPendingSubmits L w r = (w', r')" by fastforce
  have "\<exists>res. r_chans r' ! c = settled_chan res"
  proof (cases "r_pendingFlush r")
    case None
    with t now timer show ?thesis by (auto simp: timedFlushPendingSubmits_def timer_ok_def)
  next
    case (Some d)
    with t have f: "flushPendingSubmitsLocked L w r = (w', r')" by (simp add: timedFlushPendingSubmits_def)
    obtain m' where "chan_ok m' r' (subs ! c) c" by (rule core_chan [OF flush_core [OF assms(1) core f] assms(5)])
    with flush_pending_empty(1) [OF f m(2)] show ?thesis by (auto simp: chan_ok_def)
  qed
  with now timer t show ?thesis by (auto simp: timer_ok_def)
qed

text \<open>
  C18: The number of members is bounded: in every reachable state the round's database holds at
  most as many challenges as the configured maximum, or as it held when it was opened if that was
  more, and the pending submissions fit in as well.
\<close>

theorem round_members_bounded:
  assumes "leveldb_contract L cont path" and "newRound L w0 e dbdir options = (w1, Inr r0)"
    and "snd (ldb_Items L w1 (r_db r0)) = None"
    and "(round_step L cont path (roundPath dbdir e))\<^sup>*\<^sup>* (w1, r0, []) (w, r, subs)"
  shows "\<exists>m. cont w (roundPath dbdir e) = Some m \<and> finite (dom m) \<and>
    int (card (dom m) + length (r_pendingSubmits r)) \<le> max (r_maxMembers r0) (r_members r0)"
  using round_reachable(1) [OF assms] by (fastforce simp: round_core_def db_ok_def cap_ok_def)

text \<open>
  One challenge per key. A key that is pending or stored with some challenge is not accepted
  again: the same challenge is reported as already submitted, any other one as a conflict, and
  neither the round nor the file system changes.
\<close>

lemma submit_known_key:
  assumes "r_members r + int (length (r_pendingSubmits r)) < r_maxMembers r"
    and "map_of (r_pendingSubmits r) key = Some pending \<and> known = p_challenge pending \<or>
         map_of (r_pendingSubmits r) key = None \<and> ldb_Get L w (r_db r) key = Inr known"
  shows "submit L w r key challenge = (w, r, Inl (if challenge = known
           then Wrap ''key'' ErrChallengeAlreadySubmitted else ErrConflictingRegistration))"
  using assms by (auto simp: submit_def)

text \<open>
  C16: The membership root commits to the registered challenges. When the root of an open round is
  computed and the iteration is complete, it is the Merkle root of exactly the stored challenges in
  the order of their keys (so it does not depend on the order of submission), \<open>getMembers\<close> returns
  these leaves, no submission is left pending and every submission that was answered with \<open>nil\<close> is
  included.
\<close>

theorem membership_root_commits_to_members:
  assumes "leveldb_contract L cont path" and "newRound L w0 e dbdir options = (w1, Inr r0)"
    and "snd (ldb_Items L w1 (r_db r0)) = None"
    and "(round_step L cont path (roundPath dbdir e))\<^sup>*\<^sup>* (w1, r0, []) (w, r, subs)"
    and "mtree_ok MT (HashMembershipTreeNode blake3) leaves rootf"
    and "calcMembershipRoot L MT blake3 w r = (w', r', Inr root)"
    and "path w' (r_db r') = Some (roundPath dbdir e)" and "snd (ldb_Items L w' (r_db r')) = None"
  shows "\<exists>m. cont w' (roundPath dbdir e) = Some m \<and> root = rootf (ordered_members m) \<and>
    getMembers L w' r' = ordered_members m \<and>
    (\<forall>c < length subs. \<exists>res. r_chans r' ! c = settled_chan res \<and>
       (res = None \<longrightarrow> m (fst (subs ! c)) = Some (snd (subs ! c))))"
proof -
  note f = calcMembershipRoot_ok [OF assms(5,6)] and core = round_reachable(1) [OF assms(1-4)]
  have p: "pending_ok r" using core by (simp add: round_core_def)
  from flush_core [OF assms(1) core f(1)] obtain m where m: "cont w' (roundPath dbdir e) = Some m" "chans_ok m r' subs"
    by (auto simp: round_core_def)
  have "\<exists>res. r_chans r' ! c = settled_chan res \<and> (res = None \<longrightarrow> m (fst (subs ! c)) = Some (snd (subs ! c)))"
    if "c < length subs" for c
    using m(2) that flush_pending_empty(1) [OF f(1) p] by (auto simp: chans_ok_def chan_ok_def)
  with m(1) f(2) items_members [OF assms(1,7) m(1) assms(8)] show ?thesis by (auto simp: getMembers_def)
qed

text \<open>
  A round is recovered from its database. Opening the database of a round again gives a round
  whose member count is the number of stored challenges and whose members are the stored
  challenges in the order of their keys, and it leaves the contents as they were.
\<close>

lemma reopened_round_keeps_members:
  assumes "leveldb_contract L cont path" and "newRound L w e dbdir options = (w', Inr r)"
    and "snd (ldb_Items L w' (r_db r)) = None" and "cont w (roundPath dbdir e) = Some m"
  shows "r_members r = int (card (dom m)) \<and> getMembers L w' r = ordered_members m \<and>
    cont w' (roundPath dbdir e) = Some m"
proof -
  have 1: "r_members r = int (card (dom m))" using newRound_ok [OF assms(1-3)] assms(4) by simp
  obtain b where o: "ldb_OpenFile L w (roundPath dbdir e) b = (w', Inr (r_db r))"
    using assms(2) by (auto simp: newRound_def Let_def split: prod.splits sum.splits)
  have "path w' (r_db r) = Some (roundPath dbdir e)" "cont w' (roundPath dbdir e) = Some m"
    using contract_open [OF assms(1) o] assms(4) by simp_all
  with 1 items_members [OF assms(1) this assms(3)] show ?thesis by (simp add: getMembers_def)
qed

text \<open>
  Different rounds never share a database, whatever the database directory is.
\<close>

lemma rounds_use_distinct_databases: "roundPath dbdir e = roundPath dbdir e' \<longleftrightarrow> e = e'"
  using filepath_Join_last_inject [of "FormatUint e" "FormatUint e'" "''rounds''" dbdir]
  by (auto simp: roundPath_def epochToRoundId_def)

section \<open>A concrete round\<close>

text \<open>Round 1 of a fresh installation: one challenge is submitted and the timer fires.\<close>

definition demo_world :: "string option list \<Rightarrow> (string \<times> kvs) list \<Rightarrow> ldb_world" where
  "demo_world op st = \<lparr>stored = st, opened = op, txns = [], diskFull = False\<rparr>"

definition demo_round :: "int \<Rightarrow> gochan list \<Rightarrow> (bytes \<times> pendingSubmit) list \<Rightarrow> nat round" where
  "demo_round n chs ps = \<lparr>r_epoch = 1, r_db = 0, r_maxMembers = 3, r_members = n,
     r_batch = map (\<lambda>(k, p). (k, p_challenge p)) ps, r_pendingSubmits = ps,
     r_pendingFlush = (if ps = [] then None else Some 1000), r_flushInterval = 1000, r_maxBatchSize = 1000,
     r_chans = chs\<rparr>"

lemma demo_path: "roundPath ''db'' 1 = ''db/rounds/1''"
  by code_simp

lemma demo_open:
  "newRound ref_ldb (demo_world [] []) 1 ''db'' [withMaxMembers 3]
     = (demo_world [Some ''db/rounds/1''] [(''db/rounds/1'', [])], Inr (demo_round 0 [] []))"
  by code_simp

lemma demo_submit:
  "submit ref_ldb (demo_world [Some ''db/rounds/1''] [(''db/rounds/1'', [])]) (demo_round 0 [] []) [7] [70]
     = (demo_world [Some ''db/rounds/1''] [(''db/rounds/1'', [])],
        demo_round 0 [open_chan] [([7], \<lparr>p_done = 0, p_challenge = [70]\<rparr>)], Inr 0)"
  by code_simp

lemma demo_flush:
  "timedFlushPendingSubmits ref_ldb (demo_world [Some ''db/rounds/1''] [(''db/rounds/1'', [])])
       (demo_round 0 [open_chan] [([7], \<lparr>p_done = 0, p_challenge = [70]\<rparr>)])
     = (demo_world [Some ''db/rounds/1''] [(''db/rounds/1'', [([7], [70])]), (''db/rounds/1'', [])],
        demo_round 1 [settled_chan None] [])"
  by (simp add: timedFlushPendingSubmits_def flushPendingSubmitsLocked_def demo_round_def demo_world_def ref_ldb_def
      ref_append_def ref_path_def ref_kvs_def chan_deliver_def open_chan_def settled_chan_def)

lemma demo_reach1:
  "(round_step ref_ldb ref_cont ref_path (roundPath ''db'' 1))\<^sup>*\<^sup>*
     (demo_world [Some ''db/rounds/1''] [(''db/rounds/1'', [])], demo_round 0 [] [], [])
     (demo_world [Some ''db/rounds/1''] [(''db/rounds/1'', [])],
      demo_round 0 [open_chan] [([7], \<lparr>p_done = 0, p_challenge = [70]\<rparr>)], [([7], [70])])"
  using step_accepted [OF demo_submit, of ref_cont ref_path "roundPath ''db'' 1" "[]"] by (simp add: r_into_rtranclp)

lemma demo_reach2:
  "(round_step ref_ldb ref_cont ref_path (roundPath ''db'' 1))\<^sup>*\<^sup>*
     (demo_world [Some ''db/rounds/1''] [(''db/rounds/1'', [])], demo_round 0 [] [], [])
     (demo_world [Some ''db/rounds/1''] [(''db/rounds/1'', [([7], [70])]), (''db/rounds/1'', [])],
      demo_round 1 [settled_chan None] [], [([7], [70])])"
proof -
  note step_timer [OF demo_flush, of ref_cont ref_path "roundPath ''db'' 1" "[([7], [70])]"]
  with demo_reach1 show ?thesis by (rule rtranclp.rtrancl_into_rtrancl)
qed

lemma demo_items:
  "snd (ldb_Items ref_ldb (demo_world [Some ''db/rounds/1''] [(''db/rounds/1'', [])]) (r_db (demo_round 0 [] []))) = None"
  by code_simp

theorem accepted_challenge_is_durable_witness:
  "\<exists>m. ref_cont (demo_world [Some ''db/rounds/1''] [(''db/rounds/1'', [([7], [70])]), (''db/rounds/1'', [])])
        (roundPath ''db'' 1) = Some m \<and> m [7] = Some [70]"
  using accepted_challenge_is_durable [OF ref_leveldb_contract demo_open demo_items demo_reach2, of 0]
  by (simp add: demo_round_def)

theorem every_submission_is_answered_witness:
  "\<exists>res. r_chans (snd (timedFlushPendingSubmits ref_ldb (demo_world [Some ''db/rounds/1''] [(''db/rounds/1'', [])])
     (demo_round 0 [open_chan] [([7], \<lparr>p_done = 0, p_challenge = [70]\<rparr>)]))) ! 0 = settled_chan res"
  using every_submission_is_answered [OF ref_leveldb_contract demo_open demo_items demo_reach1, of 0] by simp

theorem round_members_bounded_witness:
  "\<exists>m. ref_cont (demo_world [Some ''db/rounds/1''] [(''db/rounds/1'', [([7], [70])]), (''db/rounds/1'', [])])
        (roundPath ''db'' 1) = Some m \<and> finite (dom m) \<and> int (card (dom m)) \<le> 3"
  using round_members_bounded [OF ref_leveldb_contract demo_open demo_items demo_reach2] by (simp add: demo_round_def)

definition ref_mtree :: "bytes list mtree_api" where
  "ref_mtree = \<lparr>mt_Build = (\<lambda>h. Inr []), mt_AddLeaf = (\<lambda>t l. (t @ [l], None)), mt_Root = concat\<rparr>"

lemma ref_mtree_ok: "mtree_ok ref_mtree h (\<lambda>t. t) concat"
  by (simp add: mtree_ok_def ref_mtree_def)

lemma demo_root:
  "calcMembershipRoot ref_ldb ref_mtree (\<lambda>d. d)
       (demo_world [Some ''db/rounds/1''] [(''db/rounds/1'', [])])
       (demo_round 0 [open_chan] [([7], \<lparr>p_done = 0, p_challenge = [70]\<rparr>)])
     = (demo_world [Some ''db/rounds/1''] [(''db/rounds/1'', [([7], [70])]), (''db/rounds/1'', [])],
        demo_round 1 [settled_chan None] [], Inr [70])"
  by (simp add: calcMembershipRoot_def flushPendingSubmits_def flushPendingSubmitsLocked_def demo_round_def
      demo_world_def ref_ldb_def ref_append_def ref_path_def ref_kvs_def chan_deliver_def open_chan_def
      settled_chan_def ref_mtree_def kv_sort_def)

theorem membership_root_commits_to_members_witness:
  "\<exists>m. ref_cont (demo_world [Some ''db/rounds/1''] [(''db/rounds/1'', [([7], [70])]), (''db/rounds/1'', [])])
        (roundPath ''db'' 1) = Some m \<and> [70] = concat (ordered_members m) \<and> m [7] = Some [70]"
proof -
  let ?w = "demo_world [Some ''db/rounds/1''] [(''db/rounds/1'', [([7], [70])]), (''db/rounds/1'', [])]"
    and ?r = "demo_round 1 [settled_chan None] []"
  have "ref_path ?w (r_db ?r) = Some (roundPath ''db'' 1)" "snd (ldb_Items ref_ldb ?w (r_db ?r)) = None"
    by (simp_all add: demo_path ref_path_def demo_world_def demo_round_def ref_ldb_def)
  from membership_root_commits_to_members [of ref_ldb ref_cont ref_path, OF ref_leveldb_contract demo_open demo_items demo_reach1
      ref_mtree_ok demo_root this]
  show ?thesis by (auto simp: demo_round_def settled_chan_def)
qed

text \<open>
  A failed write uses up places. A round can get into a state in which its database is empty,
  nothing is pending and writing works, and yet submissions are rejected because the maximum number
  of members is reached: \<open>flushPendingSubmitsLocked\<close> counts the pending submissions as members also
  when the database refused them.
\<close>

lemma failed_flush_consumes_places:
  "\<exists>w0 w1 r0 w r subs.
     newRound ref_ldb w0 1 ''db'' [withMaxMembers 1] = (w1, Inr r0) \<and>
     (round_step ref_ldb ref_cont ref_path (roundPath ''db'' 1))\<^sup>*\<^sup>* (w1, r0, []) (w, r, subs) \<and>
     \<not> diskFull w \<and> ref_cont w (roundPath ''db'' 1) = Some Map.empty \<and> r_pendingSubmits r = [] \<and>
     submit ref_ldb w r [8] [80] = (w, r, Inl ErrMaxMembersReached)"
proof -
  let ?w0 = "demo_world [] []" and ?w1 = "demo_world [Some ''db/rounds/1''] [(''db/rounds/1'', [])]"
  let ?r0 = "demo_round 0 [] []\<lparr>r_maxMembers := 1\<rparr>"
    and ?r1 = "demo_round 0 [open_chan] [([7], \<lparr>p_done = 0, p_challenge = [70]\<rparr>)]\<lparr>r_maxMembers := 1\<rparr>"
    and ?r2 = "demo_round 1 [settled_chan (Some (Opaque ''no space left on device''))] []\<lparr>r_maxMembers := 1\<rparr>"
  let ?full = "?w1\<lparr>diskFull := True\<rparr>" and ?step = "round_step ref_ldb ref_cont ref_path (roundPath ''db'' 1)"
  have new: "newRound ref_ldb ?w0 1 ''db'' [withMaxMembers 1] = (?w1, Inr ?r0)" by code_simp
  have sub: "submit ref_ldb ?w1 ?r0 [7] [70] = (?w1, ?r1, Inr 0)" by code_simp
  have fl: "timedFlushPendingSubmits ref_ldb ?full ?r1 = (?full, ?r2)"
    by (simp add: timedFlushPendingSubmits_def flushPendingSubmitsLocked_def demo_round_def demo_world_def ref_ldb_def
      ref_append_def ref_path_def ref_kvs_def chan_deliver_def open_chan_def settled_chan_def)
  have "?step (?w1, ?r0, []) (?w1, ?r1, [([7], [70])])" using step_accepted [OF sub, of _ _ _ "[]"] by simp
  moreover have "?step (?w1, ?r1, [([7], [70])]) (?full, ?r1, [([7], [70])])"
    by (rule step_other) (simp_all add: ref_cont_def ref_path_def)
  moreover have "?step (?full, ?r1, [([7], [70])]) (?full, ?r2, [([7], [70])])" by (rule step_timer [OF fl])
  moreover have "?step (?full, ?r2, [([7], [70])]) (?w1, ?r2, [([7], [70])])"
    by (rule step_other) (simp_all add: ref_cont_def ref_path_def)
  ultimately have "?step\<^sup>*\<^sup>* (?w1, ?r0, []) (?w1, ?r2, [([7], [70])])"
    by (meson converse_rtranclp_into_rtranclp rtranclp.rtrancl_refl)
  moreover have "submit ref_ldb ?w1 ?r2 [8] [80] = (?w1, ?r2, Inl ErrMaxMembersReached)"
    by (simp add: submit_def demo_round_def)
  moreover have "\<not> diskFull ?w1" "ref_cont ?w1 (roundPath ''db'' 1) = Some Map.empty" "r_pendingSubmits ?r2 = []"
    by (simp_all add: demo_world_def demo_round_def ref_cont_def demo_path)
  ultimately show ?thesis using new by blast
qed

end
