(* ===== verification/Reg_Refine.thy ===== *)
theory Reg_Refine
  imports Reg_Round
begin

text \<open>
  What the registration round promises to its callers: it is a bounded map from keys to challenges.
  A submission is accepted when there is room and the key is new; batching, flushing and the database
  are invisible. The round of \<open>registration/round.go\<close> refines this specification as long as its
  database works.
\<close>

section \<open>The specification\<close>

datatype verdict = Accepted | Already | Conflict | Full | Failed

datatype registry_op = OSubmit bytes bytes | OTimer | OFlush

record registry =
  reg_room :: int
  reg_entries :: "bytes \<rightharpoonup> bytes"

fun registry_do :: "registry \<Rightarrow> registry_op \<Rightarrow> registry \<times> verdict option" where
  "registry_do g (OSubmit k c) =
     (if reg_room g \<le> int (card (dom (reg_entries g))) then (g, Some Full)
      else case reg_entries g k of
        Some c' \<Rightarrow> (g, Some (if c = c' then Already else Conflict))
      | None \<Rightarrow> (g\<lparr>reg_entries := (reg_entries g)(k \<mapsto> c)\<rparr>, Some Accepted))"
| "registry_do g OTimer = (g, None)"
| "registry_do g OFlush = (g, None)"

section \<open>The implementation\<close>

definition verdict_of :: "goerr + nat \<Rightarrow> verdict" where
  "verdict_of res =
     (case res of
        Inr _ \<Rightarrow> Accepted
      | Inl err \<Rightarrow>
          if errors_Is err ErrMaxMembersReached then Full
          else if errors_Is err ErrChallengeAlreadySubmitted then Already
          else if errors_Is err ErrConflictingRegistration then Conflict else Failed)"

fun round_do :: "('w, 'h) leveldb_api \<Rightarrow> 'w \<times> 'h round \<Rightarrow> registry_op \<Rightarrow> ('w \<times> 'h round) \<times> verdict option" where
  "round_do L (w, r) (OSubmit k c) = (case submit L w r k c of (w', r', res) \<Rightarrow> ((w', r'), Some (verdict_of res)))"
| "round_do L (w, r) OTimer = (timedFlushPendingSubmits L w r, None)"
| "round_do L (w, r) OFlush = (flushPendingSubmits L w r, None)"

section \<open>Abstraction and invariant\<close>

text \<open>The entries are those in the database and those still waiting in the batch.\<close>

definition registry_of :: "'w ldb_cont \<Rightarrow> string \<Rightarrow> 'w \<times> 'h round \<Rightarrow> registry" where
  "registry_of cont dbp s =
     \<lparr>reg_room = r_maxMembers (snd s),
      reg_entries = apply_batch (case cont (fst s) dbp of Some m \<Rightarrow> m | None \<Rightarrow> Map.empty) (r_batch (snd s))\<rparr>"

text \<open>A database that works: reading fails for absent keys only and writing does not fail.\<close>

definition working :: "('w, 'h) leveldb_api \<Rightarrow> ('w, 'h) ldb_path \<Rightarrow> ('w \<Rightarrow> bool) \<Rightarrow> bool" where
  "working L path healthy \<longleftrightarrow>
     (\<forall>w h k e. healthy w \<longrightarrow> path w h \<noteq> None \<longrightarrow> ldb_Get L w h k = Inl e \<longrightarrow> errors_Is e ErrNotFound) \<and>
     (\<forall>w h b w' e. healthy w \<longrightarrow> path w h \<noteq> None \<longrightarrow> ldb_Write L w h b = (w', e) \<longrightarrow> e = None \<and> healthy w')"

definition refine_inv ::
  "('w, 'h) leveldb_api \<Rightarrow> 'w ldb_cont \<Rightarrow> ('w, 'h) ldb_path \<Rightarrow> ('w \<Rightarrow> bool) \<Rightarrow> string \<Rightarrow> 'w \<times> 'h round \<Rightarrow> bool" where
  "refine_inv L cont path healthy dbp s \<longleftrightarrow>
     (case s of (w, r) \<Rightarrow>
        leveldb_contract L cont path \<and> working L path healthy \<and> healthy w \<and> path w (r_db r) = Some dbp \<and>
        (\<exists>cap subs. round_core cont path dbp cap w r subs) \<and>
        (\<exists>m. cont w dbp = Some m \<and> r_members r = int (card (dom m))))"

section \<open>Lemmas\<close>

lemma batch_entries:
  assumes "pending_ok r" and "db_ok m r"
  shows "card (dom (apply_batch m (r_batch r))) = card (dom m) + length (r_pendingSubmits r)"
    and "apply_batch m (r_batch r) k = (case map_of (r_pendingSubmits r) k of Some p \<Rightarrow> Some (p_challenge p) | None \<Rightarrow> m k)"
proof -
  have b: "r_batch r = map (\<lambda>(k, p). (k, p_challenge p)) (r_pendingSubmits r)" and d: "distinct (map fst (r_pendingSubmits r))"
    using assms(1) by (simp_all add: pending_ok_def)
  have keys: "fst ` set (r_batch r) = pend_keys r" by (force simp: b pend_keys_def)
  have "card (pend_keys r) = length (r_pendingSubmits r)"
    using d by (metis pend_keys_def distinct_card length_map set_map)
  moreover have "card (dom m \<union> pend_keys r) = card (dom m) + card (pend_keys r)"
    using assms(2) by (intro card_Un_disjoint) (auto simp: db_ok_def pend_keys_def)
  moreover have "dom (apply_batch m (r_batch r)) = dom m \<union> pend_keys r" using keys by auto
  ultimately show "card (dom (apply_batch m (r_batch r))) = card (dom m) + length (r_pendingSubmits r)" by simp
  have db: "distinct (map fst (r_batch r))" using d by (simp add: b comp_def case_prod_unfold)
  then have "map_of (rev (r_batch r)) = map_of (r_batch r)" 
    by (subst map_of_inject_set) (simp_all add: rev_map [symmetric])
  moreover have "map_of (r_batch r) k = map_option p_challenge (map_of (r_pendingSubmits r) k)"
    unfolding b by (simp add: map_of_map)
  ultimately show "apply_batch m (r_batch r) k
      = (case map_of (r_pendingSubmits r) k of Some p \<Rightarrow> Some (p_challenge p) | None \<Rightarrow> m k)"
    by (simp add: apply_batch_def map_add_def split: option.splits)
qed

text \<open>A flush moves the batch into the database, which changes nothing of the entries.\<close>

lemma flush_refines:
  assumes inv: "refine_inv L cont path healthy dbp (w, r)" and f: "flushPendingSubmitsLocked L w r = (w', r')"
  shows "refine_inv L cont path healthy dbp (w', r')"
    and "registry_of cont dbp (w', r') = registry_of cont dbp (w, r)"
proof -
  from inv obtain cap subs m where L: "leveldb_contract L cont path" and W: "working L path healthy" and h: "healthy w"
    and p: "path w (r_db r) = Some dbp" and core: "round_core cont path dbp cap w r subs"
    and m: "cont w dbp = Some m" and mem: "r_members r = int (card (dom m))"
    unfolding refine_inv_def by auto
  from core m have pok: "pending_ok r" and dok: "db_ok m r" by (auto simp: round_core_def)
  have core': "round_core cont path dbp cap w' r' subs" by (rule flush_core [OF L core f])
  have "refine_inv L cont path healthy dbp (w', r') \<and> registry_of cont dbp (w', r') = registry_of cont dbp (w, r)"
  proof (rule flush_result [OF f pok])
    assume "r_pendingSubmits r = []" "w' = w" "r' = r\<lparr>r_pendingFlush := None\<rparr>"
    then show ?thesis using L W h p core' m mem by (auto simp: refine_inv_def registry_of_def)
  next
    fix err
    assume wr: "ldb_Write L w (r_db r) (r_batch r) = (w', err)"
      and r': "r' = r\<lparr>r_pendingFlush := None, r_chans := deliverAll err (r_chans r) (r_pendingSubmits r),
        r_members := r_members r + int (length (r_pendingSubmits r)), r_pendingSubmits := [], r_batch := []\<rparr>"
    have e: "err = None" "healthy w'" using W h p wr unfolding working_def by (metis option.distinct(1))+
    have c: "path w' = path w" "cont w' dbp = Some (apply_batch m (r_batch r))"
      using contract_write [OF L p m wr] e by simp_all
    have "r_members r' = int (card (dom (apply_batch m (r_batch r))))"
      using batch_entries(1) [OF pok dok] mem r' by simp
    with L W e c p core' r' m show ?thesis
      unfolding refine_inv_def registry_of_def by auto
  qed
  then show "refine_inv L cont path healthy dbp (w', r')"
    and "registry_of cont dbp (w', r') = registry_of cont dbp (w, r)" by simp_all
qed

lemma enqueue_refines:
  assumes inv: "refine_inv L cont path healthy dbp (w, r)" and m: "cont w dbp = Some m"
    and k: "key \<notin> pend_keys r" "m key = None" and room: "r_members r + int (length (r_pendingSubmits r)) < r_maxMembers r"
    and e: "enqueue L w r key c = (w', r', res)"
  shows "refine_inv L cont path healthy dbp (w', r')"
    and "registry_of cont dbp (w', r')
      = (registry_of cont dbp (w, r))\<lparr>reg_entries := (reg_entries (registry_of cont dbp (w, r)))(key \<mapsto> c)\<rparr>"
proof -
  let ?r = "with_pending r key c"
  let ?g = "(registry_of cont dbp (w, r))\<lparr>reg_entries := (reg_entries (registry_of cont dbp (w, r)))(key \<mapsto> c)\<rparr>"
  from inv obtain cap subs where core: "round_core cont path dbp cap w r subs" and p: "path w (r_db r) = Some dbp"
    unfolding refine_inv_def by auto
  have "round_core cont path dbp cap w ?r (subs @ [(key, c)])" by (rule with_pending_core [OF core p m k room])
  then have i: "refine_inv L cont path healthy dbp (w, ?r)"
    using inv unfolding refine_inv_def by (auto simp: with_pending_def)
  have g: "registry_of cont dbp (w, ?r) = ?g"
    by (simp add: registry_of_def with_pending_def m apply_batch_def)
  have "refine_inv L cont path healthy dbp (w', r') \<and> registry_of cont dbp (w', r') = ?g"
    using e
  proof (cases rule: enqueue_cases)
    case full
    then show ?thesis using flush_refines [OF i full] g by simp
  next
    case first
    then show ?thesis using i g
      by (auto simp: refine_inv_def registry_of_def round_core_def pending_ok_def handle_ok_def cap_ok_def db_ok_def chans_ok_def
          chan_ok_def pend_keys_def pend_dones_def)
  next
    case later
    then show ?thesis using i g by simp
  qed
  then show "refine_inv L cont path healthy dbp (w', r')" and "registry_of cont dbp (w', r') = ?g" by simp_all
qed

lemma submit_refines:
  assumes inv: "refine_inv L cont path healthy dbp (w, r)" and s: "submit L w r key c = (w', r', res)"
  shows "refine_inv L cont path healthy dbp (w', r')"
    and "registry_do (registry_of cont dbp (w, r)) (OSubmit key c) = (registry_of cont dbp (w', r'), Some (verdict_of res))"
proof -
  from inv obtain cap subs m where L: "leveldb_contract L cont path" and W: "working L path healthy" and h: "healthy w"
    and p: "path w (r_db r) = Some dbp" and core: "round_core cont path dbp cap w r subs"
    and m: "cont w dbp = Some m" and mem: "r_members r = int (card (dom m))"
    unfolding refine_inv_def by auto
  from core m have pok: "pending_ok r" and dok: "db_ok m r" by (auto simp: round_core_def)
  let ?e = "apply_batch m (r_batch r)"
  have g: "registry_of cont dbp (w, r) = \<lparr>reg_room = r_maxMembers r, reg_entries = ?e\<rparr>" by (simp add: registry_of_def m)
  have n: "int (card (dom ?e)) = r_members r + int (length (r_pendingSubmits r))"
    using batch_entries(1) [OF pok dok] mem by simp
  note ek = batch_entries(2) [OF pok dok, of key]
  have "refine_inv L cont path healthy dbp (w', r') \<and>
    registry_do (registry_of cont dbp (w, r)) (OSubmit key c) = (registry_of cont dbp (w', r'), Some (verdict_of res))"
  proof (cases "r_maxMembers r \<le> r_members r + int (length (r_pendingSubmits r))")
    case True
    with s inv g n show ?thesis by (auto simp: submit_def verdict_of_def)
  next
    case room: False
    show ?thesis
    proof (cases "map_of (r_pendingSubmits r) key")
      case (Some pend)
      with room s inv g n ek show ?thesis by (auto simp: submit_def verdict_of_def split: if_splits)
    next
      case None
      show ?thesis
      proof (cases "ldb_Get L w (r_db r) key")
        case (Inr v)
        with contract_get(1) [OF L p m] have "m key = Some v" by blast
        with None room s inv g n ek Inr show ?thesis by (auto simp: submit_def verdict_of_def split: if_splits)
      next
        case (Inl err)
        have nf: "errors_Is err ErrNotFound" using W h p Inl unfolding working_def by (metis option.distinct(1))
        have mk: "m key = None" using contract_get(2) [OF L p m Inl nf] .
        have q: "enqueue L w r key c = (w', r', res)" using s None room Inl nf by (simp add: submit_def)
        have kp: "key \<notin> pend_keys r" using None by (simp add: pend_keys_def map_of_eq_None_iff)
        have lt: "r_members r + int (length (r_pendingSubmits r)) < r_maxMembers r" using room by simp
        from enqueue_refines [OF inv m kp mk lt q] enqueue_result [OF q] room g n ek None mk
        show ?thesis by (simp add: verdict_of_def)
      qed
    qed
  qed
  then show "refine_inv L cont path healthy dbp (w', r')"
    and "registry_do (registry_of cont dbp (w, r)) (OSubmit key c) = (registry_of cont dbp (w', r'), Some (verdict_of res))"
    by simp_all
qed

lemma round_do_refines:
  assumes "refine_inv L cont path healthy dbp s"
  shows "refine_inv L cont path healthy dbp (fst (round_do L s x))"
    and "registry_do (registry_of cont dbp s) x = (registry_of cont dbp (fst (round_do L s x)), snd (round_do L s x))"
proof -
  obtain w r where s: "s = (w, r)" by fastforce
  obtain w1 r1 where f: "flushPendingSubmitsLocked L w r = (w1, r1)" by fastforce
  note fl = flush_refines [OF assms [unfolded s] f]
  have "refine_inv L cont path healthy dbp (fst (round_do L s x)) \<and>
    registry_do (registry_of cont dbp s) x = (registry_of cont dbp (fst (round_do L s x)), snd (round_do L s x))"
  proof (cases x)
    case (OSubmit k c)
    obtain w' r' res where "submit L w r k c = (w', r', res)" by (rule prod_cases3)
    with submit_refines [OF assms [unfolded s] this] OSubmit s show ?thesis by simp
  next
    case OTimer
    with assms s fl f show ?thesis by (simp add: timedFlushPendingSubmits_def)
  next
    case OFlush
    with s fl f show ?thesis by (simp add: flushPendingSubmits_def)
  qed
  then show "refine_inv L cont path healthy dbp (fst (round_do L s x))"
    and "registry_do (registry_of cont dbp s) x = (registry_of cont dbp (fst (round_do L s x)), snd (round_do L s x))"
    by simp_all
qed

interpretation registry: op_refinement "round_do L" registry_do "registry_of cont dbp" "refine_inv L cont path healthy dbp"
  for L cont path healthy dbp
  by unfold_locales (rule round_do_refines(2), assumption, rule round_do_refines(1), assumption)

lemma newRound_refines:
  assumes L: "leveldb_contract L cont path" and W: "working L path healthy" and h: "healthy w"
    and n: "newRound L w0 e dbdir options = (w, Inr r)" and i: "snd (ldb_Items L w (r_db r)) = None"
  shows "refine_inv L cont path healthy (roundPath dbdir e) (w, r)"
    and "registry_of cont (roundPath dbdir e) (w, r) = \<lparr>reg_room = r_maxMembers r,
      reg_entries = (case cont w0 (roundPath dbdir e) of None \<Rightarrow> Map.empty | Some m \<Rightarrow> m)\<rparr>"
proof -
  let ?p = "roundPath dbdir e"
  obtain b where o: "ldb_OpenFile L w0 ?p b = (w, Inr (r_db r))" and rb: "r_batch r = []"
    using n by (auto simp: newRound_def Let_def split: prod.splits sum.splits)
  note c = contract_open [OF L o]
  show "refine_inv L cont path healthy ?p (w, r)"
    using newRound_ok [OF L n i] c L W h unfolding refine_inv_def by auto
  show "registry_of cont ?p (w, r) = \<lparr>reg_room = r_maxMembers r,
      reg_entries = (case cont w0 ?p of None \<Rightarrow> Map.empty | Some m \<Rightarrow> m)\<rparr>"
    using c(3) rb by (simp add: registry_of_def)
qed

section \<open>Property\<close>

text \<open>
  C30: The registration round refines a bounded map. For every sequence of submissions, timer firings
  and flushes after a round was opened, as long as its database works, the verdicts are exactly those
  of a map that starts with the stored challenges and holds at most \<open>maxMembers\<close> entries: full,
  already submitted, conflicting or accepted. Batching and flushing never change a verdict, and the
  map at the end is what is stored plus what is still pending.
\<close>

theorem round_refines_registry:
  assumes "leveldb_contract L cont path" and "working L path healthy" and "healthy w"
    and "newRound L w0 e dbdir options = (w, Inr r)" and "snd (ldb_Items L w (r_db r)) = None"
    and "run_calls (round_do L) (w, r) ops = (s', verdicts)"
  shows "run_calls registry_do \<lparr>reg_room = r_maxMembers r,
      reg_entries = (case cont w0 (roundPath dbdir e) of None \<Rightarrow> Map.empty | Some m \<Rightarrow> m)\<rparr> ops
    = (registry_of cont (roundPath dbdir e) s', verdicts)"
  using registry.run_sim(1) [OF newRound_refines(1) [OF assms(1-5)] assms(6)] newRound_refines(2) [OF assms(1-5)]
  by simp

lemma ref_working: "working ref_ldb ref_path (\<lambda>w. \<not> diskFull w)"
  by (auto simp: working_def ref_ldb_def ref_append_def ref_lookup_def split: option.splits if_splits)

theorem round_refines_registry_witness:
  "\<exists>s'. run_calls (round_do ref_ldb) (demo_world [Some ''db/rounds/1''] [(''db/rounds/1'', [])], demo_round 0 [] [])
       [OSubmit [7] [70], OTimer] = (s', [Some Accepted, None]) \<and>
     reg_entries (registry_of ref_cont ''db/rounds/1'' s') = [[7] \<mapsto> [70]]"
proof -
  let ?s0 = "(demo_world [Some ''db/rounds/1''] [(''db/rounds/1'', [])], demo_round 0 [] [])"
  let ?ops = "[OSubmit [7] [70], OTimer]"
  obtain s' outs where r: "run_calls (round_do ref_ldb) ?s0 ?ops = (s', outs)" by fastforce
  have "outs = [Some Accepted, None]" using r by (auto simp: demo_submit demo_flush verdict_of_def)
  moreover have "run_calls registry_do \<lparr>reg_room = r_maxMembers (demo_round 0 [] []),
      reg_entries = (case ref_cont (demo_world [] []) (roundPath ''db'' 1) of None \<Rightarrow> Map.empty | Some m \<Rightarrow> m)\<rparr> ?ops
    = (registry_of ref_cont (roundPath ''db'' 1) s', outs)"
    by (rule round_refines_registry [of ref_ldb ref_cont ref_path "\<lambda>w. \<not> diskFull w", OF ref_leveldb_contract ref_working _
          demo_open demo_items r]) (simp add: demo_world_def)
  ultimately have "registry_of ref_cont ''db/rounds/1'' s' = \<lparr>reg_room = 3, reg_entries = [[7] \<mapsto> [70]]\<rparr>"
    by (simp add: demo_path demo_round_def ref_cont_def demo_world_def)
  with r \<open>outs = [Some Accepted, None]\<close> show ?thesis by auto
qed

end
