(* ===== verification/Codec.thy ===== *)
theory Codec
  imports Shared
begin

text \<open>
  The Merkle proof of \<open>shared/shared.go\<close>, its hand-written SCALE encoder and decoder, and the
  non-interactive proof \<open>NIP\<close>. The \<open>go-scale\<close> library is a record of its operations; what the
  codec relies on is \<open>scale_contract\<close>.
\<close>

section \<open>The go-scale library\<close>

text \<open>
  \<open>'w\<close> is the state of an encoder with its writer, \<open>'r\<close> of a decoder with its reader. An
  encoding call returns the number of bytes written and an error, a decoding call an error or
  the value and the number of bytes read.
\<close>

record ('w, 'r) scale_api =
  sc_EncodeByteSliceWithLimit :: "'w \<Rightarrow> bytes \<Rightarrow> u32 \<Rightarrow> 'w \<times> nat \<times> goerr option"
  sc_EncodeLen :: "'w \<Rightarrow> u32 \<Rightarrow> u32 \<Rightarrow> 'w \<times> nat \<times> goerr option"
  sc_EncodeCompact64 :: "'w \<Rightarrow> u64 \<Rightarrow> 'w \<times> nat \<times> goerr option"
  sc_EncodeOption :: "('w \<Rightarrow> u64 \<Rightarrow> 'w \<times> nat \<times> goerr option) \<Rightarrow> 'w \<Rightarrow> u64 option \<Rightarrow> 'w \<times> nat \<times> goerr option"
  sc_DecodeByteSliceWithLimit :: "'r \<Rightarrow> u32 \<Rightarrow> 'r \<times> (goerr + bytes \<times> nat)"
  sc_DecodeLen :: "'r \<Rightarrow> u32 \<Rightarrow> 'r \<times> (goerr + u32 \<times> nat)"
  sc_DecodeCompact64 :: "'r \<Rightarrow> 'r \<times> (goerr + u64 \<times> nat)"
  sc_DecodeOption :: "('r \<Rightarrow> 'r \<times> (goerr + u64 \<times> nat)) \<Rightarrow> 'r \<Rightarrow> 'r \<times> (goerr + u64 option \<times> nat)"

section \<open>Merkle proofs\<close>

record MerkleProof =
  Root :: bytes
  ProvenLeaves :: "bytes list"
  ProofNodes :: "bytes list"

record NIP = MerkleProof +
  Epoch :: uint
  Leaves :: u64

text \<open>The loops over \<open>[][]byte\<close> of the encoder.\<close>

fun encodeSlices ::
  "('w, 'r) scale_api \<Rightarrow> 'w \<Rightarrow> bytes list \<Rightarrow> nat \<Rightarrow> 'w \<times> nat \<times> goerr option" where
  "encodeSlices S w [] tot = (w, tot, None)"
| "encodeSlices S w (byteSlice # rest) tot =
     (case sc_EncodeByteSliceWithLimit S w byteSlice 32 of
        (w, n, Some err) \<Rightarrow> (w, tot, Some (Wrap ''EncodeByteSliceWithLimit failed'' err))
      | (w, n, None) \<Rightarrow> encodeSlices S w rest (tot + n))"

definition MerkleProof_EncodeScale ::
  "('w, 'r) scale_api \<Rightarrow> MerkleProof \<Rightarrow> 'w \<Rightarrow> 'w \<times> nat \<times> goerr option" where
  "MerkleProof_EncodeScale S t w =
     (case sc_EncodeByteSliceWithLimit S w (Root t) 32 of
        (w, n, Some err) \<Rightarrow> (w, 0, Some err)
      | (w, tot, None) \<Rightarrow>
        (case sc_EncodeLen S w (of_nat (length (ProvenLeaves t))) 150 of
           (w, n, Some err) \<Rightarrow> (w, tot, Some (Wrap ''EncodeLen failed'' err))
         | (w, n, None) \<Rightarrow>
           (case encodeSlices S w (ProvenLeaves t) (tot + n) of
              (w, tot, Some err) \<Rightarrow> (w, tot, Some err)
            | (w, tot, None) \<Rightarrow>
              (case sc_EncodeLen S w (of_nat (length (ProofNodes t))) 5400 of
                 (w, n, Some err) \<Rightarrow> (w, tot, Some (Wrap ''EncodeLen failed'' err))
               | (w, n, None) \<Rightarrow> encodeSlices S w (ProofNodes t) (tot + n)))))"

text \<open>The loop of the decoder: \<open>k\<close> slices are still to be read.\<close>

fun decodeSlices ::
  "('w, 'r) scale_api \<Rightarrow> 'r \<Rightarrow> u32 \<Rightarrow> nat \<Rightarrow> bytes list \<Rightarrow> nat \<Rightarrow> 'r \<times> (goerr + bytes list \<times> nat)" where
  "decodeSlices S d innerLimit 0 result tot = (d, Inr (result, tot))"
| "decodeSlices S d innerLimit (Suc k) result tot =
     (case sc_DecodeByteSliceWithLimit S d innerLimit of
        (d, Inl err) \<Rightarrow> (d, Inl (Wrap ''DecodeByteSlice failed'' err))
      | (d, Inr (val, n)) \<Rightarrow> decodeSlices S d innerLimit k (result @ [val]) (tot + n))"

definition DecodeSliceOfByteSliceWithLimit ::
  "('w, 'r) scale_api \<Rightarrow> 'r \<Rightarrow> u32 \<Rightarrow> u32 \<Rightarrow> 'r \<times> (goerr + bytes list \<times> nat)" where
  "DecodeSliceOfByteSliceWithLimit S d outerLimit innerLimit =
     (case sc_DecodeLen S d outerLimit of
        (d, Inl err) \<Rightarrow> (d, Inl (Wrap ''DecodeLen failed'' err))
      | (d, Inr (resultLen, tot)) \<Rightarrow>
        (if resultLen = 0 then (d, Inr ([], tot))
         else decodeSlices S d innerLimit (unat resultLen) [] tot))"

text \<open>The receiver \<open>t\<close> is updated field by field, also when a later field fails.\<close>

definition MerkleProof_DecodeScale ::
  "('w, 'r) scale_api \<Rightarrow> MerkleProof \<Rightarrow> 'r \<Rightarrow> 'r \<times> MerkleProof \<times> nat \<times> goerr option" where
  "MerkleProof_DecodeScale S t dec =
     (case sc_DecodeByteSliceWithLimit S dec 32 of
        (dec, Inl err) \<Rightarrow> (dec, t, 0, Some err)
      | (dec, Inr (field, tot)) \<Rightarrow>
        let t = t\<lparr>Root := field\<rparr> in
        (case DecodeSliceOfByteSliceWithLimit S dec 150 32 of
           (dec, Inl err) \<Rightarrow> (dec, t, tot, Some err)
         | (dec, Inr (field, n)) \<Rightarrow>
           let t = t\<lparr>ProvenLeaves := field\<rparr>; tot = tot + n in
           (case DecodeSliceOfByteSliceWithLimit S dec 5400 32 of
              (dec, Inl err) \<Rightarrow> (dec, t, tot, Some err)
            | (dec, Inr (field, n)) \<Rightarrow> (dec, t\<lparr>ProofNodes := field\<rparr>, tot + n, None))))"

section \<open>What the codec relies on\<close>

text \<open>
  \<open>wr\<close> reads the bytes an encoder has written, \<open>rd\<close> the bytes a decoder has left; \<open>eb\<close> and
  \<open>el\<close> are the encodings of a byte slice and of a length. Writing never
  fails within the limit (the writer is a memory buffer), a value over the limit is refused,
  reading an encoding gives the value back, and no value over the limit is ever returned.
\<close>

definition enc_bytes_ok :: "('w, 'r) scale_api \<Rightarrow> ('w \<Rightarrow> bytes) \<Rightarrow> (bytes \<Rightarrow> bytes) \<Rightarrow> bool" where
  "enc_bytes_ok S wr eb \<longleftrightarrow> (\<forall>w b lim.
     if length b \<le> unat lim
     then \<exists>w'. sc_EncodeByteSliceWithLimit S w b lim = (w', length (eb b), None) \<and> wr w' = wr w @ eb b
     else \<exists>w' n e. sc_EncodeByteSliceWithLimit S w b lim = (w', n, Some e))"

definition enc_len_ok :: "('w, 'r) scale_api \<Rightarrow> ('w \<Rightarrow> bytes) \<Rightarrow> (u32 \<Rightarrow> bytes) \<Rightarrow> bool" where
  "enc_len_ok S wr el \<longleftrightarrow> (\<forall>w l lim.
     if l \<le> lim
     then \<exists>w'. sc_EncodeLen S w l lim = (w', length (el l), None) \<and> wr w' = wr w @ el l
     else \<exists>w' n e. sc_EncodeLen S w l lim = (w', n, Some e))"

definition dec_bytes_ok :: "('w, 'r) scale_api \<Rightarrow> ('r \<Rightarrow> bytes) \<Rightarrow> (bytes \<Rightarrow> bytes) \<Rightarrow> bool" where
  "dec_bytes_ok S rd eb \<longleftrightarrow>
     (\<forall>r b lim rest. rd r = eb b @ rest \<longrightarrow> length b \<le> unat lim \<longrightarrow>
        (\<exists>r'. sc_DecodeByteSliceWithLimit S r lim = (r', Inr (b, length (eb b))) \<and> rd r' = rest)) \<and>
     (\<forall>r lim r' b n. sc_DecodeByteSliceWithLimit S r lim = (r', Inr (b, n)) \<longrightarrow> length b \<le> unat lim)"

definition dec_len_ok :: "('w, 'r) scale_api \<Rightarrow> ('r \<Rightarrow> bytes) \<Rightarrow> (u32 \<Rightarrow> bytes) \<Rightarrow> bool" where
  "dec_len_ok S rd el \<longleftrightarrow>
     (\<forall>r l lim rest. rd r = el l @ rest \<longrightarrow> l \<le> lim \<longrightarrow>
        (\<exists>r'. sc_DecodeLen S r lim = (r', Inr (l, length (el l))) \<and> rd r' = rest)) \<and>
     (\<forall>r lim r' l n. sc_DecodeLen S r lim = (r', Inr (l, n)) \<longrightarrow> l \<le> lim)"

definition scale_contract ::
  "('w, 'r) scale_api \<Rightarrow> ('w \<Rightarrow> bytes) \<Rightarrow> ('r \<Rightarrow> bytes) \<Rightarrow> (bytes \<Rightarrow> bytes) \<Rightarrow> (u32 \<Rightarrow> bytes) \<Rightarrow> bool" where
  "scale_contract S wr rd eb el \<longleftrightarrow>
     enc_bytes_ok S wr eb \<and> enc_len_ok S wr el \<and> dec_bytes_ok S rd eb \<and> dec_len_ok S rd el"

text \<open>The limits of the wire format, and the bytes of a proof within them.\<close>

definition proof_within_limits :: "'a MerkleProof_scheme \<Rightarrow> bool" where
  "proof_within_limits p \<longleftrightarrow>
     length (Root p) \<le> 32 \<and>
     length (ProvenLeaves p) \<le> 150 \<and> (\<forall>l \<in> set (ProvenLeaves p). length l \<le> 32) \<and>
     length (ProofNodes p) \<le> 5400 \<and> (\<forall>n \<in> set (ProofNodes p). length n \<le> 32)"

definition proof_bytes :: "(bytes \<Rightarrow> bytes) \<Rightarrow> (u32 \<Rightarrow> bytes) \<Rightarrow> MerkleProof \<Rightarrow> bytes" where
  "proof_bytes eb el p =
     eb (Root p) @ el (of_nat (length (ProvenLeaves p))) @ concat (map eb (ProvenLeaves p))
       @ el (of_nat (length (ProofNodes p))) @ concat (map eb (ProofNodes p))"

section \<open>Lemmas\<close>

lemma scale_EncodeBytes:
  assumes "scale_contract S wr rd eb el" and "length b \<le> unat lim"
  obtains w' where "sc_EncodeByteSliceWithLimit S w b lim = (w', length (eb b), None)"
    and "wr w' = wr w @ eb b"
  using assms unfolding scale_contract_def enc_bytes_ok_def by meson

lemma scale_EncodeBytes_over:
  assumes "scale_contract S wr rd eb el" and "unat lim < length b"
  obtains w' n e where "sc_EncodeByteSliceWithLimit S w b lim = (w', n, Some e)"
  using assms unfolding scale_contract_def enc_bytes_ok_def by (meson not_le)

lemma scale_EncodeLen:
  assumes "scale_contract S wr rd eb el" and "l \<le> lim"
  obtains w' where "sc_EncodeLen S w l lim = (w', length (el l), None)"
    and "wr w' = wr w @ el l"
  using assms unfolding scale_contract_def enc_len_ok_def by meson

lemma scale_EncodeLen_over:
  assumes "scale_contract S wr rd eb el" and "lim < l"
  obtains w' n e where "sc_EncodeLen S w l lim = (w', n, Some e)"
  using assms unfolding scale_contract_def enc_len_ok_def by (meson not_le)

lemma scale_DecodeBytes:
  assumes "scale_contract S wr rd eb el" and "rd r = eb b @ rest" and "length b \<le> unat lim"
  obtains r' where "sc_DecodeByteSliceWithLimit S r lim = (r', Inr (b, length (eb b)))"
    and "rd r' = rest"
  using assms unfolding scale_contract_def dec_bytes_ok_def by meson

lemma scale_DecodeBytes_limit:
  assumes "scale_contract S wr rd eb el" and "sc_DecodeByteSliceWithLimit S r lim = (r', Inr (b, n))"
  shows "length b \<le> unat lim"
  using assms unfolding scale_contract_def dec_bytes_ok_def by meson

lemma scale_DecodeLen:
  assumes "scale_contract S wr rd eb el" and "rd r = el l @ rest" and "l \<le> lim"
  obtains r' where "sc_DecodeLen S r lim = (r', Inr (l, length (el l)))" and "rd r' = rest"
  using assms unfolding scale_contract_def dec_len_ok_def by meson

lemma scale_DecodeLen_limit:
  assumes "scale_contract S wr rd eb el" and "sc_DecodeLen S r lim = (r', Inr (l, n))"
  shows "l \<le> lim"
  using assms unfolding scale_contract_def dec_len_ok_def by meson

lemma encodeSlices_ok:
  assumes C: "scale_contract S wr rd eb el" and "\<forall>b \<in> set bs. length b \<le> 32"
  shows "\<exists>w'. encodeSlices S w bs tot = (w', tot + length (concat (map eb bs)), None)
    \<and> wr w' = wr w @ concat (map eb bs)"
  using assms(2)
proof (induction bs arbitrary: w tot)
  case (Cons b bs)
  then have b: "length b \<le> unat (32 :: u32)" by simp
  obtain w1 where "sc_EncodeByteSliceWithLimit S w b 32 = (w1, length (eb b), None)"
    and "wr w1 = wr w @ eb b"
    by (rule scale_EncodeBytes [OF C b])
  with Cons.IH [of w1 "tot + length (eb b)"] Cons.prems show ?case by auto
qed simp

lemma decodeSlices_ok:
  assumes C: "scale_contract S wr rd eb el" and "\<forall>b \<in> set bs. length b \<le> 32"
    and "rd r = concat (map eb bs) @ rest"
  shows "\<exists>r'. decodeSlices S r 32 (length bs) acc tot
      = (r', Inr (acc @ bs, tot + length (concat (map eb bs)))) \<and> rd r' = rest"
  using assms(2,3)
proof (induction bs arbitrary: r acc tot)
  case (Cons b bs)
  then have b: "length b \<le> unat (32 :: u32)" and rd: "rd r = eb b @ concat (map eb bs) @ rest"
    by simp_all
  obtain r1 where "sc_DecodeByteSliceWithLimit S r 32 = (r1, Inr (b, length (eb b)))"
    and "rd r1 = concat (map eb bs) @ rest"
    by (rule scale_DecodeBytes [OF C rd b])
  with Cons.IH [of r1 "acc @ [b]" "tot + length (eb b)"] Cons.prems show ?case by auto
qed simp

lemma DecodeSliceOfByteSlice_ok:
  assumes C: "scale_contract S wr rd eb el" and bs: "\<forall>b \<in> set bs. length b \<le> 32"
    and len: "length bs \<le> unat lim"
    and rd: "rd r = el (of_nat (length bs)) @ concat (map eb bs) @ rest"
  shows "\<exists>r'. DecodeSliceOfByteSliceWithLimit S r lim 32
      = (r', Inr (bs, length (el (of_nat (length bs))) + length (concat (map eb bs)))) \<and> rd r' = rest"
proof -
  from len have u: "unat (of_nat (length bs) :: u32) = length bs" by (rule unat_of_nat_upto)
  with len have le: "of_nat (length bs) \<le> lim" by (simp add: word_le_nat_alt)
  obtain r1 where r1: "sc_DecodeLen S r lim = (r1, Inr (of_nat (length bs), length (el (of_nat (length bs)))))"
    and rd1: "rd r1 = concat (map eb bs) @ rest"
    by (rule scale_DecodeLen [OF C rd le])
  show ?thesis
  proof (cases "bs = []")
    case True
    with r1 rd1 show ?thesis by (simp add: DecodeSliceOfByteSliceWithLimit_def)
  next
    case False
    then have "length bs \<noteq> 0" by simp
    with u have nz: "(of_nat (length bs) :: u32) \<noteq> 0" by (metis unsigned_0)
    from decodeSlices_ok [OF C bs rd1, of "[]" "length (el (of_nat (length bs)))"] r1 u nz
    show ?thesis by (simp add: DecodeSliceOfByteSliceWithLimit_def)
  qed
qed

lemma decodeSlices_limit:
  assumes C: "scale_contract S wr rd eb el"
    and "decodeSlices S r lim k acc tot = (r', Inr (bs, n))"
    and "\<forall>b \<in> set acc. length b \<le> unat lim"
  shows "(\<forall>b \<in> set bs. length b \<le> unat lim) \<and> length bs = length acc + k"
  using assms(2,3)
proof (induction k arbitrary: r acc tot)
  case (Suc k)
  from Suc.prems(1) obtain r1 b m where d: "sc_DecodeByteSliceWithLimit S r lim = (r1, Inr (b, m))"
    and rest: "decodeSlices S r1 lim k (acc @ [b]) (tot + m) = (r', Inr (bs, n))"
    by (auto split: prod.splits sum.splits)
  from scale_DecodeBytes_limit [OF C d] Suc.prems(2) have "\<forall>b \<in> set (acc @ [b]). length b \<le> unat lim"
    by simp
  from Suc.IH [OF rest this] show ?case by simp
qed simp

lemma DecodeSliceOfByteSlice_limit:
  assumes C: "scale_contract S wr rd eb el"
    and "DecodeSliceOfByteSliceWithLimit S r outer inner = (r', Inr (bs, n))"
  shows "length bs \<le> unat outer \<and> (\<forall>b \<in> set bs. length b \<le> unat inner)"
proof -
  obtain r1 l m where d: "sc_DecodeLen S r outer = (r1, Inr (l, m))"
    using assms(2) by (auto simp: DecodeSliceOfByteSliceWithLimit_def split: prod.splits sum.splits)
  with scale_DecodeLen_limit [OF C d] assms(2) decodeSlices_limit [OF C, of r1 inner "unat l" "[]" m r' bs n]
  show ?thesis
    by (auto simp: DecodeSliceOfByteSliceWithLimit_def word_le_nat_alt split: if_splits)
qed

lemma MerkleProof_EncodeScale_ok:
  assumes C: "scale_contract S wr rd eb el" and p: "proof_within_limits p"
  shows "\<exists>w'. MerkleProof_EncodeScale S p w = (w', length (proof_bytes eb el p), None)
    \<and> wr w' = wr w @ proof_bytes eb el p"
proof -
  have root: "length (Root p) \<le> unat (32 :: u32)"
    and l: "of_nat (length (ProvenLeaves p)) \<le> (150 :: u32)"
    and n: "of_nat (length (ProofNodes p)) \<le> (5400 :: u32)"
    using p unat_of_nat_upto [of "length (ProvenLeaves p)" "150 :: u32"]
      unat_of_nat_upto [of "length (ProofNodes p)" "5400 :: u32"]
    by (simp_all add: proof_within_limits_def word_le_nat_alt)
  have pl: "\<forall>b \<in> set (ProvenLeaves p). length b \<le> 32" and pn: "\<forall>b \<in> set (ProofNodes p). length b \<le> 32"
    using p by (simp_all add: proof_within_limits_def)
  obtain w1 where 1: "sc_EncodeByteSliceWithLimit S w (Root p) 32 = (w1, length (eb (Root p)), None)"
    "wr w1 = wr w @ eb (Root p)" by (rule scale_EncodeBytes [OF C root])
  obtain w2 where 2: "sc_EncodeLen S w1 (of_nat (length (ProvenLeaves p))) 150
      = (w2, length (el (of_nat (length (ProvenLeaves p)))), None)"
    "wr w2 = wr w1 @ el (of_nat (length (ProvenLeaves p)))" by (rule scale_EncodeLen [OF C l])
  obtain w3 where 3: "encodeSlices S w2 (ProvenLeaves p) (length (eb (Root p))
        + length (el (of_nat (length (ProvenLeaves p)))))
      = (w3, length (eb (Root p)) + length (el (of_nat (length (ProvenLeaves p))))
        + length (concat (map eb (ProvenLeaves p))), None)"
    "wr w3 = wr w2 @ concat (map eb (ProvenLeaves p))" using encodeSlices_ok [OF C pl] by blast
  obtain w4 where 4: "sc_EncodeLen S w3 (of_nat (length (ProofNodes p))) 5400
      = (w4, length (el (of_nat (length (ProofNodes p)))), None)"
    "wr w4 = wr w3 @ el (of_nat (length (ProofNodes p)))" by (rule scale_EncodeLen [OF C n])
  from encodeSlices_ok [OF C pn, of w4 "length (eb (Root p)) + length (el (of_nat (length (ProvenLeaves p))))
      + length (concat (map eb (ProvenLeaves p))) + length (el (of_nat (length (ProofNodes p))))"] 1 2 3 4
  show ?thesis by (auto simp: MerkleProof_EncodeScale_def proof_bytes_def add.assoc)
qed

lemma MerkleProof_DecodeScale_ok:
  assumes C: "scale_contract S wr rd eb el" and p: "proof_within_limits p"
    and rd: "rd r = proof_bytes eb el p @ rest"
  shows "\<exists>r'. MerkleProof_DecodeScale S t r = (r', p, length (proof_bytes eb el p), None)
    \<and> rd r' = rest"
proof -
  let ?pl = "ProvenLeaves p" and ?pn = "ProofNodes p"
  have root: "length (Root p) \<le> unat (32 :: u32)" and l: "length ?pl \<le> unat (150 :: u32)"
    and n: "length ?pn \<le> unat (5400 :: u32)"
    and pl: "\<forall>b \<in> set ?pl. length b \<le> 32" and pn: "\<forall>b \<in> set ?pn. length b \<le> 32"
    using p by (simp_all add: proof_within_limits_def)
  let ?r2 = "el (of_nat (length ?pn)) @ concat (map eb ?pn) @ rest"
  let ?r1 = "el (of_nat (length ?pl)) @ concat (map eb ?pl) @ ?r2"
  have rd0: "rd r = eb (Root p) @ ?r1" using rd by (simp add: proof_bytes_def)
  obtain r1 where 1: "sc_DecodeByteSliceWithLimit S r 32 = (r1, Inr (Root p, length (eb (Root p))))"
    and rd1: "rd r1 = ?r1" by (rule scale_DecodeBytes [OF C rd0 root])
  obtain r2 where 2: "DecodeSliceOfByteSliceWithLimit S r1 150 32
      = (r2, Inr (?pl, length (el (of_nat (length ?pl))) + length (concat (map eb ?pl))))"
    and rd2: "rd r2 = ?r2" using DecodeSliceOfByteSlice_ok [OF C pl l rd1] by blast
  obtain r3 where 3: "DecodeSliceOfByteSliceWithLimit S r2 5400 32
      = (r3, Inr (?pn, length (el (of_nat (length ?pn))) + length (concat (map eb ?pn))))"
    and rd3: "rd r3 = rest" using DecodeSliceOfByteSlice_ok [OF C pn n rd2] by blast
  from 1 2 3 rd3 show ?thesis
    by (simp add: MerkleProof_DecodeScale_def proof_bytes_def add.assoc)
qed

section \<open>A concrete SCALE library\<close>

text \<open>Buffers are byte lists and lengths are four bytes, to evaluate the codec on concrete proofs.\<close>

definition demo_len :: "u32 \<Rightarrow> bytes" where
  "demo_len l = PutUint32_BE l"

definition demo_slice :: "bytes \<Rightarrow> bytes" where
  "demo_slice b = demo_len (of_nat (length b)) @ b"

definition demo_read_len :: "bytes \<Rightarrow> u32" where
  "demo_read_len r = foldl (\<lambda>acc b. push_bit 8 acc + ucast b) 0 (take 4 r)"

definition demo_scale :: "(bytes, bytes) scale_api" where
  "demo_scale =
     \<lparr>sc_EncodeByteSliceWithLimit = (\<lambda>w b lim. if length b \<le> unat lim
         then (w @ demo_slice b, length (demo_slice b), None) else (w, 0, Some (Opaque ''limit''))),
      sc_EncodeLen = (\<lambda>w l lim. if l \<le> lim
         then (w @ demo_len l, length (demo_len l), None) else (w, 0, Some (Opaque ''limit''))),
      sc_EncodeCompact64 = (\<lambda>w v. (w @ PutUint64_BE v, 8, None)),
      sc_EncodeOption = (\<lambda>enc w v. case v of None \<Rightarrow> (w @ [0], 1, None)
         | Some x \<Rightarrow> (case enc (w @ [1]) x of (w', n, e) \<Rightarrow> (w', Suc n, e))),
      sc_DecodeByteSliceWithLimit = (\<lambda>r lim. let l = demo_read_len r in
         if length r < 4 \<or> length r < 4 + unat l then (r, Inl ErrEOF)
         else if lim < l then (r, Inl (Opaque ''limit''))
         else (drop (4 + unat l) r, Inr (take (unat l) (drop 4 r), 4 + unat l))),
      sc_DecodeLen = (\<lambda>r lim. let l = demo_read_len r in
         if length r < 4 then (r, Inl ErrEOF)
         else if lim < l then (r, Inl (Opaque ''limit'')) else (drop 4 r, Inr (l, 4))),
      sc_DecodeCompact64 = (\<lambda>r. if length r < 8 then (r, Inl ErrEOF)
         else (drop 8 r, Inr (Uint64_BE (take 8 r), 8))),
      sc_DecodeOption = (\<lambda>dec r. case r of [] \<Rightarrow> (r, Inl ErrEOF)
         | b # r' \<Rightarrow> if b = 0 then (r', Inr (None, 1))
             else (case dec r' of (r'', Inl e) \<Rightarrow> (r'', Inl e)
               | (r'', Inr (v, n)) \<Rightarrow> (r'', Inr (Some v, Suc n))))\<rparr>"

lemma demo_read_len [simp]: "demo_read_len (demo_len l @ rest) = l"
  by (simp add: demo_read_len_def demo_len_def PutUint32_BE_def foldl_put_be take_bit_word_eq_self)

lemma demo_len_length [simp]: "length (demo_len l) = 4"
  by (simp add: demo_len_def codec_simps)

lemma demo_scale_contract: "scale_contract demo_scale (\<lambda>w. w) (\<lambda>r. r) demo_slice demo_len"
proof -
  have "enc_bytes_ok demo_scale (\<lambda>w. w) demo_slice"
    by (simp add: enc_bytes_ok_def demo_scale_def)
  moreover have "enc_len_ok demo_scale (\<lambda>w. w) demo_len"
    by (simp add: enc_len_ok_def demo_scale_def)
  moreover have "dec_bytes_ok demo_scale (\<lambda>r. r) demo_slice"
    unfolding dec_bytes_ok_def
  proof (intro conjI allI impI)
    fix r b lim rest
    assume r: "r = demo_slice b @ rest" and b: "length b \<le> unat (lim :: u32)"
    from b have "unat (of_nat (length b) :: u32) = length b" by (rule unat_of_nat_upto)
    with r b show "\<exists>r'. sc_DecodeByteSliceWithLimit demo_scale r lim = (r', Inr (b, length (demo_slice b)))
        \<and> r' = rest"
      by (simp add: demo_scale_def demo_slice_def word_less_nat_alt)
  next
    fix r lim r' b n
    assume "sc_DecodeByteSliceWithLimit demo_scale r lim = (r', Inr (b, n))"
    then show "length b \<le> unat lim"
      by (auto simp: demo_scale_def Let_def word_less_nat_alt split: if_splits)
  qed
  moreover have "dec_len_ok demo_scale (\<lambda>r. r) demo_len"
    by (auto simp: dec_len_ok_def demo_scale_def Let_def split: if_splits)
  ultimately show ?thesis by (simp add: scale_contract_def)
qed

section \<open>Properties\<close>

text \<open>
  C13: Encoding a Merkle proof that respects the wire limits succeeds, reports exactly the number
  of bytes it wrote, and decoding those bytes (whatever follows them, and whatever the receiver
  held before) gives the same proof back, consumes exactly the encoding and reports its length.
\<close>

theorem merkle_proof_scale_roundtrip:
  assumes "scale_contract S wr rd eb el" and "proof_within_limits p"
  shows "\<exists>w' enc. MerkleProof_EncodeScale S p w = (w', length enc, None) \<and> wr w' = wr w @ enc \<and>
    (\<forall>r rest t. rd r = enc @ rest \<longrightarrow>
       (\<exists>r'. MerkleProof_DecodeScale S t r = (r', p, length enc, None) \<and> rd r' = rest))"
  using MerkleProof_EncodeScale_ok [OF assms, of w] MerkleProof_DecodeScale_ok [OF assms] by blast

definition demo_proof :: MerkleProof where
  "demo_proof = \<lparr>Root = [1, 2], ProvenLeaves = [[3], [4, 5]], ProofNodes = [[6], [], [7]]\<rparr>"

theorem merkle_proof_scale_roundtrip_witness:
  "\<exists>w' enc r'. MerkleProof_EncodeScale demo_scale demo_proof [] = (w', length enc, None) \<and> w' = enc \<and>
     MerkleProof_DecodeScale demo_scale demo_proof (enc @ [7]) = (r', demo_proof, length enc, None) \<and> r' = [7]"
proof -
  have p: "proof_within_limits demo_proof"
    by (simp add: proof_within_limits_def demo_proof_def)
  show ?thesis
    using merkle_proof_scale_roundtrip [OF demo_scale_contract p, of "[]"] by (metis append_Nil)
qed

text \<open>
  A proof that the decoder accepts respects the wire limits, however the input was made: at
  most 150 leaves, at most 5400 nodes and no element longer than 32 bytes.
\<close>

lemma merkle_proof_decode_within_limits:
  assumes "scale_contract S wr rd eb el"
    and "MerkleProof_DecodeScale S t r = (r', p, n, None)"
  shows "proof_within_limits p"
proof -
  obtain r1 root m1 where 1: "sc_DecodeByteSliceWithLimit S r 32 = (r1, Inr (root, m1))"
    using assms(2) by (auto simp: MerkleProof_DecodeScale_def split: prod.splits sum.splits)
  with assms(2) obtain r2 pl m2 where 2: "DecodeSliceOfByteSliceWithLimit S r1 150 32 = (r2, Inr (pl, m2))"
    by (auto simp: MerkleProof_DecodeScale_def Let_def split: prod.splits sum.splits)
  with 1 assms(2) obtain r3 pn m3 where 3: "DecodeSliceOfByteSliceWithLimit S r2 5400 32 = (r3, Inr (pn, m3))"
    and p: "p = t\<lparr>Root := root, ProvenLeaves := pl, ProofNodes := pn\<rparr>"
    by (auto simp: MerkleProof_DecodeScale_def Let_def split: prod.splits sum.splits)
  from scale_DecodeBytes_limit [OF assms(1) 1] DecodeSliceOfByteSlice_limit [OF assms(1) 2]
    DecodeSliceOfByteSlice_limit [OF assms(1) 3] p
  show ?thesis by (simp add: proof_within_limits_def)
qed

text \<open>
  A proof with more leaves than the security parameter allows on the wire is refused by the
  encoder with an error that names the length, and nothing of the leaves is written.
\<close>

lemma merkle_proof_encode_too_many_leaves:
  assumes "scale_contract S wr rd eb el" and "length (Root p) \<le> 32"
    and "150 < length (ProvenLeaves p)" and "length (ProvenLeaves p) < 2 ^ 32"
  shows "\<exists>w' n e. MerkleProof_EncodeScale S p w = (w', n, Some (Wrap ''EncodeLen failed'' e))"
proof -
  have root: "length (Root p) \<le> unat (32 :: u32)" using assms(2) by simp
  have "unat (of_nat (length (ProvenLeaves p)) :: u32) = length (ProvenLeaves p)"
    using assms(4) by (simp add: unat_of_nat)
  with assms(3) have l: "150 < (of_nat (length (ProvenLeaves p)) :: u32)" by (simp add: word_less_nat_alt)
  obtain w1 where "sc_EncodeByteSliceWithLimit S w (Root p) 32 = (w1, length (eb (Root p)), None)"
    by (rule scale_EncodeBytes [OF assms(1) root])
  moreover obtain w2 n e where "sc_EncodeLen S w1 (of_nat (length (ProvenLeaves p))) 150 = (w2, n, Some e)"
    by (rule scale_EncodeLen_over [OF assms(1) l])
  ultimately show ?thesis by (simp add: MerkleProof_EncodeScale_def)
qed

end
