(* ===== verification/Reg_DB.thy ===== *)
theory Reg_DB
  imports Reg_Round Codec
begin

text \<open>
  The registration service's database (\<open>registration/db.go\<close>): finished proofs under their round
  ids, and the current and the previous PoW challenge, in one leveldb. The XDR encoding of a proof
  is a parameter.
\<close>

section \<open>Data\<close>

record reg_proof = MerkleProof +
  pr_Members :: "bytes list"
  pr_NumLeaves :: u64

record proofData =
  pd_Proof :: reg_proof
  pd_ServicePubKey :: bytes
  pd_RoundID :: string

record xdr_api =
  xdr_Marshal :: "proofData \<Rightarrow> goerr + bytes"
  xdr_Unmarshal :: "bytes \<Rightarrow> goerr + proofData"

record 'h database =
  db_db :: 'h
  db_pubkey :: bytes

text \<open>The conversion \<open>[]byte(s)\<close> of a string.\<close>

definition str_bytes :: "string \<Rightarrow> bytes" where
  "str_bytes s = map (\<lambda>c. of_nat (of_char c)) s"

section \<open>Operations\<close>

definition newDatabase ::
  "('w, 'h) leveldb_api \<Rightarrow> 'w \<Rightarrow> string \<Rightarrow> bytes \<Rightarrow> 'w \<times> (goerr + 'h database)" where
  "newDatabase L w dbPath pubkey =
     (case ldb_OpenFile L w dbPath False of
        (w', Inl err) \<Rightarrow> (w', Inl (Wrap ''failed to open database'' err))
      | (w', Inr h) \<Rightarrow> (w', Inr \<lparr>db_db = h, db_pubkey = pubkey\<rparr>))"

definition database_Close :: "('w, 'h) leveldb_api \<Rightarrow> 'w \<Rightarrow> 'h database \<Rightarrow> 'w \<times> goerr option" where
  "database_Close L w d = ldb_Close L w (db_db d)"

definition serializeProof :: "xdr_api \<Rightarrow> proofData \<Rightarrow> goerr + bytes" where
  "serializeProof X p =
     (case xdr_Marshal X p of
        Inl err \<Rightarrow> Inl (Opaque ''serialization failure'')
      | Inr b \<Rightarrow> Inr b)"

definition proofOf :: "bytes \<Rightarrow> NIP \<Rightarrow> bytes list \<Rightarrow> proofData" where
  "proofOf pubkey nip members =
     \<lparr>pd_Proof = \<lparr>Root = Root nip, ProvenLeaves = ProvenLeaves nip, ProofNodes = ProofNodes nip,
                  pr_Members = members, pr_NumLeaves = Leaves nip\<rparr>,
      pd_ServicePubKey = pubkey,
      pd_RoundID = epochToRoundId (Epoch nip)\<rparr>"

definition SaveProof ::
  "('w, 'h) leveldb_api \<Rightarrow> xdr_api \<Rightarrow> 'w \<Rightarrow> 'h database \<Rightarrow> NIP \<Rightarrow> bytes list \<Rightarrow> 'w \<times> goerr option" where
  "SaveProof L X w d nip members =
     (let p = proofOf (db_pubkey d) nip members
      in case serializeProof X p of
           Inl err \<Rightarrow> (w, Some (Wrap ''failed serializing proof'' err))
         | Inr serialized \<Rightarrow>
             (case ldb_Put L w (db_db d) (str_bytes (pd_RoundID p)) serialized of
                (w', Some err) \<Rightarrow> (w', Some (Wrap ''storing proof in DB'' err))
              | (w', None) \<Rightarrow> (w', None)))"

definition GetProof ::
  "('w, 'h) leveldb_api \<Rightarrow> xdr_api \<Rightarrow> 'w \<Rightarrow> 'h database \<Rightarrow> string \<Rightarrow> goerr + proofData" where
  "GetProof L X w d roundID =
     (case ldb_Get L w (db_db d) (str_bytes roundID) of
        Inl err \<Rightarrow> Inl (Wrap ''get proof from DB'' err)
      | Inr data \<Rightarrow>
          (case xdr_Unmarshal X data of
             Inl err \<Rightarrow> Inl (Opaque ''failed to deserialize'')
           | Inr p \<Rightarrow> Inr p))"

definition powKey :: bytes where
  "powKey = str_bytes ''pow_challenge''"

definition powPrevKey :: bytes where
  "powPrevKey = str_bytes ''pow_challenge_previous''"

definition putChallengeAndCommit ::
  "('w, 'h) leveldb_api \<Rightarrow> 'w \<Rightarrow> 'h \<Rightarrow> bytes \<Rightarrow> 'w \<times> goerr option" where
  "putChallengeAndCommit L w h challenge =
     (case ldb_TxPut L w h powKey challenge of
        (w, Some err) \<Rightarrow> (ldb_TxDiscard L w h, Some (Wrap ''saving pow challenge'' err))
      | (w, None) \<Rightarrow> ldb_TxCommit L w h)"

text \<open>A failure to keep the previous challenge is only logged.\<close>

definition SavePowChallenge ::
  "('w, 'h) leveldb_api \<Rightarrow> 'w \<Rightarrow> 'h database \<Rightarrow> bytes \<Rightarrow> 'w \<times> goerr option" where
  "SavePowChallenge L w d challenge =
     (let h = db_db d in
      case ldb_OpenTransaction L w h of
        (w, Some err) \<Rightarrow> (w, Some err)
      | (w, None) \<Rightarrow>
          (case ldb_TxGet L w h powKey of
             Inl err \<Rightarrow>
               if errors_Is err ErrNotFound then putChallengeAndCommit L w h challenge
               else (ldb_TxDiscard L w h, Some (Wrap ''querying current pow challenge'' err))
           | Inr current \<Rightarrow>
               putChallengeAndCommit L (fst (ldb_TxPut L w h powPrevKey current)) h challenge))"

definition GetPowChallenges ::
  "('w, 'h) leveldb_api \<Rightarrow> 'w \<Rightarrow> 'h database \<Rightarrow> 'w \<times> (goerr + bytes \<times> bytes)" where
  "GetPowChallenges L w d =
     (let h = db_db d in
      case ldb_OpenTransaction L w h of
        (w, Some err) \<Rightarrow> (w, Inl err)
      | (w, None) \<Rightarrow>
          (case ldb_TxGet L w h powKey of
             Inl err \<Rightarrow> (ldb_TxDiscard L w h, Inl (Wrap ''getting current pow challenge'' err))
           | Inr current \<Rightarrow>
               (case ldb_TxGet L w h powPrevKey of
                  Inl err \<Rightarrow>
                    if errors_Is err ErrNotFound then (fst (ldb_TxCommit L w h), Inr (current, []))
                    else (ldb_TxDiscard L w h, Inl (Wrap ''getting previous pow challenge'' err))
                | Inr previous \<Rightarrow> (fst (ldb_TxCommit L w h), Inr (current, previous)))))"

section \<open>Lemmas\<close>

definition xdr_ok :: "xdr_api \<Rightarrow> bool" where
  "xdr_ok X \<longleftrightarrow> (\<forall>p b. xdr_Marshal X p = Inr b \<longrightarrow> xdr_Unmarshal X b = Inr p)"

lemma char_byte_inject: "(of_nat (of_char a) :: byte) = of_nat (of_char b) \<Longrightarrow> a = b"
proof -
  assume "(of_nat (of_char a) :: byte) = of_nat (of_char b)"
  then have "unat (of_nat (of_char a) :: byte) = unat (of_nat (of_char b) :: byte)" by simp
  then have "(of_char a :: nat) = of_char b" by (simp add: unat_of_nat)
  then show ?thesis by simp
qed

lemma str_bytes_inject [simp]: "str_bytes a = str_bytes b \<longleftrightarrow> a = b"
  using inj_map_eq_map [of "\<lambda>c. of_nat (of_char c) :: byte"] char_byte_inject by (auto simp: str_bytes_def inj_def)

lemma roundId_not_pow: "epochToRoundId e \<noteq> ''pow_challenge'' \<and> epochToRoundId e \<noteq> ''pow_challenge_previous''"
proof -
  have "CHR ''p'' \<notin> set (epochToRoundId e)"
    using fmt_nat_digits [of "CHR ''p''" "unat e"] by (auto simp: epochToRoundId_def FormatUint_def)
  then show ?thesis by auto
qed

lemma round_keys_not_pow [simp]:
  "str_bytes (epochToRoundId e) \<noteq> powKey" "str_bytes (epochToRoundId e) \<noteq> powPrevKey" "powKey \<noteq> powPrevKey"
  using roundId_not_pow [of e] by (simp_all add: powKey_def powPrevKey_def)

text \<open>A successful save stores the encoded proof under the round id and changes nothing else.\<close>

lemma SaveProof_stored:
  assumes "ldb_put_ok L cont path" "path w (db_db d) = Some p" "cont w p = Some m"
    "SaveProof L X w d nip members = (w', None)"
  obtains b where "xdr_Marshal X (proofOf (db_pubkey d) nip members) = Inr b"
    and "path w' = path w" and "cont w' = (cont w)(p \<mapsto> m(str_bytes (epochToRoundId (Epoch nip)) \<mapsto> b))"
proof -
  obtain b where b: "xdr_Marshal X (proofOf (db_pubkey d) nip members) = Inr b"
    and put: "ldb_Put L w (db_db d) (str_bytes (epochToRoundId (Epoch nip))) b = (w', None)"
    using assms(4)
    by (auto simp: SaveProof_def serializeProof_def proofOf_def Let_def split: sum.splits prod.splits option.splits)
  show ?thesis by (rule that [OF b contract_put [OF assms(1-3) put]])
qed

lemma GetProof_stored:
  assumes "ldb_get_ok L cont path" "path w (db_db d) = Some p" "cont w p = Some m"
    and "m (str_bytes rid) = Some b" and "xdr_Unmarshal X b = Inr pd"
    and "\<forall>e. ldb_Get L w (db_db d) (str_bytes rid) = Inl e \<longrightarrow> errors_Is e ErrNotFound"
  shows "GetProof L X w d rid = Inr pd"
proof (cases "ldb_Get L w (db_db d) (str_bytes rid)")
  case (Inl e)
  with assms show ?thesis unfolding ldb_get_ok_def by (metis option.distinct(1))
next
  case (Inr v)
  with assms(1-4) have "v = b" unfolding ldb_get_ok_def by fastforce
  with Inr assms(5) show ?thesis by (simp add: GetProof_def)
qed

section \<open>Properties\<close>

lemma SaveProof_GetProof:
  assumes "ldb_put_ok L cont path" and "ldb_get_ok L cont path" and "xdr_ok X"
    and "path w (db_db d) = Some p" and "cont w p = Some m"
    and "SaveProof L X w d nip members = (w', None)"
    and "\<forall>k e. ldb_Get L w' (db_db d) k = Inl e \<longrightarrow> errors_Is e ErrNotFound"
  shows "GetProof L X w' d (epochToRoundId (Epoch nip)) = Inr (proofOf (db_pubkey d) nip members)"
proof -
  obtain b where b: "xdr_Marshal X (proofOf (db_pubkey d) nip members) = Inr b"
    and w': "path w' = path w" "cont w' = (cont w)(p \<mapsto> m(str_bytes (epochToRoundId (Epoch nip)) \<mapsto> b))"
    by (rule SaveProof_stored [OF assms(1,4-6)])
  have u: "xdr_Unmarshal X b = Inr (proofOf (db_pubkey d) nip members)" using b assms(3) unfolding xdr_ok_def by blast
  have 1: "path w' (db_db d) = Some p" using w'(1) assms(4) by simp
  have 2: "cont w' p = Some (m(str_bytes (epochToRoundId (Epoch nip)) \<mapsto> b))" using w'(2) by simp
  show ?thesis
    by (rule GetProof_stored [OF assms(2) 1 2 _ u]) (use assms(7) in simp_all)
qed

text \<open>
  Saving the proof of a round touches neither the proof of any other round nor the stored PoW
  challenges, although they share one database.
\<close>

lemma save_proof_is_isolated:
  assumes "ldb_put_ok L cont path" and "path w (db_db d) = Some p" and "cont w p = Some m"
    and "SaveProof L X w d nip members = (w', None)"
  shows "\<exists>m'. cont w' p = Some m' \<and> m' powKey = m powKey \<and> m' powPrevKey = m powPrevKey \<and>
    (\<forall>e. e \<noteq> Epoch nip \<longrightarrow> m' (str_bytes (epochToRoundId e)) = m (str_bytes (epochToRoundId e)))"
proof -
  obtain b where "cont w' = (cont w)(p \<mapsto> m(str_bytes (epochToRoundId (Epoch nip)) \<mapsto> b))"
    by (rule SaveProof_stored [OF assms])
  then show ?thesis
    using round_keys_not_pow(1,2) [of "Epoch nip"] by (auto simp: epochToRoundId_def)
qed

text \<open>The contents after a challenge is saved: the old one moves to the second key.\<close>

definition rotated :: "(bytes \<rightharpoonup> bytes) \<Rightarrow> bytes \<Rightarrow> (bytes \<rightharpoonup> bytes)" where
  "rotated m challenge = (case m powKey of None \<Rightarrow> m | Some c \<Rightarrow> m(powPrevKey \<mapsto> c))(powKey \<mapsto> challenge)"

lemma putChallengeAndCommit_stored:
  assumes "ldb_tx_contract L cont path tview" "path w h = Some p"
    "putChallengeAndCommit L w h challenge = (w', None)"
  shows "path w' = path w" "cont w' = (cont w)(p \<mapsto> (tview w h)(powKey \<mapsto> challenge))"
proof -
  obtain w1 where put: "ldb_TxPut L w h powKey challenge = (w1, None)" and c: "ldb_TxCommit L w1 h = (w', None)"
    using assms(3) by (auto simp: putChallengeAndCommit_def split: prod.splits option.splits)
  note t = tx_put [OF assms(1,2) put]
  have "path w1 h = Some p" using t(2) assms(2) by simp
  from tx_commit [OF assms(1) this c] t
  show "path w' = path w" "cont w' = (cont w)(p \<mapsto> (tview w h)(powKey \<mapsto> challenge))" by simp_all
qed

lemma SavePowChallenge_stored:
  assumes "ldb_tx_contract L cont path tview" "path w (db_db d) = Some p" "cont w p = Some m"
    and puts: "\<forall>w k v. snd (ldb_TxPut L w (db_db d) k v) = None"
    and "SavePowChallenge L w d challenge = (w', None)"
  shows "path w' = path w" "cont w' = (cont w)(p \<mapsto> rotated m challenge)"
proof -
  let ?h = "db_db d"
  obtain w1 where o: "ldb_OpenTransaction L w ?h = (w1, None)"
    using assms(5) by (auto simp: SavePowChallenge_def Let_def split: prod.splits option.splits)
  note t = tx_open [OF assms(1-3) o]
  have p1: "path w1 ?h = Some p" using t(2) assms(2) by simp
  have "path w' = path w \<and> cont w' = (cont w)(p \<mapsto> rotated m challenge)"
  proof (cases "ldb_TxGet L w1 ?h powKey")
    case (Inl e)
    with o assms(5) have nf: "errors_Is e ErrNotFound" and pc: "putChallengeAndCommit L w1 ?h challenge = (w', None)"
      by (auto simp: SavePowChallenge_def Let_def split: if_splits)
    have "m powKey = None" using tx_get(2) [OF assms(1) p1 Inl nf] t(3) by simp
    then show ?thesis using putChallengeAndCommit_stored [OF assms(1) p1 pc] t by (simp add: rotated_def)
  next
    case (Inr cur)
    obtain w2 where put: "ldb_TxPut L w1 ?h powPrevKey cur = (w2, None)" using puts by (metis prod.collapse)
    have pc: "putChallengeAndCommit L w2 ?h challenge = (w', None)"
      using o Inr assms(5) put by (simp add: SavePowChallenge_def Let_def)
    note t2 = tx_put [OF assms(1) p1 put]
    have p2: "path w2 ?h = Some p" using t2(2) p1 by simp
    have "m powKey = Some cur" using tx_get(1) [OF assms(1) p1 Inr] t(3) by simp
    then show ?thesis using putChallengeAndCommit_stored [OF assms(1) p2 pc] t t2 by (simp add: rotated_def)
  qed
  then show "path w' = path w" "cont w' = (cont w)(p \<mapsto> rotated m challenge)" by simp_all
qed

lemma GetPowChallenges_read:
  assumes "ldb_tx_contract L cont path tview" "path w (db_db d) = Some p" "cont w p = Some m"
    "GetPowChallenges L w d = (w', Inr (cur, prev))"
  shows "m powKey = Some cur" "prev = (case m powPrevKey of None \<Rightarrow> [] | Some c \<Rightarrow> c)"
proof -
  let ?h = "db_db d"
  obtain w1 where o: "ldb_OpenTransaction L w ?h = (w1, None)"
    using assms(4) by (auto simp: GetPowChallenges_def Let_def split: prod.splits option.splits)
  note t = tx_open [OF assms(1-3) o]
  have p1: "path w1 ?h = Some p" using t(2) assms(2) by simp
  have g: "ldb_TxGet L w1 ?h powKey = Inr cur"
    using assms(4) o by (auto simp: GetPowChallenges_def Let_def split: sum.splits if_splits)
  then show "m powKey = Some cur" using tx_get(1) [OF assms(1) p1 g] t(3) by simp
  show "prev = (case m powPrevKey of None \<Rightarrow> [] | Some c \<Rightarrow> c)"
  proof (cases "ldb_TxGet L w1 ?h powPrevKey")
    case (Inl e)
    with assms(4) o g have "errors_Is e ErrNotFound" "prev = []"
      by (auto simp: GetPowChallenges_def Let_def split: if_splits)
    then show ?thesis using tx_get(2) [OF assms(1) p1 Inl] t(3) by simp
  next
    case (Inr c)
    then show ?thesis using tx_get(1) [OF assms(1) p1 Inr] t(3) assms(4) o g
      by (auto simp: GetPowChallenges_def Let_def)
  qed
qed

text \<open>
  PoW challenges survive a restart. What \<open>GetPowChallenges\<close> reads after a successful
  \<open>SavePowChallenge\<close> is the saved challenge as the current one and the challenge it replaced as the
  previous one (the previous one stays as it was when there was nothing to replace).
\<close>

lemma pow_challenges_roundtrip:
  assumes "ldb_tx_contract L cont path tview" and "path w (db_db d) = Some p" and "cont w p = Some m"
    and "\<forall>w k v. snd (ldb_TxPut L w (db_db d) k v) = None"
    and "SavePowChallenge L w d challenge = (w1, None)"
    and "GetPowChallenges L w1 d = (w2, Inr (current, previous))"
  shows "current = challenge \<and> previous = (case m powKey of Some c \<Rightarrow> c
    | None \<Rightarrow> (case m powPrevKey of Some c \<Rightarrow> c | None \<Rightarrow> []))"
proof -
  note s = SavePowChallenge_stored [OF assms(1-5)]
  have "path w1 (db_db d) = Some p" "cont w1 p = Some (rotated m challenge)" using s assms(2) by simp_all
  from GetPowChallenges_read [OF assms(1) this assms(6)] show ?thesis
    by (auto simp: rotated_def round_keys_not_pow(3) round_keys_not_pow(3) [symmetric] split: option.splits)
qed

section \<open>A concrete database\<close>

definition demo_nip :: NIP where
  "demo_nip = \<lparr>Root = [1], ProvenLeaves = [[2]], ProofNodes = [[3]], Epoch = 12, Leaves = 40\<rparr>"

definition demo_db :: "nat database" where
  "demo_db = \<lparr>db_db = 0, db_pubkey = [9]\<rparr>"

text \<open>An encoding of a single proof.\<close>

definition demo_xdr :: xdr_api where
  "demo_xdr = \<lparr>xdr_Marshal = (\<lambda>p. if p = proofOf [9] demo_nip [[70]] then Inr [5] else Inl (Opaque ''unsupported'')),
     xdr_Unmarshal = (\<lambda>b. if b = [5] then Inr (proofOf [9] demo_nip [[70]]) else Inl (Opaque ''unsupported''))\<rparr>"

abbreviation demo_dbw :: "kvs \<Rightarrow> ldb_world" where
  "demo_dbw kv \<equiv> \<lparr>stored = [(''p'', kv)], opened = [Some ''p''], txns = [], diskFull = False\<rparr>"

lemma ref_get_errors: "h < length (opened w) \<Longrightarrow> opened w ! h \<noteq> None \<Longrightarrow>
    \<forall>k e. ldb_Get ref_ldb w h k = Inl e \<longrightarrow> errors_Is e ErrNotFound"
  by (auto simp: ref_ldb_def ref_path_def ref_lookup_def split: option.splits)

end
