(* ===== verification/Cert.thy ===== *)
theory Cert
  imports Codec Schedule
begin

text \<open>
  Certificates (\<open>shared/cert.go\<close> and its generated codec \<open>shared/cert_scale.go\<close>): the certificate on
  the wire, its SCALE encoding, and the check that a certificate was issued for a node and has not
  expired. The signature scheme is a parameter; that \<open>ed25519.Verify\<close> panics on a key of the wrong
  size is written out.
\<close>

section \<open>Times in seconds\<close>

text \<open>
  A time is a number of nanoseconds since the Unix epoch. \<open>time.Unix\<close> keeps the seconds since
  year 1 in 64 bits, so it wraps around for seconds near the end of their range.
\<close>

definition unixToInternal :: "64 word" where
  "unixToInternal = 62135596800"

definition time_Unix :: "64 word \<Rightarrow> gotime" where
  "time_Unix sec = (sint (sec + unixToInternal) - sint unixToInternal) * 1000000000"

definition Time_Unix :: "gotime \<Rightarrow> 64 word" where
  "Time_Unix t = word_of_int (t div 1000000000)"

section \<open>Data\<close>

text \<open>The structure \<open>UnixTimestamp\<close> has a single field, a 64-bit number of seconds.\<close>

type_synonym UnixTimestamp = u64

record CertOnWire =
  wire_Pubkey :: bytes
  wire_Expiration :: "UnixTimestamp option"

record OpaqueCert =
  cert_Data :: bytes
  cert_Signature :: bytes

record Cert =
  cert_Pubkey :: bytes
  cert_Expiration :: "gotime option"

definition UnixTimestamp_Time :: "UnixTimestamp option \<Rightarrow> gotime option" where
  "UnixTimestamp_Time u = (case u of None \<Rightarrow> None | Some inner \<Rightarrow> Some (time_Unix inner))"

section \<open>The codec\<close>

definition UnixTimestamp_EncodeScale ::
  "('w, 'r) scale_api \<Rightarrow> 'w \<Rightarrow> UnixTimestamp \<Rightarrow> 'w \<times> nat \<times> goerr option" where
  "UnixTimestamp_EncodeScale S enc t =
     (case sc_EncodeCompact64 S enc t of
        (enc, n, Some err) \<Rightarrow> (enc, 0, Some err)
      | (enc, n, None) \<Rightarrow> (enc, n, None))"

definition UnixTimestamp_DecodeScale ::
  "('w, 'r) scale_api \<Rightarrow> 'r \<Rightarrow> 'r \<times> (goerr + UnixTimestamp \<times> nat)" where
  "UnixTimestamp_DecodeScale S dec =
     (case sc_DecodeCompact64 S dec of
        (dec, Inl err) \<Rightarrow> (dec, Inl err)
      | (dec, Inr (field, n)) \<Rightarrow> (dec, Inr (field, n)))"

definition CertOnWire_EncodeScale ::
  "('w, 'r) scale_api \<Rightarrow> CertOnWire \<Rightarrow> 'w \<Rightarrow> 'w \<times> nat \<times> goerr option" where
  "CertOnWire_EncodeScale S t enc =
     (case sc_EncodeByteSliceWithLimit S enc (wire_Pubkey t) 32 of
        (enc, n, Some err) \<Rightarrow> (enc, 0, Some err)
      | (enc, tot, None) \<Rightarrow>
        (case sc_EncodeOption S (UnixTimestamp_EncodeScale S) enc (wire_Expiration t) of
           (enc, n, Some err) \<Rightarrow> (enc, tot, Some err)
         | (enc, n, None) \<Rightarrow> (enc, tot + n, None)))"

definition CertOnWire_DecodeScale ::
  "('w, 'r) scale_api \<Rightarrow> CertOnWire \<Rightarrow> 'r \<Rightarrow> 'r \<times> CertOnWire \<times> nat \<times> goerr option" where
  "CertOnWire_DecodeScale S t dec =
     (case sc_DecodeByteSliceWithLimit S dec 32 of
        (dec, Inl err) \<Rightarrow> (dec, t, 0, Some err)
      | (dec, Inr (field, tot)) \<Rightarrow>
        let t = t\<lparr>wire_Pubkey := field\<rparr> in
        (case sc_DecodeOption S (UnixTimestamp_DecodeScale S) dec of
           (dec, Inl err) \<Rightarrow> (dec, t, tot, Some err)
         | (dec, Inr (field, n)) \<Rightarrow> (dec, t\<lparr>wire_Expiration := field\<rparr>, tot + n, None)))"

text \<open>
  \<open>newdec\<close> and \<open>newenc\<close> make a decoder over a byte buffer and an encoder with an empty one;
  \<open>buf\<close> reads the buffer of an encoder.
\<close>

definition DecodeCert :: "('w, 'r) scale_api \<Rightarrow> (bytes \<Rightarrow> 'r) \<Rightarrow> bytes \<Rightarrow> goerr + Cert" where
  "DecodeCert S newdec d =
     (case CertOnWire_DecodeScale S \<lparr>wire_Pubkey = [], wire_Expiration = None\<rparr> (newdec d) of
        (dec, c, n, Some err) \<Rightarrow> Inl err
      | (dec, c, n, None) \<Rightarrow>
          Inr \<lparr>cert_Pubkey = wire_Pubkey c, cert_Expiration = UnixTimestamp_Time (wire_Expiration c)\<rparr>)"

definition EncodeCert :: "('w, 'r) scale_api \<Rightarrow> 'w \<Rightarrow> ('w \<Rightarrow> bytes) \<Rightarrow> Cert \<Rightarrow> goerr + bytes" where
  "EncodeCert S newenc buf c =
     (let certOnWire = \<lparr>wire_Pubkey = cert_Pubkey c,
            wire_Expiration = (case cert_Expiration c of None \<Rightarrow> None | Some t \<Rightarrow> Some (Time_Unix t))\<rparr>
      in case CertOnWire_EncodeScale S certOnWire newenc of
           (enc, n, Some err) \<Rightarrow> Inl err
         | (enc, n, None) \<Rightarrow> Inr (buf enc))"

definition OpaqueCert_Decode :: "('w, 'r) scale_api \<Rightarrow> (bytes \<Rightarrow> 'r) \<Rightarrow> OpaqueCert \<Rightarrow> goerr + Cert" where
  "OpaqueCert_Decode S newdec c = DecodeCert S newdec (cert_Data c)"

section \<open>Verification\<close>

definition ed25519_PublicKeySize :: nat where
  "ed25519_PublicKeySize = 32"

definition ed25519_Verify :: "(bytes \<Rightarrow> bytes \<Rightarrow> bytes \<Rightarrow> bool) \<Rightarrow> bytes \<Rightarrow> bytes \<Rightarrow> bytes \<Rightarrow> bool outcome" where
  "ed25519_Verify ed key message sig =
     (if length key \<noteq> ed25519_PublicKeySize then Panic else Ret (ed key message sig))"

definition VerifyCertificate ::
  "('w, 'r) scale_api \<Rightarrow> (bytes \<Rightarrow> 'r) \<Rightarrow> (bytes \<Rightarrow> bytes \<Rightarrow> bytes \<Rightarrow> bool) \<Rightarrow> gotime \<Rightarrow>
   OpaqueCert \<Rightarrow> bytes \<Rightarrow> bytes \<Rightarrow> (goerr + Cert) outcome" where
  "VerifyCertificate S newdec ed now certificate certifierPubKey nodeID =
     (case ed25519_Verify ed certifierPubKey (cert_Data certificate) (cert_Signature certificate) of
        Panic \<Rightarrow> Panic
      | Ret valid \<Rightarrow> Ret (
          if \<not> valid then Inl ErrCertSignatureMismatch
          else case OpaqueCert_Decode S newdec certificate of
            Inl err \<Rightarrow> Inl (Wrap ''decoding'' err)
          | Inr decoded \<Rightarrow>
              if cert_Pubkey decoded \<noteq> nodeID then Inl ErrCertDataMismatch
              else (case cert_Expiration decoded of
                  None \<Rightarrow> Inr decoded
                | Some expiration \<Rightarrow>
                    if expiration < now then Inl (Wrap ''at'' ErrCertExpired) else Inr decoded)))"

section \<open>What the codec relies on\<close>

text \<open>
  \<open>e64\<close> is the encoding of a compact 64-bit integer, \<open>t0\<close> and \<open>t1\<close> are the tags of an absent and
  a present optional value; a present value is written and read by the given function after its tag.
\<close>

definition compact_ok ::
  "('w, 'r) scale_api \<Rightarrow> ('w \<Rightarrow> bytes) \<Rightarrow> ('r \<Rightarrow> bytes) \<Rightarrow> (u64 \<Rightarrow> bytes) \<Rightarrow> bool" where
  "compact_ok S wr rd e64 \<longleftrightarrow>
     (\<forall>w v. \<exists>w'. sc_EncodeCompact64 S w v = (w', length (e64 v), None) \<and> wr w' = wr w @ e64 v) \<and>
     (\<forall>r v rest. rd r = e64 v @ rest \<longrightarrow>
        (\<exists>r'. sc_DecodeCompact64 S r = (r', Inr (v, length (e64 v))) \<and> rd r' = rest))"

definition enc_option_ok ::
  "('w, 'r) scale_api \<Rightarrow> ('w \<Rightarrow> bytes) \<Rightarrow> bytes \<Rightarrow> bytes \<Rightarrow> bool" where
  "enc_option_ok S wr t0 t1 \<longleftrightarrow> (\<forall>enc w.
     (\<exists>w'. sc_EncodeOption S enc w None = (w', length t0, None) \<and> wr w' = wr w @ t0) \<and>
     (\<forall>x. \<exists>w1. wr w1 = wr w @ t1 \<and> (\<forall>w2 n. enc w1 x = (w2, n, None) \<longrightarrow>
        sc_EncodeOption S enc w (Some x) = (w2, length t1 + n, None))))"

definition dec_option_ok ::
  "('w, 'r) scale_api \<Rightarrow> ('r \<Rightarrow> bytes) \<Rightarrow> bytes \<Rightarrow> bytes \<Rightarrow> bool" where
  "dec_option_ok S rd t0 t1 \<longleftrightarrow> (\<forall>dec r rest.
     (rd r = t0 @ rest \<longrightarrow> (\<exists>r'. sc_DecodeOption S dec r = (r', Inr (None, length t0)) \<and> rd r' = rest)) \<and>
     (rd r = t1 @ rest \<longrightarrow> (\<exists>r1. rd r1 = rest \<and> (\<forall>r2 x n. dec r1 = (r2, Inr (x, n)) \<longrightarrow>
        sc_DecodeOption S dec r = (r2, Inr (Some x, length t1 + n))))))"

definition cert_codec_ok ::
  "('w, 'r) scale_api \<Rightarrow> ('w \<Rightarrow> bytes) \<Rightarrow> ('r \<Rightarrow> bytes) \<Rightarrow> bool" where
  "cert_codec_ok S wr rd \<longleftrightarrow> (\<exists>eb el e64 t0 t1. scale_contract S wr rd eb el \<and> compact_ok S wr rd e64 \<and>
     enc_option_ok S wr t0 t1 \<and> dec_option_ok S rd t0 t1)"

definition option_bytes :: "(u64 \<Rightarrow> bytes) \<Rightarrow> bytes \<Rightarrow> bytes \<Rightarrow> u64 option \<Rightarrow> bytes" where
  "option_bytes e64 t0 t1 v = (case v of None \<Rightarrow> t0 | Some x \<Rightarrow> t1 @ e64 x)"

section \<open>Lemmas\<close>

lemma encode_option_ok:
  assumes "compact_ok S wr rd e64" and "enc_option_ok S wr t0 t1"
  shows "\<exists>w'. sc_EncodeOption S (UnixTimestamp_EncodeScale S) w v = (w', length (option_bytes e64 t0 t1 v), None) \<and>
    wr w' = wr w @ option_bytes e64 t0 t1 v"
proof (cases v)
  case None
  then show ?thesis using assms(2) by (simp add: enc_option_ok_def option_bytes_def)
next
  case (Some x)
  from assms(2) obtain w1 where w1: "wr w1 = wr w @ t1"
    and o: "\<forall>w2 n. UnixTimestamp_EncodeScale S w1 x = (w2, n, None) \<longrightarrow>
        sc_EncodeOption S (UnixTimestamp_EncodeScale S) w (Some x) = (w2, length t1 + n, None)"
    unfolding enc_option_ok_def by meson
  from assms(1) obtain w2 where "sc_EncodeCompact64 S w1 x = (w2, length (e64 x), None)" "wr w2 = wr w1 @ e64 x"
    unfolding compact_ok_def by meson
  then show ?thesis using o w1 by (simp add: Some option_bytes_def UnixTimestamp_EncodeScale_def)
qed

lemma decode_option_ok:
  assumes "compact_ok S wr rd e64" and "dec_option_ok S rd t0 t1" and "rd r = option_bytes e64 t0 t1 v @ rest"
  shows "\<exists>r'. sc_DecodeOption S (UnixTimestamp_DecodeScale S) r = (r', Inr (v, length (option_bytes e64 t0 t1 v))) \<and>
    rd r' = rest"
proof (cases v)
  case None
  then show ?thesis using assms(2,3) by (simp add: dec_option_ok_def option_bytes_def)
next
  case (Some x)
  with assms(3) have "rd r = t1 @ e64 x @ rest" by (simp add: option_bytes_def)
  with assms(2) obtain r1 where r1: "rd r1 = e64 x @ rest"
    and o: "\<forall>r2 y n. UnixTimestamp_DecodeScale S r1 = (r2, Inr (y, n)) \<longrightarrow>
        sc_DecodeOption S (UnixTimestamp_DecodeScale S) r = (r2, Inr (Some y, length t1 + n))"
    unfolding dec_option_ok_def by meson
  from assms(1) r1 obtain r2 where "sc_DecodeCompact64 S r1 = (r2, Inr (x, length (e64 x)))" "rd r2 = rest"
    unfolding compact_ok_def by meson
  then show ?thesis using o by (simp add: Some option_bytes_def UnixTimestamp_DecodeScale_def)
qed

lemma CertOnWire_roundtrip:
  assumes "cert_codec_ok S wr rd" and len: "length (wire_Pubkey c) \<le> 32"
  shows "\<exists>w' enc. CertOnWire_EncodeScale S c w = (w', length enc, None) \<and> wr w' = wr w @ enc \<and>
    (\<forall>r t rest. rd r = enc @ rest \<longrightarrow> (\<exists>r'. CertOnWire_DecodeScale S t r = (r', c, length enc, None) \<and> rd r' = rest))"
proof -
  obtain eb el e64 t0 t1 where C: "scale_contract S wr rd eb el" and O: "compact_ok S wr rd e64"
    "enc_option_ok S wr t0 t1" "dec_option_ok S rd t0 t1"
    using assms(1) unfolding cert_codec_ok_def by blast
  let ?o = "option_bytes e64 t0 t1 (wire_Expiration c)" and ?p = "eb (wire_Pubkey c)"
  from len have u: "length (wire_Pubkey c) \<le> unat (32 :: u32)" by simp
  obtain w1 where 1: "sc_EncodeByteSliceWithLimit S w (wire_Pubkey c) 32 = (w1, length ?p, None)" "wr w1 = wr w @ ?p"
    by (rule scale_EncodeBytes [OF C u])
  obtain w2 where 2: "sc_EncodeOption S (UnixTimestamp_EncodeScale S) w1 (wire_Expiration c) = (w2, length ?o, None)"
    "wr w2 = wr w1 @ ?o" using encode_option_ok [OF O(1,2)] by blast
  have dec: "\<exists>r'. CertOnWire_DecodeScale S t r = (r', c, length (?p @ ?o), None) \<and> rd r' = rest"
    if rd: "rd r = (?p @ ?o) @ rest" for r t rest
  proof -
    have rd': "rd r = ?p @ ?o @ rest" using rd by simp
    obtain r1 where r1: "sc_DecodeByteSliceWithLimit S r 32 = (r1, Inr (wire_Pubkey c, length ?p))" "rd r1 = ?o @ rest"
      by (rule scale_DecodeBytes [OF C rd' u])
    obtain r2 where r2: "sc_DecodeOption S (UnixTimestamp_DecodeScale S) r1 = (r2, Inr (wire_Expiration c, length ?o))"
      "rd r2 = rest" using decode_option_ok [OF O(1,3) r1(2)] by blast
    then show ?thesis using r1(1) by (simp add: CertOnWire_DecodeScale_def)
  qed
  have "CertOnWire_EncodeScale S c w = (w2, length (?p @ ?o), None) \<and> wr w2 = wr w @ ?p @ ?o"
    using 1 2 by (simp add: CertOnWire_EncodeScale_def)
  with dec show ?thesis by blast
qed

lemma time_Unix_exact:
  assumes "fits64 (s + 62135596800)" and "fits64 s"
  shows "time_Unix (word_of_int s) = s * 1000000000"
proof -
  have "word_of_int s + unixToInternal = word_of_int (s + 62135596800)" by (simp add: unixToInternal_def)
  with sint_word_of_int_fits [OF assms(1)] show ?thesis by (simp add: time_Unix_def unixToInternal_def)
qed

text \<open>Expirations that the 64-bit seconds can hold, and what is left of one on the wire.\<close>

definition expiration_in_range :: "gotime option \<Rightarrow> bool" where
  "expiration_in_range e \<longleftrightarrow> (case e of None \<Rightarrow> True
     | Some t \<Rightarrow> - (2 ^ 63) \<le> t div 1000000000 \<and> t div 1000000000 + 62135596800 < 2 ^ 63)"

definition on_wire :: "Cert \<Rightarrow> Cert" where
  "on_wire c = c\<lparr>cert_Expiration := map_option (\<lambda>t. t div 1000000000 * 1000000000) (cert_Expiration c)\<rparr>"

lemma expiration_roundtrip:
  assumes "expiration_in_range e"
  shows "UnixTimestamp_Time (case e of None \<Rightarrow> None | Some t \<Rightarrow> Some (Time_Unix t))
    = map_option (\<lambda>t. t div 1000000000 * 1000000000) e"
proof (cases e)
  case (Some t)
  with assms have "fits64 (t div 1000000000 + 62135596800)" "fits64 (t div 1000000000)"
    by (auto simp: expiration_in_range_def fits64_def)
  then show ?thesis by (simp add: Some UnixTimestamp_Time_def Time_Unix_def time_Unix_exact)
qed (simp add: UnixTimestamp_Time_def)

lemma cert_codec_roundtrip:
  assumes "cert_codec_ok S wr rd" and new: "\<forall>d. rd (newdec d) = d" "wr newenc = []"
    and c: "length (cert_Pubkey c) \<le> 32" "expiration_in_range (cert_Expiration c)"
  shows "\<exists>d. EncodeCert S newenc wr c = Inr d \<and> DecodeCert S newdec d = Inr (on_wire c)"
proof -
  let ?c = "\<lparr>wire_Pubkey = cert_Pubkey c,
    wire_Expiration = (case cert_Expiration c of None \<Rightarrow> None | Some t \<Rightarrow> Some (Time_Unix t))\<rparr>"
  have len: "length (wire_Pubkey ?c) \<le> 32" using c(1) by simp
  obtain w' enc where e: "CertOnWire_EncodeScale S ?c newenc = (w', length enc, None)" "wr w' = wr newenc @ enc"
    "\<forall>r t rest. rd r = enc @ rest \<longrightarrow> (\<exists>r'. CertOnWire_DecodeScale S t r = (r', ?c, length enc, None) \<and> rd r' = rest)"
    using CertOnWire_roundtrip [OF assms(1) len, of newenc] by blast
  have "rd (newdec enc) = enc @ []" using new(1) by simp
  then obtain r' where "CertOnWire_DecodeScale S \<lparr>wire_Pubkey = [], wire_Expiration = None\<rparr> (newdec enc)
      = (r', ?c, length enc, None)" using e(3) by blast
  then have "DecodeCert S newdec enc = Inr (on_wire c)"
    by (simp add: DecodeCert_def on_wire_def expiration_roundtrip [OF c(2)])
  moreover have "EncodeCert S newenc wr c = Inr enc" using e(1,2) new(2) by (simp add: EncodeCert_def)
  ultimately show ?thesis by blast
qed

lemma VerifyCertificate_Inr_iff:
  "VerifyCertificate S newdec ed now certificate key nodeID = Ret (Inr c) \<longleftrightarrow>
     length key = 32 \<and> ed key (cert_Data certificate) (cert_Signature certificate) \<and>
     DecodeCert S newdec (cert_Data certificate) = Inr c \<and> cert_Pubkey c = nodeID \<and>
     (case cert_Expiration c of None \<Rightarrow> True | Some t \<Rightarrow> now \<le> t)"
  by (auto simp: VerifyCertificate_def ed25519_Verify_def ed25519_PublicKeySize_def OpaqueCert_Decode_def
      split: sum.splits option.splits)

section \<open>Properties\<close>

text \<open>
  Encoding a certificate and decoding the bytes gives the certificate back, with its expiration
  cut to whole seconds, for every node id of at most 32 bytes and every expiration that fits.
\<close>

lemma cert_roundtrip:
  assumes "cert_codec_ok S wr rd" and "\<forall>d. rd (newdec d) = d" and "wr newenc = []"
    and "length (cert_Pubkey c) \<le> 32" and "expiration_in_range (cert_Expiration c)"
  shows "\<exists>d. EncodeCert S newenc wr c = Inr d \<and> DecodeCert S newdec d = Inr (on_wire c)"
  by (rule cert_codec_roundtrip [OF assms])

text \<open>
  Exactly the right certificates are accepted: the certifier's key has 32 bytes, the signature
  over the encoded certificate verifies under it, the data decode, the certificate names the node,
  and it has no expiration or one that is not in the past.
\<close>

lemma verify_certificate_iff:
  "VerifyCertificate S newdec ed now certificate key nodeID = Ret (Inr c) \<longleftrightarrow>
     length key = 32 \<and> ed key (cert_Data certificate) (cert_Signature certificate) \<and>
     DecodeCert S newdec (cert_Data certificate) = Inr c \<and> cert_Pubkey c = nodeID \<and>
     (case cert_Expiration c of None \<Rightarrow> True | Some t \<Rightarrow> now \<le> t)"
  by (rule VerifyCertificate_Inr_iff)

text \<open>
  A certificate that was encoded for a node and signed is accepted for this node until the
  whole second of its expiration is over, and rejected as expired after that.
\<close>

lemma issued_certificate_verifies_until_expiration:
  assumes "cert_codec_ok S wr rd" and "\<forall>d. rd (newdec d) = d" and "wr newenc = []"
    and "length nodeID \<le> 32" and "expiration_in_range (Some t)" and "length key = 32"
    and "EncodeCert S newenc wr \<lparr>cert_Pubkey = nodeID, cert_Expiration = Some t\<rparr> = Inr d" and "ed key d sig"
  shows "VerifyCertificate S newdec ed now \<lparr>cert_Data = d, cert_Signature = sig\<rparr> key nodeID
    = Ret (if t div 1000000000 * 1000000000 < now then Inl (Wrap ''at'' ErrCertExpired)
           else Inr \<lparr>cert_Pubkey = nodeID, cert_Expiration = Some (t div 1000000000 * 1000000000)\<rparr>)"
proof -
  let ?c = "\<lparr>cert_Pubkey = nodeID, cert_Expiration = Some t\<rparr>"
  have "DecodeCert S newdec d = Inr (on_wire ?c)"
    using cert_codec_roundtrip [OF assms(1-3), of ?c] assms(4,5,7) by auto
  then show ?thesis using assms(6,8)
    by (simp add: VerifyCertificate_def ed25519_Verify_def ed25519_PublicKeySize_def OpaqueCert_Decode_def on_wire_def)
qed

end
