(* ===== verification/Pow.thy ===== *)
theory Pow
  imports Prelude
begin

text \<open>
  Proof of work: the client's nonce search and the leading-zero check of \<open>shared/pow.go\<close>, and the
  verifier with its rotating parameters of \<open>registration/pow_verifier.go\<close>. RIPEMD-256 is a
  third-party package and a parameter, \<open>ripemd\<close>, of the model.
\<close>

section \<open>The PoW hasher (\<open>shared/pow.go\<close>)\<close>

record powHasher =
  ph_h :: hasher
  ph_input :: bytes

definition NewPowHasher :: "bytes list \<Rightarrow> powHasher" where
  "NewPowHasher inputs = \<lparr>ph_h = [], ph_input = concat inputs @ replicate 8 0\<rparr>"

text \<open>The nonce replaces the last eight bytes of the input, in place.\<close>

definition powHasher_Hash ::
  "(bytes \<Rightarrow> bytes) \<Rightarrow> powHasher \<Rightarrow> u64 \<Rightarrow> bytes \<Rightarrow> powHasher \<times> bytes" where
  "powHasher_Hash ripemd p nonce output =
     (let input = take (length (ph_input p) - 8) (ph_input p) @ PutUint64_LE nonce;
          h = hash_Write (hash_Reset (ph_h p)) input
      in (\<lparr>ph_h = h, ph_input = input\<rparr>, hash_Sum ripemd h output))"

section \<open>Leading zero bits\<close>

text \<open>The byte loop of \<open>CheckLeadingZeroBits\<close>; reading past the end of the slice panics.\<close>

function checkZeroBytes :: "bytes \<Rightarrow> nat \<Rightarrow> nat \<Rightarrow> bool outcome" where
  "checkZeroBytes data i n =
     (if i < n
      then (if i < length data
            then (if data ! i \<noteq> 0 then Ret False else checkZeroBytes data (Suc i) n)
            else Panic)
      else Ret True)"
  by pat_completeness auto
termination by (relation "measure (\<lambda>(data, i, n). n - i)") auto

declare checkZeroBytes.simps [simp del]

text \<open>The conversion \<open>int(expected)\<close> reinterprets the unsigned value as a signed one.\<close>

definition CheckLeadingZeroBits :: "bytes \<Rightarrow> uint \<Rightarrow> bool outcome" where
  "CheckLeadingZeroBits data expected =
     (if int (length data) * 8 < sint expected then Ret False
      else (case checkZeroBytes data 0 (unat (expected div 8)) of
              Panic \<Rightarrow> Panic
            | Ret allZero \<Rightarrow>
                (if \<not> allZero then Ret False
                 else if expected mod 8 \<noteq> 0
                 then (if unat (expected div 8) < length data
                       then Ret (drop_bit (8 - unat (expected mod 8)) (data ! unat (expected div 8)) = 0)
                       else Panic)
                 else Ret True)))"

section \<open>Searching a nonce\<close>

text \<open>
  \<open>ctxDone k\<close> says whether the context is found cancelled by the \<open>k\<close>-th poll and \<open>ctxErr\<close> is
  its error. The loop has no bound of its own (the nonce wraps around): \<open>None\<close> is a search that
  never ends.
\<close>

partial_function (option) findNonce ::
  "(bytes \<Rightarrow> bytes) \<Rightarrow> (nat \<Rightarrow> bool) \<Rightarrow> goerr \<Rightarrow> uint \<Rightarrow> nat \<Rightarrow> u64 \<Rightarrow> powHasher \<Rightarrow> (goerr + u64) outcome option" where
  "findNonce ripemd ctxDone ctxErr difficulty k nonce p =
     (if ctxDone k then Some (Ret (Inl ctxErr))
      else (case powHasher_Hash ripemd p nonce [] of (p', hash) \<Rightarrow>
        (case CheckLeadingZeroBits hash difficulty of
           Panic \<Rightarrow> Some Panic
         | Ret b \<Rightarrow> if b then Some (Ret (Inr nonce))
             else findNonce ripemd ctxDone ctxErr difficulty (Suc k) (nonce + 1) p')))"

definition FindSubmitPowNonce ::
  "(bytes \<Rightarrow> bytes) \<Rightarrow> (nat \<Rightarrow> bool) \<Rightarrow> goerr \<Rightarrow> bytes \<Rightarrow> bytes \<Rightarrow> bytes \<Rightarrow> uint \<Rightarrow> (goerr + u64) outcome option" where
  "FindSubmitPowNonce ripemd ctxDone ctxErr powChallenge poetChallenge nodeID difficulty =
     findNonce ripemd ctxDone ctxErr difficulty 0 0 (NewPowHasher [powChallenge, nodeID, poetChallenge])"

section \<open>The PoW verifier (\<open>registration/pow_verifier.go\<close>)\<close>

record PowParams =
  Challenge :: bytes
  Difficulty :: uint

definition NewPowParams :: "bytes \<Rightarrow> uint \<Rightarrow> PowParams" where
  "NewPowParams challenge difficulty = \<lparr>Challenge = challenge, Difficulty = difficulty\<rparr>"

definition PowParams_Equal :: "PowParams \<Rightarrow> PowParams \<Rightarrow> bool" where
  "PowParams_Equal p other =
     (if Difficulty p \<noteq> Difficulty other then False else Challenge p = Challenge other)"

record powVerifier =
  pv_params :: PowParams

definition powVerifier_Params :: "powVerifier \<Rightarrow> PowParams" where
  "powVerifier_Params v = pv_params v"

definition powVerifier_SetParams :: "powVerifier \<Rightarrow> PowParams \<Rightarrow> powVerifier" where
  "powVerifier_SetParams v p = v\<lparr>pv_params := p\<rparr>"

definition NewPowVerifier :: "PowParams \<Rightarrow> powVerifier" where
  "NewPowVerifier params = \<lparr>pv_params = params\<rparr>"

definition powVerifier_Verify ::
  "(bytes \<Rightarrow> bytes) \<Rightarrow> powVerifier \<Rightarrow> bytes \<Rightarrow> bytes \<Rightarrow> u64 \<Rightarrow> goerr option outcome" where
  "powVerifier_Verify ripemd v poetChallenge nodeID nonce =
     (if length nodeID \<noteq> 32 then Ret (Some (Wrap ''invalid nodeID length'' ErrInvalidPow))
      else (case powHasher_Hash ripemd (NewPowHasher [Challenge (pv_params v), nodeID, poetChallenge]) nonce []
            of (_, hash) \<Rightarrow>
        (case CheckLeadingZeroBits hash (Difficulty (pv_params v)) of
           Panic \<Rightarrow> Panic
         | Ret ok \<Rightarrow> Ret (if ok then None else Some (Wrap ''invalid leading zero bits'' ErrInvalidPow)))))"

text \<open>The current verifier and, after a rotation, the previous one.\<close>

record powVerifiers =
  previous :: "powVerifier option"
  current :: powVerifier

definition powVerifiers_SetParams :: "powVerifiers \<Rightarrow> PowParams \<Rightarrow> powVerifiers" where
  "powVerifiers_SetParams v p =
     v\<lparr>previous := Some \<lparr>pv_params = powVerifier_Params (current v)\<rparr>, current := \<lparr>pv_params = p\<rparr>\<rparr>"

definition powVerifiers_Params :: "powVerifiers \<Rightarrow> PowParams" where
  "powVerifiers_Params v = powVerifier_Params (current v)"

definition VerifyWithParams ::
  "(bytes \<Rightarrow> bytes) \<Rightarrow> powVerifiers \<Rightarrow> bytes \<Rightarrow> bytes \<Rightarrow> u64 \<Rightarrow> PowParams \<Rightarrow> goerr option outcome" where
  "VerifyWithParams ripemd v poetChallenge nodeID nonce params =
     (if PowParams_Equal (powVerifier_Params (current v)) params
      then powVerifier_Verify ripemd (current v) poetChallenge nodeID nonce
      else (case previous v of
              Some pr \<Rightarrow>
                if PowParams_Equal (powVerifier_Params pr) params
                then powVerifier_Verify ripemd pr poetChallenge nodeID nonce
                else Ret (Some ErrInvalidPowParams)
            | None \<Rightarrow> Ret (Some ErrInvalidPowParams)))"

section \<open>Reference definitions\<close>

text \<open>The first \<open>n\<close> bits of the data, most significant bit of each byte first, are zero.\<close>

definition leading_zeros :: "bytes \<Rightarrow> nat \<Rightarrow> bool" where
  "leading_zeros data n \<longleftrightarrow>
     n \<le> 8 * length data \<and> (\<forall>i < n. \<not> bit (data ! (i div 8)) (7 - i mod 8))"

definition pow_digest :: "(bytes \<Rightarrow> bytes) \<Rightarrow> bytes \<Rightarrow> bytes \<Rightarrow> bytes \<Rightarrow> u64 \<Rightarrow> bytes" where
  "pow_digest ripemd powChallenge nodeID poetChallenge nonce =
     ripemd (powChallenge @ nodeID @ poetChallenge @ PutUint64_LE nonce)"

section \<open>Lemmas on the leading-zero check\<close>

lemma byte_zero_iff: "b = 0 \<longleftrightarrow> (\<forall>j < 8. \<not> bit b (7 - j))" for b :: byte
proof
  assume *: "\<forall>j < 8. \<not> bit b (7 - j)"
  show "b = 0"
  proof (rule bit_word_eqI)
    fix n assume "n < LENGTH(8)"
    then have "n < 8" by simp
    then show "bit b n \<longleftrightarrow> bit 0 n" using *[rule_format, of "7 - n"] by simp
  qed
qed simp

lemma byte_high_zero_iff:
  fixes b :: byte
  assumes "r \<le> 8"
  shows "drop_bit (8 - r) b = 0 \<longleftrightarrow> (\<forall>j < r. \<not> bit b (7 - j))"
proof
  assume *: "drop_bit (8 - r) b = 0"
  show "\<forall>j < r. \<not> bit b (7 - j)"
  proof (intro allI impI)
    fix j assume "j < r"
    with assms have "8 - r + (r - Suc j) = 7 - j" by simp
    then show "\<not> bit b (7 - j)"
      using arg_cong [OF *, of "\<lambda>w. bit w (r - Suc j)"] by (simp add: bit_simps)
  qed
next
  assume *: "\<forall>j < r. \<not> bit b (7 - j)"
  show "drop_bit (8 - r) b = 0"
  proof (rule bit_word_eqI)
    fix n assume "n < LENGTH(8)"
    show "bit (drop_bit (8 - r) b) n \<longleftrightarrow> bit 0 n"
    proof (cases "n < r")
      case True
      with assms *[rule_format, of "r - Suc n"] show ?thesis
        by (simp add: bit_simps algebra_simps)
    next
      case False
      then have "\<not> bit b (8 - r + n)" using assms bit_imp_le_length [of b "8 - r + n"] by auto
      then show ?thesis by (simp add: bit_simps)
    qed
  qed
qed

lemma checkZeroBytes_total:
  "n \<le> length data \<Longrightarrow> checkZeroBytes data i n = Ret (\<forall>j. i \<le> j \<and> j < n \<longrightarrow> data ! j = 0)"
proof (induction data i n rule: checkZeroBytes.induct)
  case (1 data i n)
  show ?case
  proof (cases "i < n \<and> data ! i = 0")
    case True
    with 1 have "checkZeroBytes data i n = Ret (\<forall>j. Suc i \<le> j \<and> j < n \<longrightarrow> data ! j = 0)"
      by (simp add: checkZeroBytes.simps [of data i n])
    moreover have "(\<forall>j. Suc i \<le> j \<and> j < n \<longrightarrow> data ! j = 0) \<longleftrightarrow> (\<forall>j. i \<le> j \<and> j < n \<longrightarrow> data ! j = 0)"
      using True by (metis Suc_leI le_neq_implies_less Suc_leD)
    ultimately show ?thesis by simp
  next
    case False
    with 1(2) show ?thesis by (auto simp: checkZeroBytes.simps [of data i n])
  qed
qed

lemma split_bits:
  "(\<forall>i < n. P (i div 8) (i mod 8)) \<longleftrightarrow>
   (\<forall>q < n div 8. \<forall>j < 8. P q j) \<and> (\<forall>j < n mod 8. P (n div 8) j)" for n :: nat
proof
  assume *: "\<forall>i < n. P (i div 8) (i mod 8)"
  have "P q j" if "q < n div 8" "j < 8" for q j
    using *[rule_format, of "8 * q + j"] that by simp
  moreover have "P (n div 8) j" if "j < n mod 8" for j
  proof -
    from that have "8 * (n div 8) + j < n" by presburger
    from *[rule_format, OF this] that show ?thesis by simp
  qed
  ultimately show "(\<forall>q < n div 8. \<forall>j < 8. P q j) \<and> (\<forall>j < n mod 8. P (n div 8) j)" by blast
next
  assume *: "(\<forall>q < n div 8. \<forall>j < 8. P q j) \<and> (\<forall>j < n mod 8. P (n div 8) j)"
  show "\<forall>i < n. P (i div 8) (i mod 8)"
  proof (intro allI impI)
    fix i assume "i < n"
    then have "i div 8 \<le> n div 8" by (simp add: div_le_mono)
    moreover have "i mod 8 < n mod 8" if "i div 8 = n div 8"
      using \<open>i < n\<close> that mult_div_mod_eq [of 8 i] mult_div_mod_eq [of 8 n] by linarith
    ultimately show "P (i div 8) (i mod 8)" using * by (cases "i div 8 = n div 8") simp_all
  qed
qed

lemma leading_zeros_bytes:
  "leading_zeros data n \<longleftrightarrow> n \<le> 8 * length data \<and>
     (\<forall>q < n div 8. data ! q = 0) \<and> drop_bit (8 - n mod 8) (data ! (n div 8)) = 0"
  using split_bits [of n "\<lambda>q j. \<not> bit (data ! q) (7 - j)"]
    byte_high_zero_iff [of "n mod 8" "data ! (n div 8)"]
  by (auto simp: leading_zeros_def byte_zero_iff)

lemma sint_small:
  fixes w :: u64
  assumes "unat w < 2 ^ 63"
  shows "sint w = int (unat w)"
proof -
  from assms have "int (unat w) < int (2 ^ 63)" by (simp only: of_nat_less_iff)
  then have "uint w < 2 ^ 63" by simp
  then have "signed_take_bit 63 (uint w) = uint w"
    using order_trans [OF _ uint_ge_0 [of w], of "- (2 ^ 63)"] by (intro signed_take_bit_int_eq_self) simp_all
  then show ?thesis by (simp add: sint_uint)
qed

lemma div_less_bytes: "\<not> 8 * l < n \<Longrightarrow> n mod 8 \<noteq> 0 \<Longrightarrow> n div 8 < l" for l n :: nat
  by presburger

lemma CheckLeadingZeroBits_total:
  assumes "unat expected < 2 ^ 63"
  shows "CheckLeadingZeroBits data expected = Ret (leading_zeros data (unat expected))"
proof -
  have d: "unat (expected div 8) = unat expected div 8" and m: "unat (expected mod 8) = unat expected mod 8"
    by (simp_all add: unat_div unat_mod)
  then have mz: "expected mod 8 = 0 \<longleftrightarrow> unat expected mod 8 = 0" by (metis unsigned_0 unsigned_eq_0_iff)
  have drop8: "drop_bit 8 b = 0" for b :: byte
    using byte_high_zero_iff [of 0 b] by simp
  show ?thesis
  proof (cases "8 * length data < unat expected")
    case True
    then have "int (length data) * 8 < sint expected"
      unfolding sint_small [OF assms] by linarith
    with True show ?thesis by (simp add: CheckLeadingZeroBits_def leading_zeros_def)
  next
    case False
    then have le: "unat expected div 8 \<le> length data" by linarith
    have lt: "unat expected div 8 < length data" if "unat expected mod 8 \<noteq> 0"
      using False that by (intro div_less_bytes)
    have "\<not> int (length data) * 8 < sint expected"
      unfolding sint_small [OF assms] using False by linarith
    then show ?thesis
      using checkZeroBytes_total [OF le, of 0] False lt
      by (auto simp: CheckLeadingZeroBits_def d m mz leading_zeros_bytes drop8)
  qed
qed

lemma NewPowHasher_Hash:
  "snd (powHasher_Hash ripemd (NewPowHasher [a, b, c]) nonce []) = pow_digest ripemd a b c nonce"
  by (simp add: powHasher_Hash_def NewPowHasher_def pow_digest_def go_defs Let_def)

lemma Verify_digest:
  "powVerifier_Verify ripemd v poetChallenge nodeID nonce =
     (if length nodeID \<noteq> 32 then Ret (Some (Wrap ''invalid nodeID length'' ErrInvalidPow))
      else (case CheckLeadingZeroBits (pow_digest ripemd (Challenge (pv_params v)) nodeID poetChallenge nonce)
              (Difficulty (pv_params v)) of
        Panic \<Rightarrow> Panic
      | Ret ok \<Rightarrow> Ret (if ok then None else Some (Wrap ''invalid leading zero bits'' ErrInvalidPow))))"
  by (simp add: powVerifier_Verify_def NewPowHasher_Hash split: prod.splits)
    (metis NewPowHasher_Hash snd_conv)

section \<open>Lemmas on the nonce search\<close>

text \<open>The hasher can be reused: only the last eight bytes of its input change.\<close>

definition hasher_for :: "bytes \<Rightarrow> powHasher \<Rightarrow> bool" where
  "hasher_for base p \<longleftrightarrow> length (ph_input p) = length base + 8 \<and> take (length base) (ph_input p) = base"

lemma hasher_for_Hash:
  assumes "hasher_for base p"
  shows "snd (powHasher_Hash ripemd p nonce []) = ripemd (base @ PutUint64_LE nonce)"
    and "hasher_for base (fst (powHasher_Hash ripemd p nonce output))"
  using assms by (simp_all add: powHasher_Hash_def hasher_for_def go_defs Let_def codec_simps)

lemma hasher_for_New: "hasher_for (a @ b @ c) (NewPowHasher [a, b, c])"
  by (simp add: hasher_for_def NewPowHasher_def)

lemma findNonce_sound:
  assumes ret: "findNonce ripemd ctxDone ctxErr difficulty k nonce p = Some (Ret (Inr n))"
    and "hasher_for base p"
  shows "CheckLeadingZeroBits (ripemd (base @ PutUint64_LE n)) difficulty = Ret True"
proof -
  let ?P = "\<lambda>ripemd ctxDone ctxErr difficulty k nonce p out. \<forall>n. out = Ret (Inr n) \<longrightarrow> hasher_for base p \<longrightarrow>
    CheckLeadingZeroBits (ripemd (base @ PutUint64_LE n)) difficulty = Ret True"
  have "?P ripemd ctxDone ctxErr difficulty k nonce p (Ret (Inr n) :: (goerr + u64) outcome)"
  proof (rule findNonce.raw_induct [where P = ?P, OF _ ret], intro allI impI)
    fix f ripemd ctxDone ctxErr difficulty k nonce p and out :: "(goerr + u64) outcome" and n
    assume IH: "\<And>ripemd ctxDone ctxErr difficulty k nonce p out.
        f ripemd ctxDone ctxErr difficulty k nonce p = Some out \<Longrightarrow>
        ?P ripemd ctxDone ctxErr difficulty k nonce p out"
      and eq: "(if ctxDone k then Some (Ret (Inl ctxErr))
      else (case powHasher_Hash ripemd p nonce [] of (p', hash) \<Rightarrow>
        (case CheckLeadingZeroBits hash difficulty of
           Ret b \<Rightarrow> if b then Some (Ret (Inr nonce)) else f ripemd ctxDone ctxErr difficulty (Suc k) (nonce + 1) p'
         | Panic \<Rightarrow> Some Panic))) = Some out"
      and out: "out = Ret (Inr n)" and p: "hasher_for base p"
    obtain p' hash where h: "powHasher_Hash ripemd p nonce [] = (p', hash)" by fastforce
    with hasher_for_Hash [OF p, of ripemd nonce] have hash: "hash = ripemd (base @ PutUint64_LE nonce)"
      and p': "hasher_for base p'"
      by (metis snd_conv) (metis hasher_for_Hash(2) fst_conv h p)
    show "CheckLeadingZeroBits (ripemd (base @ PutUint64_LE n)) difficulty = Ret True"
    proof (cases "CheckLeadingZeroBits hash difficulty")
      case (Ret b)
      with eq out h hash p' show ?thesis using IH by (auto split: if_splits)
    qed (use eq out h in \<open>auto split: if_splits\<close>)
  qed
  with assms(2) show ?thesis by blast
qed

lemma findNonce_step:
  assumes "hasher_for base p" and "\<not> ctxDone k"
    and "CheckLeadingZeroBits (ripemd (base @ PutUint64_LE nonce)) difficulty = Ret False"
  shows "\<exists>p'. hasher_for base p' \<and> findNonce ripemd ctxDone ctxErr difficulty k nonce p
    = findNonce ripemd ctxDone ctxErr difficulty (Suc k) (nonce + 1) p'"
proof -
  obtain p' hash where h: "powHasher_Hash ripemd p nonce [] = (p', hash)" by fastforce
  with hasher_for_Hash [OF assms(1), of ripemd nonce] have "hash = ripemd (base @ PutUint64_LE nonce)"
    and "hasher_for base p'"
    by (metis snd_conv) (metis hasher_for_Hash(2) fst_conv h assms(1))
  with h assms show ?thesis by (intro exI [of _ p']) (simp add: findNonce.simps [of ripemd ctxDone ctxErr difficulty k])
qed

lemma findNonce_finds:
  assumes "hasher_for base p" and "\<forall>i \<le> m. \<not> ctxDone (k + i)"
    and "\<forall>i < m. CheckLeadingZeroBits (ripemd (base @ PutUint64_LE (nonce + of_nat i))) difficulty = Ret False"
    and "CheckLeadingZeroBits (ripemd (base @ PutUint64_LE (nonce + of_nat m))) difficulty = Ret True"
  shows "findNonce ripemd ctxDone ctxErr difficulty k nonce p = Some (Ret (Inr (nonce + of_nat m)))"
  using assms
proof (induction m arbitrary: k nonce p)
  case 0
  obtain p' hash where h: "powHasher_Hash ripemd p nonce [] = (p', hash)" by fastforce
  with hasher_for_Hash(1) [OF 0(1), of ripemd nonce] have "hash = ripemd (base @ PutUint64_LE nonce)" by simp
  with h 0 show ?case by (simp add: findNonce.simps [of ripemd ctxDone ctxErr difficulty k])
next
  case (Suc m)
  from Suc.prems(2) have "\<not> ctxDone k" by (metis add.right_neutral zero_le)
  moreover from Suc.prems(3)[rule_format, of 0]
  have "CheckLeadingZeroBits (ripemd (base @ PutUint64_LE nonce)) difficulty = Ret False" by simp
  ultimately obtain p' where p': "hasher_for base p'"
    and eq: "findNonce ripemd ctxDone ctxErr difficulty k nonce p
      = findNonce ripemd ctxDone ctxErr difficulty (Suc k) (nonce + 1) p'"
    using findNonce_step [OF Suc.prems(1)] by blast
  have "findNonce ripemd ctxDone ctxErr difficulty (Suc k) (nonce + 1) p' = Some (Ret (Inr (nonce + 1 + of_nat m)))"
  proof (rule Suc.IH [OF p'])
    show "\<forall>i \<le> m. \<not> ctxDone (Suc k + i)" using Suc.prems(2) by (metis add_Suc_shift Suc_le_mono)
    show "\<forall>i < m. CheckLeadingZeroBits (ripemd (base @ PutUint64_LE (nonce + 1 + of_nat i))) difficulty = Ret False"
    proof (intro allI impI)
      fix i assume "i < m"
      with Suc.prems(3)[rule_format, of "Suc i"]
      show "CheckLeadingZeroBits (ripemd (base @ PutUint64_LE (nonce + 1 + of_nat i))) difficulty = Ret False"
        by (simp add: algebra_simps)
    qed
    show "CheckLeadingZeroBits (ripemd (base @ PutUint64_LE (nonce + 1 + of_nat m))) difficulty = Ret True"
      using Suc.prems(4) by (simp add: algebra_simps)
  qed
  with eq show ?case by (simp add: algebra_simps)
qed

section \<open>The verifier's interface\<close>

text \<open>
  Interface \<open>PowVerifier\<close>: the parameters that were set are the ones that are read, and the
  verdict depends on nothing but them.
\<close>

locale pow_verifier =
  fixes Verify :: "'v \<Rightarrow> bytes \<Rightarrow> bytes \<Rightarrow> u64 \<Rightarrow> goerr option outcome"
    and Params :: "'v \<Rightarrow> PowParams"
    and SetParams :: "'v \<Rightarrow> PowParams \<Rightarrow> 'v"
  assumes Params_SetParams: "Params (SetParams v p) = p"
    and Verify_cong: "Params v = Params w \<Longrightarrow> Verify v = Verify w"
begin

lemma Verify_after_SetParams: "Verify (SetParams v p) = Verify (SetParams w p)"
  by (rule Verify_cong) (simp add: Params_SetParams)

lemma Verify_restore: "Verify (SetParams (SetParams v p) (Params v)) = Verify v"
  by (rule Verify_cong) (simp add: Params_SetParams)

end

interpretation powv: pow_verifier "powVerifier_Verify ripemd" powVerifier_Params powVerifier_SetParams
  for ripemd
  by unfold_locales
    (simp_all add: powVerifier_Params_def powVerifier_SetParams_def powVerifier_Verify_def fun_eq_iff)

lemma PowParams_Equal_iff [simp]: "PowParams_Equal p q \<longleftrightarrow> p = q"
  by (cases p, cases q) (auto simp: PowParams_Equal_def)

lemma Verify_NewPowVerifier:
  "powVerifier_Params v = p \<Longrightarrow> powVerifier_Verify ripemd v = powVerifier_Verify ripemd (NewPowVerifier p)"
  by (rule powv.Verify_cong) (simp add: powVerifier_Params_def NewPowVerifier_def)

lemma powVerifiers_Params_SetParams [simp]: "powVerifiers_Params (powVerifiers_SetParams vs p) = p"
  by (simp add: powVerifiers_Params_def powVerifiers_SetParams_def powVerifier_Params_def)

lemma VerifyWithParams_rotated:
  "VerifyWithParams ripemd (powVerifiers_SetParams vs q) poetChallenge nodeID nonce params =
     (if params = q \<or> params = powVerifiers_Params vs
      then powVerifier_Verify ripemd (NewPowVerifier params) poetChallenge nodeID nonce
      else Ret (Some ErrInvalidPowParams))"
  by (auto simp: VerifyWithParams_def powVerifiers_SetParams_def powVerifiers_Params_def
      powVerifier_Params_def NewPowVerifier_def)

section \<open>Properties\<close>

text \<open>
  C14: \<open>CheckLeadingZeroBits\<close> never reads out of range and decides exactly whether the first
  \<open>expected\<close> bits of the hash, counted from the most significant bit of each byte, are zero, for
  every difficulty that fits a signed integer.
\<close>

theorem check_leading_zero_bits_correct:
  assumes "unat expected < 2 ^ 63"
  shows "CheckLeadingZeroBits data expected =
    Ret (unat expected \<le> 8 * length data \<and> (\<forall>i < unat expected. \<not> bit (data ! (i div 8)) (7 - i mod 8)))"
  using CheckLeadingZeroBits_total [OF assms] by (simp add: leading_zeros_def)

theorem check_leading_zero_bits_correct_witness:
  "unat (3 :: uint) < 2 ^ 63 \<and> CheckLeadingZeroBits [31] 3 = Ret True \<and>
   CheckLeadingZeroBits [32] 3 = Ret False"
proof (intro conjI)
  show *: "unat (3 :: uint) < 2 ^ 63" by simp
  have "unat (3 :: uint) = 3" by simp
  with check_leading_zero_bits_correct [OF *, of "[31]"] check_leading_zero_bits_correct [OF *, of "[32]"]
  show "CheckLeadingZeroBits [31] 3 = Ret True" "CheckLeadingZeroBits [32] 3 = Ret False"
    by (simp_all add: numeral_3_eq_3 All_less_Suc)
qed

text \<open>
  A nonce that the client's search returns is accepted by a verifier with the same
  parameters: search and verification hash the same bytes in the same order.
\<close>

lemma pow_found_nonce_verifies:
  assumes "FindSubmitPowNonce ripemd ctxDone ctxErr powChallenge poetChallenge nodeID difficulty
      = Some (Ret (Inr nonce))"
    and "length nodeID = 32"
    and "powVerifiers_Params vs = NewPowParams powChallenge difficulty"
  shows "VerifyWithParams ripemd vs poetChallenge nodeID nonce (NewPowParams powChallenge difficulty) = Ret None"
proof -
  have "CheckLeadingZeroBits (ripemd ((powChallenge @ nodeID @ poetChallenge) @ PutUint64_LE nonce)) difficulty
      = Ret True"
    using assms(1) by (intro findNonce_sound [OF _ hasher_for_New]) (simp add: FindSubmitPowNonce_def)
  with assms(2,3) show ?thesis
    by (simp add: VerifyWithParams_def powVerifiers_Params_def Verify_NewPowVerifier [of "current vs", OF refl]
        Verify_digest NewPowVerifier_def NewPowParams_def powVerifier_Params_def pow_digest_def)
qed

text \<open>
  The nonce search returns: if the context is not cancelled before the first solution is
  tried, the search stops at the smallest nonce that solves the challenge and returns it.
\<close>

lemma pow_search_returns_first_solution:
  assumes "unat difficulty < 2 ^ 63" and "\<forall>i \<le> m. \<not> ctxDone i"
    and "\<forall>i < m. \<not> leading_zeros (pow_digest ripemd powChallenge nodeID poetChallenge (of_nat i)) (unat difficulty)"
    and "leading_zeros (pow_digest ripemd powChallenge nodeID poetChallenge (of_nat m)) (unat difficulty)"
  shows "FindSubmitPowNonce ripemd ctxDone ctxErr powChallenge poetChallenge nodeID difficulty
    = Some (Ret (Inr (of_nat m)))"
proof -
  have c: "CheckLeadingZeroBits (ripemd ((powChallenge @ nodeID @ poetChallenge) @ PutUint64_LE (0 + of_nat i))) difficulty
      = Ret (leading_zeros (pow_digest ripemd powChallenge nodeID poetChallenge (of_nat i)) (unat difficulty))" for i
    by (simp add: CheckLeadingZeroBits_total [OF assms(1)] pow_digest_def)
  have "findNonce ripemd ctxDone ctxErr difficulty 0 0 (NewPowHasher [powChallenge, nodeID, poetChallenge])
      = Some (Ret (Inr (0 + of_nat m)))"
    by (rule findNonce_finds [OF hasher_for_New]) (use assms(2-4) c in auto)
  then show ?thesis by (simp add: FindSubmitPowNonce_def)
qed

text \<open>
  After any sequence of rotations exactly the last two parameter sets are honoured: a
  submission under the current or the previous parameters is judged by its hash, and one under
  any other parameters is refused with \<open>ErrInvalidPowParams\<close> before any hash is computed.
\<close>

lemma pow_rotation_window:
  "VerifyWithParams ripemd (foldl powVerifiers_SetParams vs (ps @ [p, q])) poetChallenge nodeID nonce params =
     (if params = q \<or> params = p
      then powVerifier_Verify ripemd (NewPowVerifier params) poetChallenge nodeID nonce
      else Ret (Some ErrInvalidPowParams))"
  by (simp add: VerifyWithParams_rotated)

end
