(* ===== verification/Transport.thy ===== *)
theory Transport
  imports Codec
begin

text \<open>
  The in-memory transport (\<open>transport/memory.go\<close>) that binds the registration service to the worker:
  two channels of capacity one. A \<open>select\<close> takes any of its ready cases, so an operation is the set
  of its possible outcomes; an empty set means that it blocks. The interfaces \<open>WorkerService\<close> and
  \<open>RegistrationService\<close> that the two services are given are the locales below.
\<close>

section \<open>State and operations\<close>

record ClosedRound =
  cr_Epoch :: uint
  cr_MembershipRoot :: bytes

record inMemory =
  m_closedRounds :: "ClosedRound list"
  m_proofs :: "NIP list"

definition chanCap :: nat where
  "chanCap = 1"

definition NewInMemory :: inMemory where
  "NewInMemory = \<lparr>m_closedRounds = [], m_proofs = []\<rparr>"

text \<open>A full buffer does not block \<open>ExecuteRound\<close>: the closed round is dropped and no error is returned.\<close>

definition ExecuteRound :: "inMemory \<Rightarrow> bool \<Rightarrow> uint \<Rightarrow> bytes \<Rightarrow> (inMemory \<times> goerr option) set" where
  "ExecuteRound m cancelled epoch membershipRoot =
     (let ready =
        (if length (m_closedRounds m) < chanCap
         then {(m\<lparr>m_closedRounds := m_closedRounds m @ [\<lparr>cr_Epoch = epoch, cr_MembershipRoot = membershipRoot\<rparr>]\<rparr>, None)}
         else {})
        \<union> (if cancelled then {(m, Some ErrCanceled)} else {})
      in if ready = {} then {(m, None)} else ready)"

definition transport_NewProof :: "inMemory \<Rightarrow> bool \<Rightarrow> NIP \<Rightarrow> (inMemory \<times> goerr option) set" where
  "transport_NewProof m cancelled nip =
     (if length (m_proofs m) < chanCap then {(m\<lparr>m_proofs := m_proofs m @ [nip]\<rparr>, None)} else {})
     \<union> (if cancelled then {(m, Some ErrCanceled)} else {})"

text \<open>Receiving from the channels that \<open>RegisterForRoundClosed\<close> and \<open>RegisterForProofs\<close> return.\<close>

definition recvRoundClosed :: "inMemory \<Rightarrow> (inMemory \<times> ClosedRound) set" where
  "recvRoundClosed m = (case m_closedRounds m of [] \<Rightarrow> {} | cr # crs \<Rightarrow> {(m\<lparr>m_closedRounds := crs\<rparr>, cr)})"

definition recvProof :: "inMemory \<Rightarrow> (inMemory \<times> NIP) set" where
  "recvProof m = (case m_proofs m of [] \<Rightarrow> {} | p # ps \<Rightarrow> {(m\<lparr>m_proofs := ps\<rparr>, p)})"

section \<open>Runs of a channel\<close>

text \<open>
  The history of a channel: every message offered to \<open>send\<close>, with what the sender met (an empty buffer,
  a cancelled context) and the answer it got, and the messages received so far. Other operations of the
  transport may happen in between as long as they leave this channel alone.
\<close>

record 'a offer =
  of_message :: 'a
  of_free :: bool
  of_cancelled :: bool
  of_answer :: "goerr option"

inductive chan_run ::
  "'m \<Rightarrow> ('m \<Rightarrow> bool \<Rightarrow> 'a \<Rightarrow> ('m \<times> goerr option) set) \<Rightarrow> ('m \<Rightarrow> ('m \<times> 'a) set) \<Rightarrow> ('m \<Rightarrow> 'a list) \<Rightarrow>
   'm \<Rightarrow> 'a offer list \<Rightarrow> 'a list \<Rightarrow> bool"
  for init send recv queued where
  run_start: "chan_run init send recv queued init [] []"
| run_send: "chan_run init send recv queued m offers got \<Longrightarrow> (m', r) \<in> send m c x \<Longrightarrow>
     chan_run init send recv queued m'
       (offers @ [\<lparr>of_message = x, of_free = (queued m = []), of_cancelled = c, of_answer = r\<rparr>]) got"
| run_recv: "chan_run init send recv queued m offers got \<Longrightarrow> (m', x) \<in> recv m \<Longrightarrow>
     chan_run init send recv queued m' offers (got @ [x])"
| run_other: "chan_run init send recv queued m offers got \<Longrightarrow> queued m' = queued m \<Longrightarrow>
     chan_run init send recv queued m' offers got"

text \<open>The messages that the buffer took: those answered with \<open>nil\<close> while it was empty.\<close>

definition taken :: "'a offer list \<Rightarrow> 'a list" where
  "taken offers = map of_message (filter (\<lambda>x. of_free x \<and> of_answer x = None) offers)"

definition answered :: "'a offer list \<Rightarrow> 'a list" where
  "answered offers = map of_message (filter (\<lambda>x. of_answer x = None) offers)"

section \<open>The interfaces\<close>

text \<open>
  One direction of the transport, a buffer of one message; \<open>queued\<close> is its content. An empty buffer takes
  the message unless the context is cancelled; a full one is left as it is.
\<close>

locale message_channel =
  fixes init :: 'm
    and send :: "'m \<Rightarrow> bool \<Rightarrow> 'a \<Rightarrow> ('m \<times> goerr option) set"
    and recv :: "'m \<Rightarrow> ('m \<times> 'a) set"
    and queued :: "'m \<Rightarrow> 'a list"
  assumes init_empty: "queued init = []"
    and send_free: "queued m = [] \<Longrightarrow> (m', None) \<in> send m c x \<Longrightarrow> queued m' = [x]"
    and send_full: "queued m \<noteq> [] \<Longrightarrow> (m', r) \<in> send m c x \<Longrightarrow> queued m' = queued m"
    and send_error: "(m', Some e) \<in> send m c x \<Longrightarrow> c \<and> queued m' = queued m"
    and recv_effect: "(m', x) \<in> recv m \<Longrightarrow> queued m = x # queued m'"
    and recv_ready: "queued m \<noteq> [] \<Longrightarrow> recv m \<noteq> {}"
begin

lemma run_exact: "chan_run init send recv queued m offers got \<Longrightarrow> got @ queued m = taken offers"
proof (induction rule: chan_run.induct)
  case (run_send m offers got m' r c x)
  show ?case
  proof (cases r)
    case None
    then show ?thesis using run_send.IH run_send.hyps(2) send_free [of m m' c x] send_full [of m m' None c x]
      by (cases "queued m = []") (simp_all add: taken_def)
  next
    case (Some e)
    then show ?thesis using run_send.IH run_send.hyps(2) send_error [of m' e m c x] by (simp add: taken_def)
  qed
qed (simp_all add: init_empty taken_def recv_effect)

lemma run_errors: "chan_run init send recv queued m offers got \<Longrightarrow> \<forall>x\<in>set offers. of_answer x \<noteq> None \<longrightarrow> of_cancelled x"
proof (induction rule: chan_run.induct)
  case (run_send m offers got m' r c x)
  then show ?case using send_error [of m' _ m c x] by (cases r) auto
qed simp_all

end

text \<open>A sender that never blocks, as the registration service's loop needs it.\<close>

locale nonblocking_channel = message_channel +
  assumes send_total: "send m c x \<noteq> {}"
begin

lemma never_blocks: "send m c x \<noteq> {} \<and> (queued m = [] \<longrightarrow> (\<forall>(m', r) \<in> send m False x. r = None \<and> queued m' = [x]))"
proof -
  have "r = None \<and> queued m' = [x]" if "queued m = []" and "(m', r) \<in> send m False x" for m' r
    using that send_error send_free by (cases r) blast+
  then show ?thesis using send_total by blast
qed

end

text \<open>A sender that waits for room, as the worker does with a proof: an answer of \<open>nil\<close> is a delivery.\<close>

locale waiting_channel = message_channel +
  assumes send_waits: "queued m \<noteq> [] \<Longrightarrow> (m', None) \<notin> send m c x"
begin

lemma run_answered: "chan_run init send recv queued m offers got \<Longrightarrow> taken offers = answered offers"
proof (induction rule: chan_run.induct)
  case (run_send m offers got m' r c x)
  then show ?case using send_waits [of m m' c x] by (cases r) (auto simp: taken_def answered_def)
qed (simp_all add: taken_def answered_def)

end

section \<open>The transport provides them\<close>

definition sendClosed :: "inMemory \<Rightarrow> bool \<Rightarrow> ClosedRound \<Rightarrow> (inMemory \<times> goerr option) set" where
  "sendClosed m c cr = ExecuteRound m c (cr_Epoch cr) (cr_MembershipRoot cr)"

interpretation closed_rounds: nonblocking_channel NewInMemory sendClosed recvRoundClosed m_closedRounds
  by unfold_locales
    (auto simp: NewInMemory_def sendClosed_def ExecuteRound_def recvRoundClosed_def chanCap_def Let_def split: if_splits list.splits)

interpretation proofs: waiting_channel NewInMemory transport_NewProof recvProof m_proofs
  by unfold_locales
    (auto simp: NewInMemory_def transport_NewProof_def recvProof_def chanCap_def split: if_splits list.splits)

section \<open>A concrete history\<close>

text \<open>
  The registration service closes three rounds; the second one meets a full buffer. The worker takes
  the first one and publishes its proof, which the registration service takes.
\<close>

definition demo_closed :: "uint \<Rightarrow> ClosedRound" where
  "demo_closed e = \<lparr>cr_Epoch = e, cr_MembershipRoot = [1, 2]\<rparr>"

definition round_nip :: NIP where
  "round_nip = \<lparr>Root = [1], ProvenLeaves = [[2]], ProofNodes = [[3]], Epoch = 4, Leaves = 7\<rparr>"

abbreviation closed_run :: "inMemory \<Rightarrow> ClosedRound offer list \<Rightarrow> ClosedRound list \<Rightarrow> bool" where
  "closed_run \<equiv> chan_run NewInMemory sendClosed recvRoundClosed m_closedRounds"

abbreviation proof_run :: "inMemory \<Rightarrow> NIP offer list \<Rightarrow> NIP list \<Rightarrow> bool" where
  "proof_run \<equiv> chan_run NewInMemory transport_NewProof recvProof m_proofs"

lemmas transport_ops = sendClosed_def ExecuteRound_def recvRoundClosed_def transport_NewProof_def recvProof_def
  NewInMemory_def chanCap_def Let_def

lemmas closed_run_send = run_send [of NewInMemory sendClosed recvRoundClosed m_closedRounds]
  and closed_run_recv = run_recv [of NewInMemory sendClosed recvRoundClosed m_closedRounds]
  and proof_run_send = run_send [of NewInMemory transport_NewProof recvProof m_proofs]
  and proof_run_recv = run_recv [of NewInMemory transport_NewProof recvProof m_proofs]

abbreviation demo_offers :: "ClosedRound offer list" where
  "demo_offers \<equiv> [\<lparr>of_message = demo_closed 4, of_free = True, of_cancelled = False, of_answer = None\<rparr>,
     \<lparr>of_message = demo_closed 5, of_free = False, of_cancelled = False, of_answer = None\<rparr>,
     \<lparr>of_message = demo_closed 6, of_free = True, of_cancelled = False, of_answer = None\<rparr>]"

lemma demo_closed_run: "closed_run (NewInMemory\<lparr>m_closedRounds := [demo_closed 6]\<rparr>) demo_offers [demo_closed 4]"
proof -
  let ?m = "NewInMemory\<lparr>m_closedRounds := [demo_closed 4]\<rparr>" and ?n = "NewInMemory\<lparr>m_closedRounds := [demo_closed 6]\<rparr>"
  have 1: "(?m, None) \<in> sendClosed NewInMemory False (demo_closed 4)" "(?m, None) \<in> sendClosed ?m False (demo_closed 5)"
    "(NewInMemory, demo_closed 4) \<in> recvRoundClosed ?m" "(?n, None) \<in> sendClosed NewInMemory False (demo_closed 6)"
    by (simp_all add: transport_ops demo_closed_def)
  from closed_run_send [OF closed_run_recv [OF closed_run_send [OF closed_run_send [OF run_start 1(1)] 1(2)] 1(3)] 1(4)]
  show ?thesis by (simp add: NewInMemory_def)
qed

lemma demo_proof_run:
  "proof_run (NewInMemory\<lparr>m_closedRounds := [demo_closed 6]\<rparr>)
     [\<lparr>of_message = round_nip, of_free = True, of_cancelled = False, of_answer = None\<rparr>] [round_nip]"
proof -
  let ?m = "NewInMemory\<lparr>m_proofs := [round_nip]\<rparr>"
  have "(?m, None) \<in> transport_NewProof NewInMemory False round_nip" "(NewInMemory, round_nip) \<in> recvProof ?m"
    by (simp_all add: transport_ops)
  from proof_run_recv [OF proof_run_send [OF run_start this(1)] this(2)]
  have "proof_run NewInMemory [\<lparr>of_message = round_nip, of_free = True, of_cancelled = False, of_answer = None\<rparr>] [round_nip]"
    by (simp add: NewInMemory_def)
  then show ?thesis by (rule run_other) simp
qed

section \<open>Properties\<close>

text \<open>
  C22: What the transport delivers, in every history from its creation. The closed rounds that the
  worker has received, followed by the one still in the channel, are exactly the rounds handed over while
  the channel was empty and answered with \<open>nil\<close>, in the order of the hand-overs: these are never lost,
  repeated or reordered, and every other one is dropped, also where the answer is \<open>nil\<close>. The
  proofs that the registration service has received and the one still in the channel are exactly those
  whose \<open>NewProof\<close> returned \<open>nil\<close>. On both channels an error is answered only to a cancelled context.
  Handing over a round never blocks, and an empty channel takes it whenever the context is live.
\<close>

theorem transport_delivers_exactly:
  assumes "chan_run NewInMemory sendClosed recvRoundClosed m_closedRounds m rounds got"
    and "chan_run NewInMemory transport_NewProof recvProof m_proofs m published gotProofs"
  shows "got @ m_closedRounds m = map of_message (filter (\<lambda>x. of_free x \<and> of_answer x = None) rounds) \<and>
    gotProofs @ m_proofs m = map of_message (filter (\<lambda>x. of_answer x = None) published) \<and>
    (\<forall>x\<in>set rounds. of_answer x \<noteq> None \<longrightarrow> of_cancelled x) \<and> (\<forall>x\<in>set published. of_answer x \<noteq> None \<longrightarrow> of_cancelled x) \<and>
    sendClosed m c cr \<noteq> {} \<and> (m_closedRounds m = [] \<longrightarrow> (\<forall>(m', r) \<in> sendClosed m False cr. r = None \<and> m_closedRounds m' = [cr]))"
  using closed_rounds.run_exact [OF assms(1)] closed_rounds.run_errors [OF assms(1)]
    proofs.run_exact [OF assms(2)] proofs.run_answered [OF assms(2)] proofs.run_errors [OF assms(2)]
    closed_rounds.never_blocks [of m c cr]
  by (simp add: taken_def answered_def)

theorem transport_delivers_exactly_witness:
  "\<exists>m rounds published gotProofs.
     chan_run NewInMemory sendClosed recvRoundClosed m_closedRounds m rounds [demo_closed 4] \<and>
     chan_run NewInMemory transport_NewProof recvProof m_proofs m published gotProofs \<and>
     map of_message rounds = [demo_closed 4, demo_closed 5, demo_closed 6] \<and>
     [demo_closed 4] @ m_closedRounds m = [demo_closed 4, demo_closed 6] \<and> gotProofs @ m_proofs m = [round_nip]"
proof -
  let ?m = "NewInMemory\<lparr>m_closedRounds := [demo_closed 6]\<rparr>"
  from transport_delivers_exactly [OF demo_closed_run demo_proof_run]
  have "[demo_closed 4] @ m_closedRounds ?m = [demo_closed 4, demo_closed 6] \<and> [round_nip] @ m_proofs ?m = [round_nip]" by simp
  moreover have "map of_message demo_offers = [demo_closed 4, demo_closed 5, demo_closed 6]" by simp
  ultimately show ?thesis using demo_closed_run demo_proof_run
    by (intro exI [of _ ?m] exI [of _ demo_offers] exI [of _ "[\<lparr>of_message = round_nip, of_free = True, of_cancelled = False, of_answer = None\<rparr>]"]
      exI [of _ "[round_nip]"] conjI) simp_all
qed

end
