(* ===== verification/Reg_Service.thy ===== *)
theory Reg_Service
  imports Reg_DB Cert Pow Transport
begin

text \<open>
  The registration service (\<open>registration/registration.go\<close> and \<open>registration/config.go\<close>): it accepts
  challenges that come with a certificate or a proof of work into the open round, closes rounds on
  schedule and hands their membership roots to the worker, and stores the proofs it gets back. One
  call of a handler is one step; its effect on the file system, on the worker's transport and on the
  service is explicit.
\<close>

section \<open>Configuration\<close>

text \<open>A \<open>nil\<close> key is \<open>None\<close>.\<close>

record CertifierConfig =
  cc_URL :: string
  cc_PubKey :: "bytes option"
  cc_TrustedKeysDirPath :: string

record reg_Config =
  PowDifficulty :: uint
  MaxRoundMembers :: int
  MaxSubmitBatchSize :: int
  SubmitFlushInterval :: duration
  Certifier :: "CertifierConfig option"

definition reg_DefaultConfig :: reg_Config where
  "reg_DefaultConfig = \<lparr>PowDifficulty = 0, MaxRoundMembers = 2 ^ 32, MaxSubmitBatchSize = 1000,
     SubmitFlushInterval = duration_ns (100 * 1000000), Certifier = None\<rparr>"

section \<open>State\<close>

text \<open>The third-party packages and cryptographic functions the service calls.\<close>

record ('w, 'h, 't, 'sw, 'sr) reg_libs =
  rl_ldb :: "('w, 'h) leveldb_api"
  rl_xdr :: xdr_api
  rl_mtree :: "'t mtree_api"
  rl_blake3 :: "bytes \<Rightarrow> bytes"
  rl_scale :: "('sw, 'sr) scale_api"
  rl_newdec :: "bytes \<Rightarrow> 'sr"
  rl_ed25519 :: "bytes \<Rightarrow> bytes \<Rightarrow> bytes \<Rightarrow> bool"
  rl_ripemd :: "bytes \<Rightarrow> bytes"

type_synonym CertKeyHint = bytes

text \<open>The service before and after its first round is opened.\<close>

record 'h reg_base =
  reg_genesis :: gotime
  reg_cfg :: reg_Config
  reg_roundCfg :: RoundConfig
  reg_dbdir :: string
  reg_pubkey :: bytes
  reg_trustedCertifierKeys :: "CertKeyHint \<rightharpoonup> bytes list"
  reg_db :: "'h database"
  reg_powVerifiers :: powVerifiers

record 'h Registration = "'h reg_base" +
  reg_openRound :: "'h round"

text \<open>The conversion of a slice to \<open>[4]byte\<close> panics when the slice is shorter.\<close>

definition CertKeyHintOf :: "bytes \<Rightarrow> CertKeyHint outcome" where
  "CertKeyHintOf key = (if length key < 4 then Panic else Ret (take 4 key))"

section \<open>Trusted keys\<close>

text \<open>
  What \<open>filepath.Walk\<close> reports for one file: whether the context is cancelled by then, the error it
  passes on, and what opening and reading the file as base64 give.
\<close>

record walkEntry =
  we_path :: string
  we_cancelled :: bool
  we_err :: "goerr option"
  we_isDir :: bool
  we_open :: "goerr option"
  we_key :: "goerr + bytes"

definition filepath_Ext :: "string \<Rightarrow> string" where
  "filepath_Ext p =
     (let t = takeWhile (\<lambda>c. c \<noteq> CHR ''.'' \<and> c \<noteq> CHR ''/'') (rev p);
          rest = drop (length t) (rev p)
      in if rest \<noteq> [] \<and> hd rest = CHR ''.'' then CHR ''.'' # rev t else [])"

definition walkFn :: "(CertKeyHint \<rightharpoonup> bytes list) \<Rightarrow> walkEntry \<Rightarrow> goerr + (CertKeyHint \<rightharpoonup> bytes list)" where
  "walkFn loadedKeys f =
     (if we_cancelled f then Inl ErrCanceled
      else case we_err f of
        Some err \<Rightarrow> Inl err
      | None \<Rightarrow>
          if we_isDir f \<or> filepath_Ext (we_path f) \<noteq> ''.key'' then Inr loadedKeys
          else (case we_open f of
              Some err \<Rightarrow> Inl err
            | None \<Rightarrow>
                (case we_key f of
                   Inl err \<Rightarrow> Inl (Join ErrInvalidPublicKey err)
                 | Inr key \<Rightarrow>
                     if length key \<noteq> ed25519_PublicKeySize then Inl ErrInvalidPublicKey
                     else let hint = take 4 key;
                              old = (case loadedKeys hint of None \<Rightarrow> [] | Some ks \<Rightarrow> ks)
                          in Inr (loadedKeys(hint \<mapsto> old @ [key])))))"

fun walkKeys :: "(CertKeyHint \<rightharpoonup> bytes list) \<Rightarrow> walkEntry list \<Rightarrow> goerr + (CertKeyHint \<rightharpoonup> bytes list)" where
  "walkKeys loadedKeys [] = Inr loadedKeys"
| "walkKeys loadedKeys (f # fs) =
     (case walkFn loadedKeys f of Inl err \<Rightarrow> Inl err | Inr keys \<Rightarrow> walkKeys keys fs)"

definition pubKeyMap :: "bytes option \<Rightarrow> (CertKeyHint \<rightharpoonup> bytes list) outcome" where
  "pubKeyMap key =
     (case key of
        None \<Rightarrow> Ret Map.empty
      | Some k \<Rightarrow> (case CertKeyHintOf k of Panic \<Rightarrow> Panic | Ret hint \<Rightarrow> Ret [hint \<mapsto> [k]]))"

definition LoadTrustedPublicKeys ::
  "walkEntry list \<Rightarrow> ('h, 'z) reg_base_scheme \<Rightarrow> (('h, 'z) reg_base_scheme \<times> goerr option) outcome" where
  "LoadTrustedPublicKeys walk r =
     (case Certifier (reg_cfg r) of
        None \<Rightarrow> Ret (r, Some ErrCertificationIsNotSupported)
      | Some cc \<Rightarrow>
          if cc_TrustedKeysDirPath cc = '''' then Ret (r, Some ErrTrustedKeyDirPathIsNotSet)
          else (case pubKeyMap (cc_PubKey cc) of
              Panic \<Rightarrow> Panic
            | Ret loadedKeys \<Rightarrow>
                (case walkKeys loadedKeys walk of
                   Inl err \<Rightarrow> Ret (r, Some (Wrap ''reading trusted keys from dir'' err))
                 | Inr keys \<Rightarrow> Ret (r\<lparr>reg_trustedCertifierKeys := keys\<rparr>, None))))"

section \<open>Construction\<close>

definition newRoundOpts :: "reg_Config \<Rightarrow> (newRoundOptions \<Rightarrow> newRoundOptions) list" where
  "newRoundOpts cfg = [withMaxMembers (MaxRoundMembers cfg), withMaxSubmitBatchSize (MaxSubmitBatchSize cfg),
     withSubmitFlushInterval (SubmitFlushInterval cfg)]"

text \<open>\<open>random\<close> is the fresh challenge drawn when no challenge could be read.\<close>

definition setupPowProviders ::
  "('w, 'h) leveldb_api \<Rightarrow> bytes \<Rightarrow> 'w \<Rightarrow> 'h database \<Rightarrow> reg_Config \<Rightarrow> 'w \<times> powVerifiers" where
  "setupPowProviders L random w d cfg =
     (case GetPowChallenges L w d of
        (w, Inl err) \<Rightarrow>
          (fst (SavePowChallenge L w d random),
           \<lparr>previous = None, current = NewPowVerifier (NewPowParams random (PowDifficulty cfg))\<rparr>)
      | (w, Inr (cur, prev)) \<Rightarrow>
          (w, \<lparr>previous = Some (NewPowVerifier (NewPowParams prev (PowDifficulty cfg))),
               current = NewPowVerifier (NewPowParams cur (PowDifficulty cfg))\<rparr>))"

text \<open>Opening the round that is open for registration now.\<close>

definition openCurrentRound ::
  "('w, 'h) leveldb_api \<Rightarrow> gotime \<Rightarrow> 'w \<Rightarrow> ('h, 'z) reg_base_scheme \<Rightarrow> ('w \<times> (goerr + 'h round)) outcome" where
  "openCurrentRound L now w r =
     (case OpenRoundId (reg_roundCfg r) (reg_genesis r) now of
        Panic \<Rightarrow> Panic
      | Ret epoch \<Rightarrow>
          Ret (case newRound L w epoch (reg_dbdir r) (newRoundOpts (reg_cfg r)) of
                 (w, Inl err) \<Rightarrow> (w, Inl (Wrap ''creating new round'' err))
               | (w, Inr rnd) \<Rightarrow> (w, Inr rnd)))"

definition certifierKeys :: "CertifierConfig option \<Rightarrow> (CertKeyHint \<rightharpoonup> bytes list) outcome" where
  "certifierKeys certifier = (case certifier of None \<Rightarrow> Ret Map.empty | Some cc \<Rightarrow> pubKeyMap (cc_PubKey cc))"

definition loadIfConfigured ::
  "walkEntry list \<Rightarrow> 'h reg_base \<Rightarrow> ('h reg_base \<times> goerr option) outcome" where
  "loadIfConfigured walk r =
     (case Certifier (reg_cfg r) of
        None \<Rightarrow> Ret (r, None)
      | Some cc \<Rightarrow> if cc_TrustedKeysDirPath cc \<noteq> '''' then LoadTrustedPublicKeys walk r else Ret (r, None))"

definition withOpenRound :: "'h reg_base \<Rightarrow> 'h round \<Rightarrow> 'h Registration" where
  "withOpenRound r rnd = \<lparr>reg_genesis = reg_genesis r, reg_cfg = reg_cfg r, reg_roundCfg = reg_roundCfg r,
     reg_dbdir = reg_dbdir r, reg_pubkey = reg_pubkey r, reg_trustedCertifierKeys = reg_trustedCertifierKeys r,
     reg_db = reg_db r, reg_powVerifiers = reg_powVerifiers r, reg_openRound = rnd\<rparr>"

definition newWithDatabase ::
  "('w, 'h) leveldb_api \<Rightarrow> walkEntry list \<Rightarrow> gotime \<Rightarrow> 'w \<Rightarrow> 'h reg_base \<Rightarrow>
   ('w \<times> (goerr + 'h Registration)) outcome" where
  "newWithDatabase L walk now w r =
     (case certifierKeys (Certifier (reg_cfg r)) of
        Panic \<Rightarrow> Panic
      | Ret keys \<Rightarrow>
          (case loadIfConfigured walk (r\<lparr>reg_trustedCertifierKeys := keys\<rparr>) of
             Panic \<Rightarrow> Panic
           | Ret (r, Some err) \<Rightarrow> Ret (w, Inl (Wrap ''loading trusted public keys'' err))
           | Ret (r, None) \<Rightarrow>
               (case openCurrentRound L now w r of
                  Panic \<Rightarrow> Panic
                | Ret (w, Inl err) \<Rightarrow> Ret (w, Inl err)
                | Ret (w, Inr rnd) \<Rightarrow> Ret (w, Inr (withOpenRound r rnd)))))"

text \<open>
  \<open>privKey\<close> is the public part of the configured key, \<open>genKey\<close> what generating one gives, \<open>pow\<close> a
  given verifier; \<open>walk\<close> is what walking the directory of trusted keys reports.
\<close>

definition reg_New ::
  "('w, 'h) leveldb_api \<Rightarrow> gotime \<Rightarrow> goerr + bytes \<Rightarrow> bytes \<Rightarrow> walkEntry list \<Rightarrow> 'w \<Rightarrow> gotime \<Rightarrow> string \<Rightarrow>
   RoundConfig \<Rightarrow> reg_Config \<Rightarrow> bytes option \<Rightarrow> powVerifier option \<Rightarrow> ('w \<times> (goerr + 'h Registration)) outcome" where
  "reg_New L now genKey random walk w genesis dbdir roundCfg cfg privKey pow =
     (case (case privKey of Some k \<Rightarrow> Inr k | None \<Rightarrow> genKey) of
        Inl err \<Rightarrow> Ret (w, Inl (Wrap ''generating private key'' err))
      | Inr pubkey \<Rightarrow>
          (case newDatabase L w (filepath_Join [dbdir, ''proofs'']) pubkey of
             (w, Inl err) \<Rightarrow> Ret (w, Inl (Wrap ''opening proofs database'' err))
           | (w, Inr d) \<Rightarrow>
               let (w, powVs) = (case pow of
                     None \<Rightarrow> setupPowProviders L random w d cfg
                   | Some v \<Rightarrow> (w, \<lparr>previous = None, current = v\<rparr>))
               in newWithDatabase L walk now w
                    \<lparr>reg_genesis = genesis, reg_cfg = cfg, reg_roundCfg = roundCfg, reg_dbdir = dbdir,
                     reg_pubkey = pubkey, reg_trustedCertifierKeys = Map.empty, reg_db = d,
                     reg_powVerifiers = powVs\<rparr>))"

text \<open>
  The options of \<open>New\<close> are functions that are applied in order to a record that starts with the default
  configuration. Of the private key the record holds the public part, the only one that is used.
\<close>

record newRegistrationOptions =
  opt_powVerifier :: "powVerifier option"
  opt_privKey :: "bytes option"
  opt_cfg :: reg_Config

definition WithPowVerifier :: "powVerifier \<Rightarrow> newRegistrationOptions \<Rightarrow> newRegistrationOptions" where
  "WithPowVerifier verifier opts = opts\<lparr>opt_powVerifier := Some verifier\<rparr>"

definition WithPrivateKey :: "bytes \<Rightarrow> newRegistrationOptions \<Rightarrow> newRegistrationOptions" where
  "WithPrivateKey privKey opts = opts\<lparr>opt_privKey := Some privKey\<rparr>"

definition reg_WithConfig :: "reg_Config \<Rightarrow> newRegistrationOptions \<Rightarrow> newRegistrationOptions" where
  "reg_WithConfig cfg opts = opts\<lparr>opt_cfg := cfg\<rparr>"

definition applyOptions :: "(newRegistrationOptions \<Rightarrow> newRegistrationOptions) list \<Rightarrow> newRegistrationOptions" where
  "applyOptions opts =
     fold (\<lambda>opt options. opt options) opts \<lparr>opt_powVerifier = None, opt_privKey = None, opt_cfg = reg_DefaultConfig\<rparr>"

definition reg_NewWith ::
  "('w, 'h) leveldb_api \<Rightarrow> gotime \<Rightarrow> goerr + bytes \<Rightarrow> bytes \<Rightarrow> walkEntry list \<Rightarrow> 'w \<Rightarrow> gotime \<Rightarrow> string \<Rightarrow>
   RoundConfig \<Rightarrow> (newRegistrationOptions \<Rightarrow> newRegistrationOptions) list \<Rightarrow> ('w \<times> (goerr + 'h Registration)) outcome" where
  "reg_NewWith L now genKey random walk w genesis dbdir roundCfg opts =
     (let options = applyOptions opts in
      reg_New L now genKey random walk w genesis dbdir roundCfg (opt_cfg options) (opt_privKey options)
        (opt_powVerifier options))"

lemma reg_NewWith_config_key [simp]:
  "reg_NewWith L now genKey random walk w genesis dbdir roundCfg [reg_WithConfig cfg, WithPrivateKey key]
     = reg_New L now genKey random walk w genesis dbdir roundCfg cfg (Some key) None"
  by (simp add: reg_NewWith_def applyOptions_def reg_WithConfig_def WithPrivateKey_def)

section \<open>Submitting\<close>

fun verifyAny ::
  "('w, 'h, 't, 'sw, 'sr) reg_libs \<Rightarrow> gotime \<Rightarrow> OpaqueCert \<Rightarrow> bytes \<Rightarrow> bytes list \<Rightarrow> goerr option outcome" where
  "verifyAny libs now certificate nodeID [] = Ret (Some ErrInvalidCertificate)"
| "verifyAny libs now certificate nodeID (key # keys) =
     (case VerifyCertificate (rl_scale libs) (rl_newdec libs) (rl_ed25519 libs) now certificate key nodeID of
        Panic \<Rightarrow> Panic
      | Ret (Inr c) \<Rightarrow> Ret None
      | Ret (Inl err) \<Rightarrow> verifyAny libs now certificate nodeID keys)"

definition verifyCert ::
  "('w, 'h, 't, 'sw, 'sr) reg_libs \<Rightarrow> gotime \<Rightarrow> 'h Registration \<Rightarrow> CertifierConfig \<Rightarrow>
   OpaqueCert \<Rightarrow> CertKeyHint option \<Rightarrow> bytes \<Rightarrow> goerr option outcome" where
  "verifyCert libs now r cc certificate certPubKeyHint nodeID =
     (case certPubKeyHint of
        None \<Rightarrow>
          let key = (case cc_PubKey cc of None \<Rightarrow> [] | Some k \<Rightarrow> k) in
          if length key \<noteq> 0 then
            (case VerifyCertificate (rl_scale libs) (rl_newdec libs) (rl_ed25519 libs) now certificate key nodeID of
               Panic \<Rightarrow> Panic
             | Ret (Inl err) \<Rightarrow> Ret (Some err)
             | Ret (Inr c) \<Rightarrow> Ret None)
          else Ret (Some ErrNoMatchingCertPublicKeys)
      | Some hint \<Rightarrow>
          (case reg_trustedCertifierKeys r hint of
             None \<Rightarrow> Ret (Some ErrNoMatchingCertPublicKeys)
           | Some matchingKeys \<Rightarrow> verifyAny libs now certificate nodeID matchingKeys))"

text \<open>The first half of \<open>Submit\<close>: is the node allowed to register?\<close>

definition authorise ::
  "('w, 'h, 't, 'sw, 'sr) reg_libs \<Rightarrow> gotime \<Rightarrow> 'h Registration \<Rightarrow> bytes \<Rightarrow> bytes \<Rightarrow> u64 \<Rightarrow> PowParams \<Rightarrow>
   CertKeyHint option \<Rightarrow> OpaqueCert option \<Rightarrow> goerr option outcome" where
  "authorise libs now r challenge nodeID nonce powParams certPubkeyHint certificate =
     (case (Certifier (reg_cfg r), certificate) of
        (Some cc, Some cert) \<Rightarrow>
          (case verifyCert libs now r cc cert certPubkeyHint nodeID of
             Panic \<Rightarrow> Panic
           | Ret (Some err) \<Rightarrow> Ret (Some (Join ErrInvalidCertificate err))
           | Ret None \<Rightarrow> Ret None)
      | _ \<Rightarrow> VerifyWithParams (rl_ripemd libs) (reg_powVerifiers r) challenge nodeID nonce powParams)"

text \<open>
  Waiting for the result of an accepted submission: the request's context ends first, or the
  channel delivers. \<open>await r ch\<close> is the case of the \<open>select\<close> that is taken in the end, for channel \<open>ch\<close> of the
  round \<open>r\<close> as the submission left it. The handler gives up the lock before it waits, so the round moves
  on in the meantime; \<open>waitDone\<close> are the cases that are ready once the channel has become \<open>done\<close>. A
  closed channel without a value delivers \<open>nil\<close>.
\<close>

datatype waitResult = CtxDone goerr | Delivered "goerr option"

definition waitDone :: "gochan \<Rightarrow> waitResult set" where
  "waitDone done_ch = range CtxDone \<union>
     (case chan_buf done_ch of
        res # _ \<Rightarrow> {Delivered res}
      | [] \<Rightarrow> if chan_closed done_ch then {Delivered None} else {})"

definition reg_Submit ::
  "('w, 'h, 't, 'sw, 'sr) reg_libs \<Rightarrow> gotime \<Rightarrow> ('h round \<Rightarrow> nat \<Rightarrow> waitResult) \<Rightarrow> 'w \<Rightarrow> 'h Registration \<Rightarrow>
   bytes \<Rightarrow> bytes \<Rightarrow> u64 \<Rightarrow> PowParams \<Rightarrow> CertKeyHint option \<Rightarrow> OpaqueCert option \<Rightarrow> gotime \<Rightarrow>
   ('w \<times> 'h Registration \<times> uint \<times> gotime \<times> goerr option) outcome" where
  "reg_Submit libs now await w r challenge nodeID nonce powParams certPubkeyHint certificate deadline =
     (case authorise libs now r challenge nodeID nonce powParams certPubkeyHint certificate of
        Panic \<Rightarrow> Panic
      | Ret (Some err) \<Rightarrow> Ret (w, r, 0, zeroTime, Some err)
      | Ret None \<Rightarrow>
          let epoch = r_epoch (reg_openRound r);
              endTime = RoundEnd (reg_roundCfg r) (reg_genesis r) epoch
          in if deadline \<noteq> zeroTime \<and> deadline < endTime
             then Ret (w, r, epoch, endTime, Some ErrTooLateToRegister)
             else (case submit (rl_ldb libs) w (reg_openRound r) nodeID challenge of
                 (w, rnd, Inr ch) \<Rightarrow>
                   let r = r\<lparr>reg_openRound := rnd\<rparr> in
                   (case await rnd ch of
                      CtxDone err \<Rightarrow> Ret (w, r, 0, zeroTime, Some err)
                    | Delivered (Some err) \<Rightarrow> Ret (w, r, 0, zeroTime, Some err)
                    | Delivered None \<Rightarrow> Ret (w, r, epoch, endTime, None))
               | (w, rnd, Inl err) \<Rightarrow>
                   let r = r\<lparr>reg_openRound := rnd\<rparr> in
                   if errors_Is err ErrChallengeAlreadySubmitted then Ret (w, r, epoch, endTime, None)
                   else Ret (w, r, 0, zeroTime, Some err)))"

section \<open>Closing rounds and storing proofs\<close>

text \<open>
  \<open>exec\<close> is the worker service's \<open>ExecuteRound\<close> on the state \<open>'q\<close> of its transport.
\<close>

type_synonym 'q exec_round = "'q \<Rightarrow> uint \<Rightarrow> bytes \<Rightarrow> 'q \<times> goerr option"

definition closeRound ::
  "('w, 'h, 't, 'sw, 'sr) reg_libs \<Rightarrow> 'q exec_round \<Rightarrow> gotime \<Rightarrow> 'w \<Rightarrow> 'q \<Rightarrow> 'h Registration \<Rightarrow>
   ('w \<times> 'q \<times> 'h Registration \<times> goerr option) outcome" where
  "closeRound libs exec now w q r =
     (case calcMembershipRoot (rl_ldb libs) (rl_mtree libs) (rl_blake3 libs) w (reg_openRound r) of
        (w, rnd, Inl err) \<Rightarrow>
          Ret (w, q, r\<lparr>reg_openRound := rnd\<rparr>, Some (Wrap ''calculating membership root'' err))
      | (w, rnd, Inr root) \<Rightarrow>
          (case round_Close (rl_ldb libs) w rnd of (w, rnd, closeErr) \<Rightarrow>
             let r = r\<lparr>reg_openRound := rnd\<rparr> in
             (case exec q (r_epoch rnd) root of
                (q, Some err) \<Rightarrow> Ret (w, q, r, Some (Wrap ''closing round for epoch'' err))
              | (q, None) \<Rightarrow>
                  (case openCurrentRound (rl_ldb libs) now w r of
                     Panic \<Rightarrow> Panic
                   | Ret (w, Inl err) \<Rightarrow> Ret (w, q, r, Some err)
                   | Ret (w, Inr rnd) \<Rightarrow> Ret (w, q, r\<lparr>reg_openRound := rnd\<rparr>, None)))))"

definition recoverExecution ::
  "('w, 'h, 't, 'sw, 'sr) reg_libs \<Rightarrow> 'q exec_round \<Rightarrow> 'w \<Rightarrow> 'q \<Rightarrow> 'h Registration \<Rightarrow> uint \<Rightarrow>
   'w \<times> 'q \<times> goerr option" where
  "recoverExecution libs exec w q r epoch =
     (case newRound (rl_ldb libs) w epoch (reg_dbdir r) (newRoundOpts (reg_cfg r) @ [failIfNotExists]) of
        (w, Inl err) \<Rightarrow> (w, q, if errors_Is err ErrNotExist then None else Some err)
      | (w, Inr rnd) \<Rightarrow>
          (case calcMembershipRoot (rl_ldb libs) (rl_mtree libs) (rl_blake3 libs) w rnd of
             (w, rnd, Inl err) \<Rightarrow>
               (fst (round_Close (rl_ldb libs) w rnd), q, Some (Wrap ''calculating membership root'' err))
           | (w, rnd, Inr root) \<Rightarrow>
               (case exec q (r_epoch rnd) root of
                  (q, Some err) \<Rightarrow>
                    (fst (round_Close (rl_ldb libs) w rnd), q, Some (Wrap ''scheduling in-progress round for epoch'' err))
                | (q, None) \<Rightarrow> (fst (round_Close (rl_ldb libs) w rnd), q, None))))"

definition reg_onNewProof ::
  "('w, 'h, 't, 'sw, 'sr) reg_libs \<Rightarrow> 'w \<Rightarrow> 'h Registration \<Rightarrow> NIP \<Rightarrow> 'w \<times> 'h Registration \<times> goerr option" where
  "reg_onNewProof libs w r nip =
     (case newRound (rl_ldb libs) w (Epoch nip) (reg_dbdir r) (newRoundOpts (reg_cfg r) @ [failIfNotExists]) of
        (w, Inl err) \<Rightarrow> (w, r, if errors_Is err ErrNotExist then None else Some err)
      | (w, Inr rnd) \<Rightarrow>
          let members = getMembers (rl_ldb libs) w rnd;
              w = fst (round_Close (rl_ldb libs) w rnd)
          in (case SaveProof (rl_ldb libs) (rl_xdr libs) w (reg_db r) nip members of
                (w, Some err) \<Rightarrow> (w, r, Some (Wrap ''saving proof in DB'' err))
              | (w, None) \<Rightarrow>
                  let params = (powVerifiers_Params (reg_powVerifiers r))\<lparr>Challenge := Root nip\<rparr>
                  in (w, r\<lparr>reg_powVerifiers := powVerifiers_SetParams (reg_powVerifiers r) params\<rparr>, None)))"

text \<open>Simple accessors, and the time until a round starts.\<close>

definition CertifierInfo :: "'h Registration \<Rightarrow> CertifierConfig option" where
  "CertifierInfo r = Certifier (reg_cfg r)"

definition reg_Pubkey :: "'h Registration \<Rightarrow> bytes" where
  "reg_Pubkey r = reg_pubkey r"

definition OpenRound :: "'h Registration \<Rightarrow> uint" where
  "OpenRound r = r_epoch (reg_openRound r)"

definition reg_PowParams :: "'h Registration \<Rightarrow> PowParams" where
  "reg_PowParams r = powVerifiers_Params (reg_powVerifiers r)"

definition reg_Proof :: "('w, 'h, 't, 'sw, 'sr) reg_libs \<Rightarrow> 'w \<Rightarrow> 'h Registration \<Rightarrow> string \<Rightarrow> goerr + proofData" where
  "reg_Proof libs w r roundId = GetProof (rl_ldb libs) (rl_xdr libs) w (reg_db r) roundId"

definition scheduleRound :: "gotime \<Rightarrow> 'h Registration \<Rightarrow> uint \<Rightarrow> duration" where
  "scheduleRound now r epoch = Time_Sub (RoundStart (reg_roundCfg r) (reg_genesis r) epoch) now"

definition reg_Close :: "('w, 'h, 't, 'sw, 'sr) reg_libs \<Rightarrow> 'w \<Rightarrow> 'h Registration \<Rightarrow> 'w \<times> 'h Registration \<times> goerr option" where
  "reg_Close libs w r =
     (case database_Close (rl_ldb libs) w (reg_db r) of (w, e1) \<Rightarrow>
        (case round_Close (rl_ldb libs) w (reg_openRound r) of (w, rnd, e2) \<Rightarrow>
           (w, r\<lparr>reg_openRound := rnd\<rparr>,
            (case (e1, e2) of
               (None, e) \<Rightarrow> e
             | (Some e, None) \<Rightarrow> Some e
             | (Some a, Some b) \<Rightarrow> Some (Join a b)))))"

section \<open>Lemmas\<close>

text \<open>Iterations over an open database are complete.\<close>

definition iter_ok :: "('w, 'h) leveldb_api \<Rightarrow> ('w, 'h) ldb_path \<Rightarrow> bool" where
  "iter_ok L path \<longleftrightarrow> (\<forall>w h. path w h \<noteq> None \<longrightarrow> snd (ldb_Items L w h) = None)"

lemma newRound_opened:
  assumes "leveldb_contract L cont path" "newRound L w e dbdir opts = (w', Inr rnd)"
  shows "path w (r_db rnd) = None" "path w' = (path w)(r_db rnd \<mapsto> roundPath dbdir e)"
    "cont w' = (cont w)(roundPath dbdir e \<mapsto> (case cont w (roundPath dbdir e) of None \<Rightarrow> Map.empty | Some m \<Rightarrow> m))"
    "r_pendingSubmits rnd = []" "r_batch rnd = []" "r_epoch rnd = e"
proof -
  obtain b where o: "ldb_OpenFile L w (roundPath dbdir e) b = (w', Inr (r_db rnd))"
    using assms(2) by (auto simp: newRound_def Let_def split: prod.splits sum.splits)
  show "path w (r_db rnd) = None" "path w' = (path w)(r_db rnd \<mapsto> roundPath dbdir e)"
    "cont w' = (cont w)(roundPath dbdir e \<mapsto> (case cont w (roundPath dbdir e) of None \<Rightarrow> Map.empty | Some m \<Rightarrow> m))"
    by (rule contract_open_all [OF assms(1) o])+
  show "r_pendingSubmits rnd = []" "r_batch rnd = []" "r_epoch rnd = e"
    using assms(2) by (auto simp: newRound_def Let_def split: prod.splits sum.splits)
qed

lemma newRound_keeps:
  assumes "leveldb_contract L cont path" "newRound L w e dbdir opts = (w', Inr rnd)" "cont w p = Some m"
  shows "cont w' p = Some m"
  using newRound_opened(3) [OF assms(1,2)] assms(3) by (cases "p = roundPath dbdir e") simp_all

text \<open>Only a missing database makes \<open>newRound\<close> fail with \<open>fs.ErrNotExist\<close>.\<close>

lemma newRound_missing:
  assumes "leveldb_contract L cont path" and "newRound L w e dbdir opts = (w', Inl err)" and "errors_Is err ErrNotExist"
  shows "cont w (roundPath dbdir e) = None"
proof -
  obtain b e0 where "ldb_OpenFile L w (roundPath dbdir e) b = (w', Inl e0)" "err = Wrap ''failed to open round db'' e0"
    using assms(2) by (auto simp: newRound_def Let_def split: prod.splits sum.splits)
  with contract_open_missing [OF assms(1)] assms(3) show ?thesis by fastforce
qed

text \<open>A round without pending submissions is closed without touching any database.\<close>

lemma round_Close_idle:
  assumes "leveldb_contract L cont path" "path w (r_db rnd) = Some p" "r_batch rnd = []"
    "round_Close L w rnd = (w', rnd', err)"
  shows "cont w' = cont w" "path w' = (path w)(r_db rnd := None)"
proof -
  obtain e where "ldb_Close L w (r_db rnd) = (w', e)"
    using assms(3,4)
    by (auto simp: round_Close_def flushPendingSubmits_def flushPendingSubmitsLocked_def split: prod.splits option.splits)
  from contract_close [OF assms(1,2) this] show "cont w' = cont w" "path w' = (path w)(r_db rnd := None)" .
qed

text \<open>What a call of \<open>closeRound\<close> that gets to the worker has done.\<close>

lemma closeRound_handover:
  assumes "closeRound libs exec now w q r = Ret (w', q', r', None)"
  obtains w1 rnd1 root w2 rnd2 err e rnd where
    "calcMembershipRoot (rl_ldb libs) (rl_mtree libs) (rl_blake3 libs) w (reg_openRound r) = (w1, rnd1, Inr root)"
    and "round_Close (rl_ldb libs) w1 rnd1 = (w2, rnd2, err)"
    and "exec q (r_epoch (reg_openRound r)) root = (q', None)"
    and "OpenRoundId (reg_roundCfg r) (reg_genesis r) now = Ret e"
    and "newRound (rl_ldb libs) w2 e (reg_dbdir r) (newRoundOpts (reg_cfg r)) = (w', Inr rnd)"
    and "r' = r\<lparr>reg_openRound := rnd\<rparr>"
proof -
  obtain w1 rnd1 root where c: "calcMembershipRoot (rl_ldb libs) (rl_mtree libs) (rl_blake3 libs) w (reg_openRound r) = (w1, rnd1, Inr root)"
    using assms by (auto simp: closeRound_def split: prod.splits sum.splits)
  obtain w2 rnd2 err where cl: "round_Close (rl_ldb libs) w1 rnd1 = (w2, rnd2, err)" by (metis prod_cases3)
  have ep: "r_epoch rnd2 = r_epoch (reg_openRound r)" using calc_epoch [OF c] close_epoch [OF cl] by simp
  have x: "exec q (r_epoch (reg_openRound r)) root = (q', None)"
    using assms c cl ep by (auto simp: closeRound_def Let_def split: prod.splits option.splits outcome.splits sum.splits)
  obtain e where e: "OpenRoundId (reg_roundCfg r) (reg_genesis r) now = Ret e"
    using assms c cl ep x by (auto simp: closeRound_def openCurrentRound_def Let_def split: outcome.splits)
  then obtain rnd where "newRound (rl_ldb libs) w2 e (reg_dbdir r) (newRoundOpts (reg_cfg r)) = (w', Inr rnd)"
    "r' = r\<lparr>reg_openRound := rnd\<rparr>"
    using assms c cl ep x by (auto simp: closeRound_def openCurrentRound_def Let_def split: prod.splits sum.splits)
  then show ?thesis by (rule that [OF c cl x e])
qed

text \<open>Some trusted key has signed an unexpired certificate for the node.\<close>

definition certified_by ::
  "('w, 'h, 't, 'sw, 'sr) reg_libs \<Rightarrow> gotime \<Rightarrow> OpaqueCert \<Rightarrow> bytes \<Rightarrow> bytes \<Rightarrow> bool" where
  "certified_by libs now cert nodeID key \<longleftrightarrow>
     length key = 32 \<and> rl_ed25519 libs key (cert_Data cert) (cert_Signature cert) \<and>
     (\<exists>c. DecodeCert (rl_scale libs) (rl_newdec libs) (cert_Data cert) = Inr c \<and> cert_Pubkey c = nodeID \<and>
        (case cert_Expiration c of None \<Rightarrow> True | Some t \<Rightarrow> now \<le> t))"

text \<open>The keys that a hint (or its absence) selects.\<close>

definition candidate_keys :: "'h Registration \<Rightarrow> CertifierConfig \<Rightarrow> CertKeyHint option \<Rightarrow> bytes set" where
  "candidate_keys r cc hint =
     (case hint of
        None \<Rightarrow> set_option (cc_PubKey cc)
      | Some h \<Rightarrow> (case reg_trustedCertifierKeys r h of None \<Rightarrow> {} | Some ks \<Rightarrow> set ks))"

lemma VerifyCertificate_certified:
  "(\<exists>c. VerifyCertificate (rl_scale libs) (rl_newdec libs) (rl_ed25519 libs) now cert key nodeID = Ret (Inr c))
    \<longleftrightarrow> certified_by libs now cert nodeID key"
  by (auto simp: VerifyCertificate_Inr_iff certified_by_def)

lemma verifyAny_sound:
  "verifyAny libs now cert nodeID keys = Ret None \<Longrightarrow> \<exists>key \<in> set keys. certified_by libs now cert nodeID key"
proof (induction keys)
  case (Cons key keys)
  then show ?case using VerifyCertificate_certified [of libs now cert key nodeID]
    by (auto split: outcome.splits sum.splits)
qed simp

lemma verifyAny_no_panic:
  assumes "\<forall>k \<in> set keys. length k = 32"
  shows "verifyAny libs now cert nodeID keys \<noteq> Panic"
  using assms
proof (induction keys)
  case (Cons key keys)
  then show ?case
    by (auto simp: VerifyCertificate_def ed25519_Verify_def ed25519_PublicKeySize_def split: outcome.splits sum.splits)
qed simp

lemma verifyCert_sound:
  assumes "verifyCert libs now r cc cert hint nodeID = Ret None"
  shows "\<exists>key \<in> candidate_keys r cc hint. certified_by libs now cert nodeID key"
proof (cases hint)
  case None
  then obtain k where "cc_PubKey cc = Some k"
    using assms by (auto simp: verifyCert_def Let_def split: if_splits option.splits)
  then show ?thesis
    using assms None VerifyCertificate_certified [of libs now cert k nodeID]
    by (auto simp: verifyCert_def candidate_keys_def Let_def split: if_splits outcome.splits sum.splits)
next
  case (Some h)
  then show ?thesis using assms verifyAny_sound
    by (auto simp: verifyCert_def candidate_keys_def split: option.splits)
qed

text \<open>Every loaded key has the size of a public key and is filed under its own first bytes.\<close>

definition keys_ok :: "(CertKeyHint \<rightharpoonup> bytes list) \<Rightarrow> bool" where
  "keys_ok m \<longleftrightarrow> (\<forall>hint ks. m hint = Some ks \<longrightarrow> (\<forall>k \<in> set ks. length k = 32 \<and> take 4 k = hint))"

lemma walkFn_keys_ok: "walkFn m f = Inr m' \<Longrightarrow> keys_ok m \<Longrightarrow> keys_ok m'"
  by (auto simp: walkFn_def keys_ok_def ed25519_PublicKeySize_def Let_def split: if_splits option.splits sum.splits)

lemma walkKeys_keys_ok: "walkKeys m fs = Inr m' \<Longrightarrow> keys_ok m \<Longrightarrow> keys_ok m'"
proof (induction m fs rule: walkKeys.induct)
  case (2 m f fs)
  then show ?case using walkFn_keys_ok by (auto split: sum.splits)
qed simp

lemma pubKeyMap_keys_ok:
  assumes "pubKeyMap key = Ret m" and "\<forall>k. key = Some k \<longrightarrow> length k = 32"
  shows "keys_ok m"
  using assms by (auto simp: pubKeyMap_def CertKeyHintOf_def keys_ok_def split: option.splits if_splits)

text \<open>When no round can be opened, the file system and the open databases stay as they are.\<close>

lemma openCurrentRound_error_path:
  assumes "leveldb_contract L cont path" "openCurrentRound L now w r = Ret (w', Inl err)"
  shows "path w' = path w"
proof -
  obtain p b e where "ldb_OpenFile L w p b = (w', Inl e)"
    using assms(2) by (auto simp: openCurrentRound_def newRound_def Let_def split: outcome.splits prod.splits sum.splits)
  moreover have "ldb_open_ok L cont path" using assms(1) by (simp add: leveldb_contract_def)
  ultimately show ?thesis unfolding ldb_open_ok_def by fastforce
qed

lemma reachable_root:
  assumes L: "leveldb_contract L cont path" and I: "iter_ok L path"
    and n: "newRound L w0 e dbdir opts = (w1, Inr r0)"
    and reach: "(round_step L cont path (roundPath dbdir e))\<^sup>*\<^sup>* (w1, r0, []) (w, r, subs)"
    and opn: "path w (r_db r) = Some (roundPath dbdir e)"
    and MT: "mtree_ok MT (HashMembershipTreeNode b3) leaves rootf"
    and c: "calcMembershipRoot L MT b3 w r = (w', r', Inr root)"
  obtains m where "cont w' (roundPath dbdir e) = Some m" and "root = rootf (ordered_members m)"
    and "path w' (r_db r') = Some (roundPath dbdir e)" and "r_batch r' = []" and "r_epoch r = e"
proof -
  have i: "snd (ldb_Items L w1 (r_db r0)) = None"
    using I newRound_opened(2) [OF L n] by (simp add: iter_ok_def)
  note core = round_reachable(1) [OF L n i reach]
  note f = calcMembershipRoot_ok [OF MT c]
  have p: "pending_ok r" using core by (simp add: round_core_def)
  from flush_core [OF L core f(1)] obtain m where m: "cont w' (roundPath dbdir e) = Some m" and p': "pending_ok r'"
    by (auto simp: round_core_def)
  have b: "r_batch r' = []" using p' flush_pending_empty(1) [OF f(1) p] by (simp add: pending_ok_def)
  have o: "path w' (r_db r') = Some (roundPath dbdir e)"
    using f(1) p
  proof (cases rule: flush_result)
    case idle
    then show ?thesis using opn by simp
  next
    case (written err)
    from core obtain m0 where "cont w (roundPath dbdir e) = Some m0" by (auto simp: round_core_def)
    from contract_write(1) [OF L opn this written(2)] written(3) opn show ?thesis by simp
  qed
  have root: "root = rootf (ordered_members m)"
    using items_members [OF L o m] I o f(2) by (simp add: iter_ok_def)
  have "r_epoch r = e"
    using reachable_epoch [OF reach] newRound_opened(6) [OF L n] by simp
  with m root o b show ?thesis by (rule that)
qed

text \<open>A stored proof lists the members of its round's database.\<close>

lemma onNewProof_saves:
  assumes L: "leveldb_contract L cont path" and P: "ldb_put_ok L cont path" and I: "iter_ok L path"
    and m: "cont w (roundPath (reg_dbdir r) (Epoch nip)) = Some m"
    and d: "path w (db_db (reg_db r)) = Some dbp" "cont w dbp = Some md" "dbp \<noteq> roundPath (reg_dbdir r) (Epoch nip)"
    and libs: "rl_ldb libs = L"
    and on: "reg_onNewProof libs w r nip = (w', r', None)"
  obtains b where "xdr_Marshal (rl_xdr libs) (proofOf (db_pubkey (reg_db r)) nip (ordered_members m)) = Inr b"
    and "cont w' dbp = Some (md(str_bytes (epochToRoundId (Epoch nip)) \<mapsto> b))"
    and "path w' (db_db (reg_db r)) = Some dbp"
    and "r' = r\<lparr>reg_powVerifiers := powVerifiers_SetParams (reg_powVerifiers r)
            ((powVerifiers_Params (reg_powVerifiers r))\<lparr>Challenge := Root nip\<rparr>)\<rparr>"
proof -
  let ?opts = "newRoundOpts (reg_cfg r) @ [failIfNotExists]" and ?p = "roundPath (reg_dbdir r) (Epoch nip)"
  obtain w1 rnd where n: "newRound L w (Epoch nip) (reg_dbdir r) ?opts = (w1, Inr rnd)"
  proof (cases "newRound L w (Epoch nip) (reg_dbdir r) ?opts")
    case (Pair w1 res)
    then show ?thesis
    proof (cases res)
      case (Inl err)
      with Pair on libs have "errors_Is err ErrNotExist"
        by (auto simp: reg_onNewProof_def split: if_splits)
      with newRound_missing [OF L Pair [unfolded Inl]] m show ?thesis by simp
    qed (use Pair that in blast)
  qed
  note o = newRound_opened [OF L n]
  obtain w2 rnd2 err where cl: "round_Close L w1 rnd = (w2, rnd2, err)" by (metis prod_cases3)
  have op: "path w1 (r_db rnd) = Some ?p" using o(2) by simp
  note c = round_Close_idle [OF L op o(5) cl]
  have m1: "cont w1 ?p = Some m" by (rule newRound_keeps [OF L n m])
  have "getMembers L w1 rnd = ordered_members m"
    using items_members [OF L op m1] I op by (simp add: getMembers_def iter_ok_def)
  with on n cl libs have s: "SaveProof L (rl_xdr libs) w2 (reg_db r) nip (ordered_members m) = (w', None)"
    and r': "r' = r\<lparr>reg_powVerifiers := powVerifiers_SetParams (reg_powVerifiers r)
            ((powVerifiers_Params (reg_powVerifiers r))\<lparr>Challenge := Root nip\<rparr>)\<rparr>"
    by (auto simp: reg_onNewProof_def Let_def split: prod.splits option.splits)
  have ne: "db_db (reg_db r) \<noteq> r_db rnd" using o(1) d(1) by auto
  have d2: "path w2 (db_db (reg_db r)) = Some dbp" using c(2) o(2) ne d(1) by simp
  have "cont w2 dbp = Some md" using c(1) newRound_keeps [OF L n d(2)] by simp
  from SaveProof_stored [OF P d2 this s] obtain b where
    "xdr_Marshal (rl_xdr libs) (proofOf (db_pubkey (reg_db r)) nip (ordered_members m)) = Inr b"
    "path w' = path w2" "cont w' = (cont w2)(dbp \<mapsto> md(str_bytes (epochToRoundId (Epoch nip)) \<mapsto> b))" by blast
  with that r' d2 show ?thesis by simp
qed

section \<open>Properties\<close>

lemma verifyCert_no_panic:
  assumes ok: "keys_ok (reg_trustedCertifierKeys r)" and "\<forall>k. cc_PubKey cc = Some k \<longrightarrow> length k = 32"
  shows "verifyCert libs now r cc cert hint nodeID \<noteq> Panic"
proof (cases hint)
  case None
  then show ?thesis using assms(2)
    by (auto simp: verifyCert_def VerifyCertificate_def ed25519_Verify_def ed25519_PublicKeySize_def Let_def
        split: option.splits outcome.splits sum.splits)
next
  case (Some h)
  show ?thesis
  proof (cases "reg_trustedCertifierKeys r h")
    case (Some ks)
    then have "\<forall>k \<in> set ks. length k = 32" using ok by (auto simp: keys_ok_def)
    from verifyAny_no_panic [OF this] show ?thesis using Some by (simp add: verifyCert_def \<open>hint = Some h\<close>)
  qed (simp add: verifyCert_def Some)
qed

lemma reg_Submit_success:
  assumes "reg_Submit libs now await w r challenge nodeID nonce powParams hint certificate deadline
    = Ret (w', r', epoch, endTime, None)"
  shows "epoch = r_epoch (reg_openRound r) \<and> endTime = RoundEnd (reg_roundCfg r) (reg_genesis r) epoch \<and>
    (deadline = zeroTime \<or> endTime \<le> deadline) \<and>
    (case (Certifier (reg_cfg r), certificate) of
       (Some cc, Some cert) \<Rightarrow> \<exists>key \<in> candidate_keys r cc hint. certified_by libs now cert nodeID key
     | _ \<Rightarrow> VerifyWithParams (rl_ripemd libs) (reg_powVerifiers r) challenge nodeID nonce powParams = Ret None) \<and>
    (\<exists>res. submit (rl_ldb libs) w (reg_openRound r) nodeID challenge = (w', reg_openRound r', res) \<and>
       (case res of Inr ch \<Rightarrow> await (reg_openRound r') ch = Delivered None
        | Inl err \<Rightarrow> errors_Is err ErrChallengeAlreadySubmitted))"
proof -
  let ?auth = "authorise libs now r challenge nodeID nonce powParams hint certificate"
  have auth: "?auth = Ret None"
    using assms by (auto simp: reg_Submit_def split: outcome.splits option.splits)
  then have admitted: "case (Certifier (reg_cfg r), certificate) of
       (Some cc, Some cert) \<Rightarrow> \<exists>key \<in> candidate_keys r cc hint. certified_by libs now cert nodeID key
     | _ \<Rightarrow> VerifyWithParams (rl_ripemd libs) (reg_powVerifiers r) challenge nodeID nonce powParams = Ret None"
    using verifyCert_sound by (auto simp: authorise_def split: option.splits outcome.splits)
  obtain w1 rnd res where s: "submit (rl_ldb libs) w (reg_openRound r) nodeID challenge = (w1, rnd, res)"
    by (metis prod_cases3)
  then have "epoch = r_epoch (reg_openRound r)" "endTime = RoundEnd (reg_roundCfg r) (reg_genesis r) epoch"
    "deadline = zeroTime \<or> endTime \<le> deadline" "w1 = w'" "rnd = reg_openRound r'"
    "case res of Inr ch \<Rightarrow> await rnd ch = Delivered None | Inl err \<Rightarrow> errors_Is err ErrChallengeAlreadySubmitted"
    using assms auth
    by (auto simp: reg_Submit_def Let_def split: if_splits sum.splits waitResult.splits option.splits)
  with admitted s show ?thesis by blast
qed

text \<open>
  What an answer stands for. The channel of an accepted submission delivers \<open>nil\<close>, at whatever later state
  of the round, only when the challenge is in the database by then; a submission is reported as repeated
  only when its challenge is in the database or waits to be written.
\<close>

lemma delivered_is_stored:
  assumes "leveldb_contract L cont path" and "newRound L w0 e dbdir options = (w1, Inr r0)"
    and "snd (ldb_Items L w1 (r_db r0)) = None"
    and "(round_step L cont path (roundPath dbdir e))\<^sup>*\<^sup>* (w1, r0, []) (w, r, subs)"
    and s: "submit L w r key c = (w', r', Inr ch)"
    and run: "(round_step L cont path (roundPath dbdir e))\<^sup>*\<^sup>* (w', r', subs @ [(key, c)]) (w2, r2, subs2)"
    and got: "Delivered None \<in> waitDone (r_chans r2 ! ch)"
  shows "ch < length (r_chans r2) \<and> (\<exists>m. cont w2 (roundPath dbdir e) = Some m \<and> m key = Some c)"
proof -
  let ?core = "round_core cont path (roundPath dbdir e) (max (r_maxMembers r0) (r_members r0))"
  have "(round_step L cont path (roundPath dbdir e))\<^sup>*\<^sup>* (w1, r0, []) (w', r', subs @ [(key, c)])"
    using assms(4) step_accepted [OF s] by (rule rtranclp.rtrancl_into_rtrancl)
  from rtranclp_trans [OF this run] have core2: "?core w2 r2 subs2" by (rule round_reachable(1) [OF assms(1-3)])
  have "?core w r subs" by (rule round_reachable(1) [OF assms(1-4)])
  then have "ch = length subs" using s by (auto simp: round_core_def chans_ok_def elim!: submit_accepted dest: enqueue_result)
  moreover obtain ys where "subs2 = (subs @ [(key, c)]) @ ys" using round_steps_extend [OF run] by blast
  ultimately have ch: "ch < length subs2" "subs2 ! ch = (key, c)" by (simp_all add: nth_append)
  obtain m where m: "pending_ok r2" "chan_ok m r2 (subs2 ! ch) ch" by (rule core_chan [OF core2 ch(1)])
  have "r_chans r2 ! ch = settled_chan None"
    using m(2) got pending_chan_open(1) [OF m(1)] by (auto simp: chan_ok_def waitDone_def open_chan_def settled_chan_def)
  from settled_is_stored [OF core2 ch(1) this] ch core2 show ?thesis by (auto simp: round_core_def chans_ok_def)
qed

lemma repeated_is_known:
  assumes "leveldb_contract L cont path" and "round_core cont path dbp cap w r subs"
    and "submit L w r key c = (w', r', Inl err)" and "errors_Is err ErrChallengeAlreadySubmitted"
    and "\<forall>e. ldb_Get L w (r_db r) key = Inl e \<longrightarrow> \<not> errors_Is e ErrChallengeAlreadySubmitted"
  shows "(\<exists>m. cont w dbp = Some m \<and> m key = Some c) \<or> (\<exists>p. map_of (r_pendingSubmits r) key = Some p \<and> p_challenge p = c)"
proof (cases "ldb_Get L w (r_db r) key = Inr c")
  case True
  obtain m where m: "cont w dbp = Some m" and h: "handle_ok path dbp w r" using assms(2) by (auto simp: round_core_def)
  from h True contract_closed(3) [OF assms(1), of w "r_db r" key] have "path w (r_db r) = Some dbp" by (auto simp: handle_ok_def)
  from contract_get(1) [OF assms(1) this m True] m show ?thesis by blast
next
  case False
  with assms(3-5) show ?thesis
    by (auto simp: submit_def dest: enqueue_result split: if_splits option.splits sum.splits)
qed

text \<open>
  The members in a stored proof hash to the root that was worked on. If closing a round hands
  the worker some root for its epoch, and later the proof for that epoch is processed while the
  closed round's database is as it was, then the list of members stored with the proof is the list
  of leaves of exactly that root.
\<close>

lemma saved_members_hash_to_executed_root:
  assumes "leveldb_contract (rl_ldb libs) cont path" and "ldb_put_ok (rl_ldb libs) cont path"
    and "iter_ok (rl_ldb libs) path" and "xdr_ok (rl_xdr libs)"
    and "mtree_ok (rl_mtree libs) (HashMembershipTreeNode (rl_blake3 libs)) leaves rootf"
    and "newRound (rl_ldb libs) w0 (Epoch nip) (reg_dbdir r) opts = (w1, Inr r0)"
    and "(round_step (rl_ldb libs) cont path (roundPath (reg_dbdir r) (Epoch nip)))\<^sup>*\<^sup>* (w1, r0, []) (w, reg_openRound r, subs)"
    and "path w (r_db (reg_openRound r)) = Some (roundPath (reg_dbdir r) (Epoch nip))"
    and "closeRound libs exec now w q r = Ret (w2, q2, r2, None)"
    and "reg_dbdir r3 = reg_dbdir r"
    and "cont w3 (roundPath (reg_dbdir r) (Epoch nip)) = cont w2 (roundPath (reg_dbdir r) (Epoch nip))"
    and "path w3 (db_db (reg_db r3)) = Some dbp" and "cont w3 dbp = Some md"
    and "dbp \<noteq> roundPath (reg_dbdir r) (Epoch nip)"
    and "reg_onNewProof libs w3 r3 nip = (w4, r4, None)"
  shows "\<exists>members root b m4. exec q (Epoch nip) root = (q2, None) \<and> root = rootf members \<and>
    cont w4 dbp = Some m4 \<and> m4 (str_bytes (epochToRoundId (Epoch nip))) = Some b \<and>
    xdr_Unmarshal (rl_xdr libs) b = Inr (proofOf (db_pubkey (reg_db r3)) nip members)"
proof -
  let ?L = "rl_ldb libs" and ?p = "roundPath (reg_dbdir r) (Epoch nip)"
  obtain wa rnda root wb rndb err e rnd where
    calc: "calcMembershipRoot ?L (rl_mtree libs) (rl_blake3 libs) w (reg_openRound r) = (wa, rnda, Inr root)"
    and close: "round_Close ?L wa rnda = (wb, rndb, err)"
    and exec: "exec q (r_epoch (reg_openRound r)) root = (q2, None)"
    and new: "newRound ?L wb e (reg_dbdir r) (newRoundOpts (reg_cfg r)) = (w2, Inr rnd)"
    by (rule closeRound_handover [OF assms(9)])
  obtain m where m: "cont wa ?p = Some m" "root = rootf (ordered_members m)" "path wa (r_db rnda) = Some ?p"
    "r_batch rnda = []" "r_epoch (reg_openRound r) = Epoch nip"
    by (rule reachable_root [OF assms(1,3,6-8,5) calc])
  have "cont wb ?p = Some m" using round_Close_idle(1) [OF assms(1) m(3,4) close] m(1) by simp
  then have "cont w3 ?p = Some m" using newRound_keeps [OF assms(1) new] assms(11) by simp
  then have m3: "cont w3 (roundPath (reg_dbdir r3) (Epoch nip)) = Some m" by (simp add: assms(10))
  have ne: "dbp \<noteq> roundPath (reg_dbdir r3) (Epoch nip)" using assms(14) by (simp add: assms(10))
  obtain b where b: "xdr_Marshal (rl_xdr libs) (proofOf (db_pubkey (reg_db r3)) nip (ordered_members m)) = Inr b"
    "cont w4 dbp = Some (md(str_bytes (epochToRoundId (Epoch nip)) \<mapsto> b))"
    by (rule onNewProof_saves [OF assms(1-3) m3 assms(12,13) ne refl assms(15)])
  have "xdr_Unmarshal (rl_xdr libs) b = Inr (proofOf (db_pubkey (reg_db r3)) nip (ordered_members m))"
    using b(1) assms(4) unfolding xdr_ok_def by blast
  with b(2) exec m(2,5) show ?thesis by auto
qed

text \<open>
  Closing moves registration forwards. When a round is closed at or after its start time (the
  timer of \<open>Run\<close> fires then), the round that is opened next has a later epoch and has not started
  yet, so no registration is ever taken for a round that has begun.
\<close>

lemma closing_a_due_round_opens_a_later_one:
  assumes "closeRound libs exec now w q r = Ret (w', q', r', None)"
    and "schedule_window (reg_roundCfg r) (reg_genesis r) now"
    and "schedule_upto (reg_roundCfg r) (r_epoch (reg_openRound r))"
    and "RoundStart (reg_roundCfg r) (reg_genesis r) (r_epoch (reg_openRound r)) \<le> now"
  shows "r_epoch (reg_openRound r) < r_epoch (reg_openRound r') \<and>
    now < RoundStart (reg_roundCfg r) (reg_genesis r) (r_epoch (reg_openRound r'))"
proof -
  let ?c = "reg_roundCfg r" and ?g = "reg_genesis r" and ?e = "r_epoch (reg_openRound r)"
  obtain e rnd w2 where e: "OpenRoundId ?c ?g now = Ret e" and r': "r' = r\<lparr>reg_openRound := rnd\<rparr>"
    and n: "newRound (rl_ldb libs) w2 e (reg_dbdir r) (newRoundOpts (reg_cfg r)) = (w', Inr rnd)"
    by (rule closeRound_handover [OF assms(1)])
  have b: "now < RoundStart ?c ?g e" by (rule sched.open_before [OF assms(2) e])
  have "\<not> e \<le> ?e" using sched.start_mono [OF assms(3), of e ?g] b assms(4) by auto
  then show ?thesis using b r' newRound_epoch [OF n] by simp
qed

text \<open>
  C20: A failed attempt to close a round loses its members. When \<open>closeRound\<close> fails after the
  membership root was computed (the worker refuses the round, or the next round cannot be opened),
  the round's database is closed already but the round stays the open one; the next attempt, which
  \<open>Run\<close> makes at once, finds no members and hands the root of an empty tree to the worker under the
  same epoch, whatever challenges are registered.
\<close>

theorem failed_close_hands_over_empty_root:
  assumes "leveldb_contract (rl_ldb libs) cont path"
    and "mtree_ok (rl_mtree libs) (HashMembershipTreeNode (rl_blake3 libs)) leaves rootf"
    and "round_core cont path dbp cap w (reg_openRound r) subs"
    and "calcMembershipRoot (rl_ldb libs) (rl_mtree libs) (rl_blake3 libs) w (reg_openRound r) = (wa, rnda, Inr root)"
    and "closeRound libs exec1 now1 w q r = Ret (w1, q1, r1, Some err)"
    and "closeRound libs exec2 now2 w1 q1 r1 = Ret (w2, q2, r2, None)"
  shows "exec2 q1 (r_epoch (reg_openRound r)) (rootf []) = (q2, None)"
proof -
  let ?L = "rl_ldb libs" and ?MT = "rl_mtree libs" and ?b3 = "rl_blake3 libs"
  obtain wb rndb e where close: "round_Close ?L wa rnda = (wb, rndb, e)" by (metis prod_cases3)
  have f: "flushPendingSubmitsLocked ?L w (reg_openRound r) = (wa, rnda)"
    using calcMembershipRoot_ok(1) [OF assms(2,4)] .
  have core: "round_core cont path dbp cap wa rnda subs" by (rule flush_core [OF assms(1,3) f])
  note cl = close_core [OF assms(1) core close]
  have bb: "r_batch rndb = []" using cl(1,2) by (simp add: round_core_def pending_ok_def)
  have r1: "reg_openRound r1 = rndb" and w1: "path w1 (r_db rndb) = None"
    using assms(4,5) close cl(3)
    by (auto simp: closeRound_def Let_def dest: openCurrentRound_error_path [OF assms(1)]
        split: prod.splits option.splits outcome.splits sum.splits)
  obtain wc rndc root2 where calc2: "calcMembershipRoot ?L ?MT ?b3 w1 (reg_openRound r1) = (wc, rndc, Inr root2)"
    and exec: "exec2 q1 (r_epoch (reg_openRound r1)) root2 = (q2, None)"
    by (rule closeRound_handover [OF assms(6)])
  obtain t where "mt_Build ?MT (HashMembershipTreeNode ?b3) = Inr t"
    using calc2 by (auto simp: calcMembershipRoot_def split: prod.splits sum.splits)
  from closed_round_root_is_empty [OF assms(1) _ _ assms(2) this, of w1 "reg_openRound r1"] calc2 r1 w1 bb
  have "root2 = rootf []" by simp
  moreover have "r_epoch rndb = r_epoch (reg_openRound r)"
    using close_epoch [OF close] calc_epoch [OF assms(4)] by simp
  ultimately show ?thesis using exec r1 by simp
qed

text \<open>
  C21: The rotated PoW challenge is lost on a restart. Processing a proof makes its root the current
  PoW challenge in memory, but what \<open>setupPowProviders\<close> reads at the next start is still the
  challenge that was stored before.
\<close>

theorem pow_rotation_is_not_persisted:
  assumes "leveldb_contract (rl_ldb libs) cont path" and "ldb_put_ok (rl_ldb libs) cont path"
    and "iter_ok (rl_ldb libs) path" and "ldb_tx_contract (rl_ldb libs) cont path tview"
    and "cont w (roundPath (reg_dbdir r) (Epoch nip)) = Some m"
    and "path w (db_db (reg_db r)) = Some dbp" and "cont w dbp = Some md"
    and "dbp \<noteq> roundPath (reg_dbdir r) (Epoch nip)"
    and "reg_onNewProof libs w r nip = (w', r', None)"
    and "GetPowChallenges (rl_ldb libs) w' (reg_db r) = (w'', Inr (cur, prev))"
  shows "md powKey = Some cur \<and> Challenge (reg_PowParams r') = Root nip"
proof -
  obtain b where b: "cont w' dbp = Some (md(str_bytes (epochToRoundId (Epoch nip)) \<mapsto> b))"
    "path w' (db_db (reg_db r)) = Some dbp"
    and r': "r' = r\<lparr>reg_powVerifiers := powVerifiers_SetParams (reg_powVerifiers r)
            ((powVerifiers_Params (reg_powVerifiers r))\<lparr>Challenge := Root nip\<rparr>)\<rparr>"
    by (rule onNewProof_saves [OF assms(1-3,5-8) refl assms(9)])
  from GetPowChallenges_read(1) [OF assms(4) b(2,1) assms(10)] have "md powKey = Some cur"
    using round_keys_not_pow(1) [of "Epoch nip"] by (auto split: if_splits)
  then show ?thesis by (simp add: r' reg_PowParams_def)
qed

text \<open>
  The certificate check cannot be crashed by a client. After the trusted keys were loaded and
  the configured key (if any) has 32 bytes, every trusted key has 32 bytes and is filed under its
  own first four bytes, and checking a certificate never panics, whatever certificate, hint and
  node id a request carries.
\<close>

lemma certificate_check_never_panics:
  assumes "LoadTrustedPublicKeys walk r = Ret (r', None)" and "Certifier (reg_cfg r) = Some cc"
    and "\<forall>k. cc_PubKey cc = Some k \<longrightarrow> length k = 32"
  shows "keys_ok (reg_trustedCertifierKeys r') \<and> verifyCert libs now r' cc cert hint nodeID \<noteq> Panic"
proof -
  obtain m where m: "pubKeyMap (cc_PubKey cc) = Ret m" "walkKeys m walk = Inr (reg_trustedCertifierKeys r')"
    using assms(1,2) by (auto simp: LoadTrustedPublicKeys_def split: if_splits outcome.splits sum.splits)
  have ok: "keys_ok (reg_trustedCertifierKeys r')"
    by (rule walkKeys_keys_ok [OF m(2) pubKeyMap_keys_ok [OF m(1) assms(3)]])
  with verifyCert_no_panic [OF ok assms(3)] show ?thesis by simp
qed

text \<open>
  A repeated request is answered before the write. When a challenge is pending under a node id,
  submitting the same challenge again reports success at once, whatever becomes of the pending
  write (\<open>await\<close> is never asked): the second client is told that it is registered although nothing
  is stored yet and the flush may still fail.
\<close>

lemma resubmission_succeeds_before_write:
  assumes "authorise libs now r challenge nodeID nonce powParams hint certificate = Ret None"
    and "map_of (r_pendingSubmits (reg_openRound r)) nodeID = Some pending" and "p_challenge pending = challenge"
    and "r_members (reg_openRound r) + int (length (r_pendingSubmits (reg_openRound r))) < r_maxMembers (reg_openRound r)"
  shows "reg_Submit libs now await w r challenge nodeID nonce powParams hint certificate zeroTime
    = Ret (w, r, r_epoch (reg_openRound r), RoundEnd (reg_roundCfg r) (reg_genesis r) (r_epoch (reg_openRound r)), None)"
  using assms by (simp add: reg_Submit_def submit_def Let_def)

section \<open>A concrete service\<close>

text \<open>
  A service without certifier whose open round is round 1, with one challenge submitted or stored.
\<close>

definition demo_libs :: "(ldb_world, nat, bytes list, bytes, bytes) reg_libs" where
  "demo_libs = \<lparr>rl_ldb = ref_ldb, rl_xdr = demo_xdr, rl_mtree = ref_mtree, rl_blake3 = (\<lambda>d. d), rl_scale = demo_scale,
     rl_newdec = (\<lambda>d. d), rl_ed25519 = (\<lambda>k m s. s = m), rl_ripemd = (\<lambda>d. [0])\<rparr>"

definition demo_reg :: "nat round \<Rightarrow> nat Registration" where
  "demo_reg rnd = \<lparr>reg_genesis = 0, reg_cfg = reg_DefaultConfig, reg_roundCfg = DefaultRoundConfig, reg_dbdir = ''db'',
     reg_pubkey = [9], reg_trustedCertifierKeys = Map.empty, reg_db = demo_db,
     reg_powVerifiers = \<lparr>previous = None, current = NewPowVerifier (NewPowParams [4] 0)\<rparr>, reg_openRound = rnd\<rparr>"

abbreviation demo_node :: bytes where
  "demo_node \<equiv> replicate 32 7"

text \<open>
  The same service with an empty open round 1 and the database of the proofs at \<open>p\<close>: the round is
  closed 100 seconds after genesis, and the proof for it comes back.
\<close>

definition demo_nip1 :: NIP where
  "demo_nip1 = demo_nip\<lparr>Epoch := 1\<rparr>"

definition one_xdr :: "proofData \<Rightarrow> xdr_api" where
  "one_xdr pd = \<lparr>xdr_Marshal = (\<lambda>p. if p = pd then Inr [5] else Inl (Opaque ''unsupported'')),
     xdr_Unmarshal = (\<lambda>b. if b = [5] then Inr pd else Inl (Opaque ''unsupported''))\<rparr>"

definition demo_libs1 :: "(ldb_world, nat, bytes list, bytes, bytes) reg_libs" where
  "demo_libs1 = demo_libs\<lparr>rl_xdr := one_xdr (proofOf [9] demo_nip1 [])\<rparr>"

definition demo_reg1 :: "nat round \<Rightarrow> nat Registration" where
  "demo_reg1 rnd = demo_reg rnd\<lparr>reg_db := \<lparr>db_db = 1, db_pubkey = [9]\<rparr>\<rparr>"

definition demo_round3 :: "nat round" where
  "demo_round3 = \<lparr>r_epoch = 3, r_db = 2, r_maxMembers = 2 ^ 32, r_members = 0, r_batch = [], r_pendingSubmits = [],
     r_pendingFlush = None, r_flushInterval = 100000000, r_maxBatchSize = 1000, r_chans = []\<rparr>"

abbreviation demo_kv :: "kvs \<Rightarrow> (string \<times> kvs) list" where
  "demo_kv pow \<equiv> [(''db/rounds/1'', []), (''p'', pow)]"

lemma demo_paths: "roundPath ''db'' 1 = ''db/rounds/1''" "roundPath ''db'' 3 = ''db/rounds/3''"
  by code_simp+

lemma demo_OpenRoundId: "OpenRoundId DefaultRoundConfig 0 100000000000 = Ret 3"
  by (simp add: OpenRoundId_def DefaultRoundConfig_def duration_ns_def Time_Sub_def int_div_def word_sless_alt)

lemma ref_iter_ok: "iter_ok ref_ldb ref_path"
  by (auto simp: iter_ok_def ref_ldb_def)

lemma demo_libs1_simps [simp]: "rl_ldb demo_libs1 = ref_ldb" "rl_mtree demo_libs1 = ref_mtree"
  "rl_blake3 demo_libs1 = (\<lambda>d. d)" "rl_xdr demo_libs1 = one_xdr (proofOf [9] demo_nip1 [])"
  by (simp_all add: demo_libs1_def demo_libs_def)

abbreviation demo_after :: "kvs \<Rightarrow> ldb_world" where
  "demo_after kv \<equiv> demo_world [None, Some ''p'', Some ''db/rounds/3''] ((''db/rounds/3'', []) # demo_kv kv)"

lemma demo_onNewProof:
  obtains w4 r4 where "reg_onNewProof demo_libs1 (demo_after kv) (demo_reg1 demo_round3) demo_nip1 = (w4, r4, None)"
    and "ref_path w4 1 = Some ''p''" and "ref_kvs w4 ''p'' = (str_bytes (epochToRoundId 1), [5]) # kv"
proof -
  let ?opts = "newRoundOpts reg_DefaultConfig @ [failIfNotExists]"
  obtain w1 rnd where n: "newRound ref_ldb (demo_after kv) 1 ''db'' ?opts = (w1, Inr rnd)"
    and rnd: "r_db rnd = 3" "r_batch rnd = []"
    and w1: "w1 = demo_world [None, Some ''p'', Some ''db/rounds/3'', Some ''db/rounds/1'']
      ((''db/rounds/1'', []) # (''db/rounds/3'', []) # demo_kv kv)"
    by (simp add: newRound_def newRoundOpts_def reg_DefaultConfig_def withMaxMembers_def withMaxSubmitBatchSize_def
      withSubmitFlushInterval_def failIfNotExists_def defaultRoundOptions_def demo_paths ref_ldb_def ref_open_def
      demo_world_def ref_kvs_def Let_def)
  have g: "getMembers ref_ldb w1 rnd = []"
    by (simp add: getMembers_def w1 rnd ref_ldb_def ref_path_def demo_world_def ref_kvs_def kv_sort_def)
  have c: "fst (round_Close ref_ldb w1 rnd) = w1\<lparr>opened := [None, Some ''p'', Some ''db/rounds/3'', None]\<rparr>"
    by (simp add: round_Close_def flushPendingSubmits_def flushPendingSubmitsLocked_def rnd w1 ref_ldb_def ref_path_def demo_world_def)
  let ?w2 = "w1\<lparr>opened := [None, Some ''p'', Some ''db/rounds/3'', None]\<rparr>"
  let ?w4 = "?w2\<lparr>stored := (''p'', (str_bytes (epochToRoundId 1), [5]) # kv) # stored w1\<rparr>"
  have s: "SaveProof ref_ldb (one_xdr (proofOf [9] demo_nip1 [])) ?w2 \<lparr>db_db = 1, db_pubkey = [9]\<rparr> demo_nip1 [] = (?w4, None)"
    by (simp add: SaveProof_def serializeProof_def one_xdr_def ref_ldb_def ref_append_def ref_path_def ref_kvs_def w1
        demo_world_def Let_def proofOf_def demo_nip1_def)
  have "Epoch demo_nip1 = 1" by (simp add: demo_nip1_def)
  then have "\<exists>r4. reg_onNewProof demo_libs1 (demo_after kv) (demo_reg1 demo_round3) demo_nip1 = (?w4, r4, None)"
    using n g c s by (simp add: reg_onNewProof_def demo_reg1_def demo_reg_def Let_def)
  moreover have "ref_path ?w4 1 = Some ''p''" "ref_kvs ?w4 ''p'' = (str_bytes (epochToRoundId 1), [5]) # kv"
    by (simp_all add: ref_path_def ref_kvs_def)
  ultimately show ?thesis using that by blast
qed

abbreviation demo_before :: "kvs \<Rightarrow> ldb_world" where
  "demo_before kv \<equiv> demo_world [Some ''db/rounds/1'', Some ''p''] (demo_kv kv)"

lemma one_xdr_ok: "xdr_ok (one_xdr pd)"
  by (simp add: xdr_ok_def one_xdr_def)

lemma demo_reg1_simps [simp]: "reg_dbdir (demo_reg1 rnd) = ''db''" "reg_openRound (demo_reg1 rnd) = rnd"
  "db_db (reg_db (demo_reg1 rnd)) = 1" "db_pubkey (reg_db (demo_reg1 rnd)) = [9]" "Epoch demo_nip1 = 1"
  by (simp_all add: demo_reg1_def demo_reg_def demo_nip1_def)

theorem pow_rotation_is_not_persisted_witness:
  "\<exists>w4 r4 w5. reg_onNewProof demo_libs1 (demo_after [(powKey, [4])]) (demo_reg1 demo_round3) demo_nip1 = (w4, r4, None) \<and>
     GetPowChallenges ref_ldb w4 \<lparr>db_db = 1, db_pubkey = [9]\<rparr> = (w5, Inr ([4], [])) \<and> Challenge (reg_PowParams r4) = [1]"
proof -
  let ?kv = "[(powKey, [4])]" and ?r3 = "demo_reg1 demo_round3" and ?d = "\<lparr>db_db = 1, db_pubkey = [9]\<rparr> :: nat database"
  obtain w4 r4 where on: "reg_onNewProof demo_libs1 (demo_after ?kv) ?r3 demo_nip1 = (w4, r4, None)"
    and w4: "ref_path w4 1 = Some ''p''" "ref_kvs w4 ''p'' = (str_bytes (epochToRoundId 1), [5]) # ?kv"
    by (rule demo_onNewProof)
  have d: "reg_db ?r3 = ?d" by (simp add: demo_reg1_def demo_reg_def)
  obtain w5 prev where g: "GetPowChallenges ref_ldb w4 ?d = (w5, Inr ([4], prev))" and "prev = []"
    using w4
    by (simp add: GetPowChallenges_def ref_ldb_def ref_lookup_def Let_def round_keys_not_pow [symmetric])
  have 1: "ref_path (demo_after ?kv) (db_db (reg_db ?r3)) = Some ''p''"
    "ref_cont (demo_after ?kv) ''p'' = Some (map_of ?kv)"
    "ref_cont (demo_after ?kv) (roundPath (reg_dbdir ?r3) (Epoch demo_nip1)) = Some (map_of [])"
    "''p'' \<noteq> roundPath (reg_dbdir ?r3) (Epoch demo_nip1)"
    by (simp_all add: ref_path_def ref_cont_def demo_world_def demo_paths)
  have 2: "leveldb_contract (rl_ldb demo_libs1) ref_cont ref_path" "ldb_put_ok (rl_ldb demo_libs1) ref_cont ref_path"
    "iter_ok (rl_ldb demo_libs1) ref_path" "ldb_tx_contract (rl_ldb demo_libs1) ref_cont ref_path ref_tview"
    by (simp_all add: ref_leveldb_contract ref_ldb_put ref_iter_ok ref_ldb_tx)
  have g': "GetPowChallenges (rl_ldb demo_libs1) w4 (reg_db ?r3) = (w5, Inr ([4], prev))" unfolding d using g by simp
  from pow_rotation_is_not_persisted [of demo_libs1 ref_cont ref_path ref_tview, OF 2 1(3,1,2,4) on g']
  have "Challenge (reg_PowParams r4) = [1]" by (simp add: demo_nip1_def demo_nip_def)
  with on g \<open>prev = []\<close> show ?thesis by blast
qed

abbreviation demo_stored :: "(string \<times> kvs) list" where
  "demo_stored \<equiv> [(''db/rounds/1'', [([7], [70])]), (''db/rounds/1'', [])]"

lemma demo_calc_member:
  "calcMembershipRoot ref_ldb ref_mtree b3 (demo_world [Some ''db/rounds/1''] demo_stored) (demo_round 1 [settled_chan None] [])
     = (demo_world [Some ''db/rounds/1''] demo_stored, demo_round 1 [settled_chan None] [], Inr [70])"
  "calcMembershipRoot ref_ldb ref_mtree b3 (demo_world [None] demo_stored) (demo_round 1 [settled_chan None] [])
     = (demo_world [None] demo_stored, demo_round 1 [settled_chan None] [], Inr [])"
  by (simp_all add: calcMembershipRoot_def flushPendingSubmits_def flushPendingSubmitsLocked_def demo_round_def
      demo_world_def ref_ldb_def ref_path_def ref_kvs_def ref_mtree_def kv_sort_def)

lemma demo_close_member:
  "round_Close ref_ldb (demo_world [Some ''db/rounds/1''] demo_stored) (demo_round 1 [settled_chan None] [])
     = (demo_world [None] demo_stored, demo_round 1 [settled_chan None] [], None)"
  "round_Close ref_ldb (demo_world [None] demo_stored) (demo_round 1 [settled_chan None] [])
     = (demo_world [None] demo_stored, demo_round 1 [settled_chan None] [], None)"
  by (simp_all add: round_Close_def flushPendingSubmits_def flushPendingSubmitsLocked_def demo_round_def
      demo_world_def ref_ldb_def ref_path_def)

lemma demo_newRound_any:
  obtains w rnd where "newRound ref_ldb (demo_world [None] demo_stored) 3 ''db'' (newRoundOpts reg_DefaultConfig) = (w, Inr rnd)"
  by (simp add: newRound_def newRoundOpts_def reg_DefaultConfig_def withMaxMembers_def withMaxSubmitBatchSize_def
      withSubmitFlushInterval_def defaultRoundOptions_def demo_paths ref_ldb_def ref_open_def demo_world_def Let_def)

theorem failed_close_hands_over_empty_root_witness:
  "\<exists>w2 r2. closeRound demo_libs1 (\<lambda>q e rt. (q @ [(e, rt)], None)) 100000000000 (demo_world [None] demo_stored) []
       (demo_reg1 (demo_round 1 [settled_chan None] [])) = Ret (w2, [(1, [])], r2, None)"
proof -
  let ?r = "demo_reg1 (demo_round 1 [settled_chan None] [])" and ?w = "demo_world [Some ''db/rounds/1''] demo_stored"
  let ?ok = "\<lambda>q e rt. (q @ [(e, rt)], None)"
  have e: "r_epoch (demo_round 1 [settled_chan None] []) = 1" by (simp add: demo_round_def)
  have first: "closeRound demo_libs1 (\<lambda>q e rt. (q, Some ErrCanceled)) 100000000000 ?w [] ?r
      = Ret (demo_world [None] demo_stored, [], ?r, Some (Wrap ''closing round for epoch'' ErrCanceled))"
    by (simp add: closeRound_def demo_calc_member demo_close_member demo_reg1_def demo_reg_def Let_def)
  obtain w2 rnd where n: "newRound ref_ldb (demo_world [None] demo_stored) 3 ''db'' (newRoundOpts reg_DefaultConfig) = (w2, Inr rnd)"
    by (rule demo_newRound_any)
  have second: "closeRound demo_libs1 ?ok 100000000000 (demo_world [None] demo_stored) [] ?r
      = Ret (w2, [(1, [])], demo_reg1 rnd, None)"
    by (simp add: closeRound_def demo_calc_member demo_close_member demo_reg1_def demo_reg_def e openCurrentRound_def
        demo_OpenRoundId n Let_def)
  have core: "round_core ref_cont ref_path (roundPath ''db'' 1)
      (max (r_maxMembers (demo_round 0 [] [])) (r_members (demo_round 0 [] []))) ?w (reg_openRound ?r) [([7], [70])]"
    using round_reachable(1) [of ref_ldb ref_cont ref_path, OF ref_leveldb_contract demo_open demo_items demo_reach2] by simp
  have "leveldb_contract (rl_ldb demo_libs1) ref_cont ref_path"
    "mtree_ok (rl_mtree demo_libs1) (HashMembershipTreeNode (rl_blake3 demo_libs1)) (\<lambda>t. t) concat"
    "calcMembershipRoot (rl_ldb demo_libs1) (rl_mtree demo_libs1) (rl_blake3 demo_libs1) ?w (reg_openRound ?r)
      = (?w, demo_round 1 [settled_chan None] [], Inr [70])"
    by (simp_all add: ref_leveldb_contract ref_mtree_ok demo_calc_member)
  from failed_close_hands_over_empty_root [of demo_libs1 ref_cont ref_path, OF this(1,2) core this(3) first second] second
  show ?thesis by auto
qed

end
