(* ===== verification/Merkle.thy ===== *)
theory Merkle
  imports Codec
begin

text \<open>
  The \<open>merkle-tree\<close> package is third-party: its operations are the fields of a record, and
  \<open>merkle_contract\<close> names the documented behaviour that the prover and the verifier rely on.
  \<open>'t\<close> is a tree together with the cache writer it fills, \<open>'rd\<close> a reader of that cache.
\<close>

section \<open>Cache layers\<close>

text \<open>What a layer factory is asked to open: a file or an in-memory slice.\<close>

datatype layer_store = FileLayer string uint | SliceLayer

type_synonym layer_factory = "uint \<Rightarrow> layer_store"

datatype cache_policy =
    SpecificLayersPolicy "uint set"
  | MinHeightPolicy uint
  | Combine cache_policy cache_policy
  | CustomPolicy "uint \<Rightarrow> bool"

type_synonym merkle_hash = "bytes \<Rightarrow> bytes \<Rightarrow> bytes"

section \<open>The operations\<close>

record ('t, 'rd) merkle_api =
  mk_Build :: "merkle_hash \<Rightarrow> cache_policy \<Rightarrow> layer_factory \<Rightarrow> goerr + 't"
  mk_AddLeaf :: "'t \<Rightarrow> bytes \<Rightarrow> 't \<times> goerr option"
  mk_GetParkedNodes :: "'t \<Rightarrow> bytes list"
  mk_Root :: "'t \<Rightarrow> bytes"
  mk_GetReader :: "'t \<Rightarrow> 't \<times> (goerr + 'rd)"
  mk_GenerateProof :: "u64 set \<Rightarrow> 'rd \<Rightarrow> goerr + bytes list \<times> bytes list"
  mk_Validate :: "u64 list \<Rightarrow> bytes list \<Rightarrow> bytes list \<Rightarrow> bytes \<Rightarrow> merkle_hash \<Rightarrow> goerr + bool \<times> bytes list list"

section \<open>What the code relies on\<close>

text \<open>
  \<open>leaves t\<close> are the leaves added so far and \<open>park ls\<close> the parked nodes (left siblings) of a tree
  with leaves \<open>ls\<close>; empty layers may be represented by empty nodes, so only the concatenation is
  fixed. A node has at most 32 bytes.
\<close>

definition tree_ok :: "('t, 'rd) merkle_api \<Rightarrow> ('t \<Rightarrow> bytes list) \<Rightarrow> (bytes list \<Rightarrow> bytes list) \<Rightarrow> bool" where
  "tree_ok M leaves park \<longleftrightarrow>
     (\<forall>t l t'. mk_AddLeaf M t l = (t', None) \<longrightarrow> leaves t' = leaves t @ [l]) \<and>
     (\<forall>t. nodes_ok (mk_GetParkedNodes M t) \<and> concat (mk_GetParkedNodes M t) = concat (park (leaves t)))"

definition build_ok :: "('t, 'rd) merkle_api \<Rightarrow> merkle_hash \<Rightarrow> ('t \<Rightarrow> bytes list) \<Rightarrow> bool" where
  "build_ok M hash leaves \<longleftrightarrow> (\<forall>pol fac t. mk_Build M hash pol fac = Inr t \<longrightarrow> leaves t = [])"

text \<open>Opening a reader flushes the cache and keeps the tree.\<close>

definition reader_ok ::
  "('t, 'rd) merkle_api \<Rightarrow> ('t \<Rightarrow> bytes list) \<Rightarrow> ('rd \<Rightarrow> bytes list) \<Rightarrow> bool" where
  "reader_ok M leaves rleaves \<longleftrightarrow> (\<forall>t t' r. mk_GetReader M t = (t', r) \<longrightarrow>
     leaves t' = leaves t \<and> (\<forall>rd. r = Inr rd \<longrightarrow> rleaves rd = leaves t))"

text \<open>
  A generated proof carries the leaves at the requested indices in ascending order, and
  validation against the root of that tree succeeds with one parking snapshot per leaf: the
  nodes that were parked when the leaf was added. Lists of different lengths are refused.
\<close>

definition proof_ok ::
  "('t, 'rd) merkle_api \<Rightarrow> merkle_hash \<Rightarrow> ('t \<Rightarrow> bytes list) \<Rightarrow> ('rd \<Rightarrow> bytes list) \<Rightarrow> (bytes list \<Rightarrow> bytes list) \<Rightarrow> bool" where
  "proof_ok M hash leaves rleaves park \<longleftrightarrow>
     (\<forall>t rd I pl pn. rleaves rd = leaves t \<longrightarrow> finite I \<longrightarrow> I \<noteq> {} \<longrightarrow> (\<forall>i \<in> I. unat i < length (leaves t)) \<longrightarrow>
        mk_GenerateProof M I rd = Inr (pl, pn) \<longrightarrow>
        pl = map (\<lambda>i. leaves t ! unat i) (sorted_list_of_set I) \<and>
        (\<exists>snaps. mk_Validate M (sorted_list_of_set I) pl pn (mk_Root M t) hash = Inr (True, snaps) \<and>
           list_all2 (\<lambda>i s. nodes_ok s \<and> concat s = concat (park (take (unat i) (leaves t))))
             (sorted_list_of_set I) snaps))"

definition validate_ok :: "('t, 'rd) merkle_api \<Rightarrow> bool" where
  "validate_ok M \<longleftrightarrow> (\<forall>idx lvs nodes root hash. length idx \<noteq> length lvs \<longrightarrow>
     (\<exists>e. mk_Validate M idx lvs nodes root hash = Inl e))"

definition merkle_contract ::
  "('t, 'rd) merkle_api \<Rightarrow> merkle_hash \<Rightarrow> ('t \<Rightarrow> bytes list) \<Rightarrow> ('rd \<Rightarrow> bytes list) \<Rightarrow> (bytes list \<Rightarrow> bytes list) \<Rightarrow> bool" where
  "merkle_contract M hash leaves rleaves park \<longleftrightarrow>
     tree_ok M leaves park \<and> build_ok M hash leaves \<and> reader_ok M leaves rleaves \<and>
     proof_ok M hash leaves rleaves park \<and> validate_ok M"

section \<open>Lemmas\<close>

lemma tree_AddLeaf: "tree_ok M leaves park \<Longrightarrow> mk_AddLeaf M t l = (t', None) \<Longrightarrow> leaves t' = leaves t @ [l]"
  unfolding tree_ok_def by blast

lemma tree_Parked:
  assumes "tree_ok M leaves park"
  shows "nodes_ok (mk_GetParkedNodes M t)" and "concat (mk_GetParkedNodes M t) = concat (park (leaves t))"
  using assms unfolding tree_ok_def by blast+

lemma reader_leaves:
  assumes "reader_ok M leaves rleaves" and "mk_GetReader M t = (t', Inr rd)"
  shows "leaves t' = leaves t" and "rleaves rd = leaves t"
  using assms unfolding reader_ok_def by blast+

lemma proof_okD:
  assumes "proof_ok M hash leaves rleaves park" and "rleaves rd = leaves t" and "finite I" and "I \<noteq> {}"
    and "\<forall>i \<in> I. unat i < length (leaves t)" and "mk_GenerateProof M I rd = Inr (pl, pn)"
  obtains snaps where "pl = map (\<lambda>i. leaves t ! unat i) (sorted_list_of_set I)"
    and "mk_Validate M (sorted_list_of_set I) pl pn (mk_Root M t) hash = Inr (True, snaps)"
    and "list_all2 (\<lambda>i s. nodes_ok s \<and> concat s = concat (park (take (unat i) (leaves t))))
      (sorted_list_of_set I) snaps"
  using assms(1) [unfolded proof_ok_def, THEN spec, THEN spec, THEN spec, THEN spec, THEN spec,
      THEN mp, THEN mp, THEN mp, THEN mp, THEN mp, OF assms(2-6)] that by blast

section \<open>A concrete Merkle tree\<close>

text \<open>
  A reference tree to evaluate the model on: one parked node per layer, combined like the digits
  of a binary counter, and proofs that list all leaves. Digests of the given hash are cut to 32
  bytes.
\<close>

fun ref_add :: "merkle_hash \<Rightarrow> bytes list \<Rightarrow> bytes \<Rightarrow> bytes list" where
  "ref_add h [] x = [x]"
| "ref_add h (p # ps) x = (if p = [] then x # ps else [] # ref_add h ps (h p x))"

definition ref_park :: "merkle_hash \<Rightarrow> bytes list \<Rightarrow> bytes list" where
  "ref_park h ls = map (take 32) (foldl (ref_add h) [] ls)"

definition ref_root :: "merkle_hash \<Rightarrow> bytes list \<Rightarrow> bytes" where
  "ref_root h ls = foldl (\<lambda>acc p. if p = [] then acc else h p acc) [] (ref_park h ls)"

definition ref_merkle :: "merkle_hash \<Rightarrow> (bytes list, bytes list) merkle_api" where
  "ref_merkle h =
     \<lparr>mk_Build = (\<lambda>hash pol fac. Inr []),
      mk_AddLeaf = (\<lambda>t l. (t @ [l], None)),
      mk_GetParkedNodes = (\<lambda>t. if t = [] then [[]] else ref_park h t),
      mk_Root = ref_root h,
      mk_GetReader = (\<lambda>t. (t, Inr t)),
      mk_GenerateProof = (\<lambda>I rd. Inr (map (\<lambda>i. rd ! unat i) (sorted_list_of_set I), rd)),
      mk_Validate = (\<lambda>idx lvs nodes root hash.
         if length idx \<noteq> length lvs then Inl (Opaque ''number of leaves'')
         else if \<exists>i \<in> set idx. length nodes \<le> unat i then Inl (Opaque ''index'')
         else Inr (lvs = map (\<lambda>i. nodes ! unat i) idx \<and> root = ref_root h nodes,
                   map (\<lambda>i. ref_park h (take (unat i) nodes)) idx))\<rparr>"

lemma nodes_ok_ref_park [simp]: "nodes_ok (ref_park h ls)"
  by (auto simp: nodes_ok_def ref_park_def)

lemma ref_merkle_contract: "merkle_contract (ref_merkle h) h (\<lambda>t. t) (\<lambda>r. r) (ref_park h)"
proof -
  have "tree_ok (ref_merkle h) (\<lambda>t. t) (ref_park h)"
    by (auto simp: tree_ok_def ref_merkle_def ref_park_def [of _ "[]"]) (simp add: nodes_ok_def)
  moreover have "build_ok (ref_merkle h) h (\<lambda>t. t)"
    by (simp add: build_ok_def ref_merkle_def)
  moreover have "reader_ok (ref_merkle h) (\<lambda>t. t) (\<lambda>r. r)"
    by (simp add: reader_ok_def ref_merkle_def)
  moreover have "proof_ok (ref_merkle h) h (\<lambda>t. t) (\<lambda>r. r) (ref_park h)"
    by (auto simp: proof_ok_def ref_merkle_def list_all2_conv_all_nth not_le [symmetric])
  moreover have "validate_ok (ref_merkle h)"
    by (simp add: validate_ok_def ref_merkle_def)
  ultimately show ?thesis by (simp add: merkle_contract_def)
qed

end
