(* ===== verification/Verifier.thy ===== *)
theory Verifier
  imports Merkle
begin

text \<open>Package \<open>verifier\<close> (\<open>verifier/verifier.go\<close>): validation of a proof of sequential work.\<close>

section \<open>Validation\<close>

text \<open>
  The loop over the proven leaves. \<open>lid\<close> is the loop index \<open>id\<close>; \<open>provenLeafIndices[lid]\<close> and
  \<open>parkingSnapshots[lid]\<close> panic when they are out of range.
\<close>

fun checkLabels ::
  "(bytes \<Rightarrow> bytes) \<Rightarrow> bytes \<Rightarrow> u64 list \<Rightarrow> bytes list list \<Rightarrow> nat \<Rightarrow> bytes list \<Rightarrow> goerr option outcome" where
  "checkLabels labelHashFunc buffer provenLeafIndices parkingSnapshots lid [] = Ret None"
| "checkLabels labelHashFunc buffer provenLeafIndices parkingSnapshots lid (label # rest) =
     (if lid < length provenLeafIndices \<and> lid < length parkingSnapshots
      then (case MakeLabelFunc labelHashFunc buffer (provenLeafIndices ! lid, parkingSnapshots ! lid) of
              (buffer', expectedLabel) \<Rightarrow>
                if expectedLabel \<noteq> label then Ret (Some (Opaque ''label incorrect''))
                else checkLabels labelHashFunc buffer' provenLeafIndices parkingSnapshots (Suc lid) rest)
      else Panic)"

text \<open>
  \<open>None\<close> is a Fiat-Shamir loop that never ends. The keys of the index map come in an unspecified
  order and are sorted.
\<close>

definition Validate ::
  "sha256_api \<Rightarrow> ('t, 'rd) merkle_api \<Rightarrow> 'a MerkleProof_scheme \<Rightarrow> (bytes \<Rightarrow> bytes) \<Rightarrow> merkle_hash \<Rightarrow> u64 \<Rightarrow> u8
    \<Rightarrow> goerr option outcome option" where
  "Validate S M prf labelHashFunc merkleHashFunc numLeaves securityParam =
     (if unat securityParam \<noteq> length (ProvenLeaves prf)
      then Some (Ret (Some (Opaque ''number of proven leaves must be equal to security param'')))
      else (case FiatShamir S (Root prf) numLeaves securityParam of
              None \<Rightarrow> None
            | Some R \<Rightarrow>
              let provenLeafIndices = sorted_list_of_set R in
              Some (case mk_Validate M provenLeafIndices (ProvenLeaves prf) (ProofNodes prf) (Root prf) merkleHashFunc of
                 Inl err \<Rightarrow> Ret (Some (Wrap ''error while validating merkle proof'' err))
               | Inr (valid, parkingSnapshots) \<Rightarrow>
                 if \<not> valid then Ret (Some (Opaque ''merkle proof not valid''))
                 else if length parkingSnapshots \<noteq> length (ProvenLeaves prf)
                 then Ret (Some (Opaque ''merkle proof not valid: len(parkingSnapshots) != len(proof.ProvenLeaves)''))
                 else checkLabels labelHashFunc [] provenLeafIndices parkingSnapshots 0 (ProvenLeaves prf))))"

section \<open>Lemmas\<close>

lemma checkLabels_ok:
  assumes "\<forall>s \<in> set snaps. nodes_ok s"
    and "lid + length labels \<le> length idx" and "lid + length labels \<le> length snaps"
  shows "checkLabels h buffer idx snaps lid labels = Ret None \<longleftrightarrow>
    (\<forall>k < length labels. labels ! k = label_of h (idx ! (lid + k), snaps ! (lid + k)))"
  using assms(2,3)
proof (induction labels arbitrary: lid buffer)
  case (Cons label labels)
  obtain b' e where m: "MakeLabelFunc h buffer (idx ! lid, snaps ! lid) = (b', e)" by fastforce
  have "nodes_ok (snaps ! lid)" using assms(1) Cons.prems(2) by simp
  with m have e: "e = label_of h (idx ! lid, snaps ! lid)"
    using MakeLabelFunc_call [of "(idx ! lid, snaps ! lid)" h buffer] by simp
  have "checkLabels h buffer idx snaps lid (label # labels) = Ret None \<longleftrightarrow>
      label = e \<and> checkLabels h b' idx snaps (Suc lid) labels = Ret None"
    using m Cons.prems by auto
  then show ?case
    using e Cons.IH [of "Suc lid" b'] Cons.prems by (simp add: All_less_Suc2)
qed simp

lemma checkLabels_no_panic:
  "lid + length labels \<le> length idx \<Longrightarrow> lid + length labels \<le> length snaps \<Longrightarrow>
   checkLabels h buffer idx snaps lid labels \<noteq> Panic"
  by (induction labels arbitrary: lid buffer) (auto split: prod.splits)

lemma Validate_accepts_iff:
  assumes "unat sp = length (ProvenLeaves prf)" and "FiatShamir S (Root prf) n sp = Some R"
    and "mk_Validate M (sorted_list_of_set R) (ProvenLeaves prf) (ProofNodes prf) (Root prf) mh = Inr (True, snaps)"
    and "\<forall>s \<in> set snaps. nodes_ok s" and "length snaps = length (ProvenLeaves prf)"
    and "length (sorted_list_of_set R) = length (ProvenLeaves prf)"
  shows "Validate S M prf h mh n sp = Some (Ret None) \<longleftrightarrow>
    (\<forall>k < length (ProvenLeaves prf).
       ProvenLeaves prf ! k = label_of h (sorted_list_of_set R ! k, snaps ! k))"
  using assms checkLabels_ok [of snaps 0 "ProvenLeaves prf" "sorted_list_of_set R" h "[]"]
  by (simp add: Validate_def)

section \<open>A concrete run\<close>

lemma demo_FiatShamir_single: "FiatShamir S challenge 1 1 = Some {0}"
  by (simp add: FiatShamir_def while_option_unfold fs_id_def Let_def)

definition single_proof :: MerkleProof where
  "single_proof = \<lparr>Root = [5], ProvenLeaves = [[5]], ProofNodes = [[5]]\<rparr>"

lemma single_proof_validates:
  "Validate (demo_sha True) (ref_merkle (\<lambda>l r. l)) single_proof (\<lambda>d. [5]) (\<lambda>l r. l) 1 1 = Some (Ret None)"
  by (simp add: Validate_def single_proof_def demo_FiatShamir_single ref_merkle_def ref_root_def ref_park_def
      MakeLabelFunc_def Let_def)

lemma ref_merkle_validate_ok [simp]: "validate_ok (ref_merkle h)"
  using ref_merkle_contract [of h] by (simp add: merkle_contract_def)

section \<open>Properties\<close>

text \<open>
  C3: Soundness of acceptance. If the verifier accepts, then the proof carries exactly
  \<open>securityParam\<close> leaves, the Merkle library confirmed them at the Fiat-Shamir indices of the
  claimed root (in ascending order) with one parking snapshot each, and, as long as nodes have at
  most 32 bytes, every proven leaf is the label hash of its index and its left siblings.
\<close>

theorem validate_sound:
  assumes "Validate S M prf lh mh numLeaves securityParam = Some (Ret None)"
    and "validate_ok M"
  shows "length (ProvenLeaves prf) = unat securityParam \<and>
    (\<exists>R snaps. FiatShamir S (Root prf) numLeaves securityParam = Some R \<and>
       mk_Validate M (sorted_list_of_set R) (ProvenLeaves prf) (ProofNodes prf) (Root prf) mh
         = Inr (True, snaps) \<and>
       card R = unat securityParam \<and> length snaps = unat securityParam \<and>
       ((\<forall>s \<in> set snaps. nodes_ok s) \<longrightarrow>
         (\<forall>k < unat securityParam. ProvenLeaves prf ! k
            = lh (PutUint64_BE (sorted_list_of_set R ! k) @ concat (snaps ! k)))))"
proof -
  from assms(1) have len: "unat securityParam = length (ProvenLeaves prf)"
    by (auto simp: Validate_def split: if_splits)
  with assms(1) obtain R where R: "FiatShamir S (Root prf) numLeaves securityParam = Some R"
    by (auto simp: Validate_def split: option.splits)
  with assms(1) len obtain snaps where
    V: "mk_Validate M (sorted_list_of_set R) (ProvenLeaves prf) (ProofNodes prf) (Root prf) mh = Inr (True, snaps)"
    and sl: "length snaps = length (ProvenLeaves prf)"
    by (auto simp: Validate_def Let_def split: sum.splits if_splits)
  from V assms(2) have il: "length (sorted_list_of_set R) = length (ProvenLeaves prf)"
    unfolding validate_ok_def by (metis sum.simps(4))
  show ?thesis
    using Validate_accepts_iff [OF len R V _ sl il, of lh] len R V sl il assms(1)
    by (auto simp: label_of_def)
qed

theorem validate_sound_witness:
  "length (ProvenLeaves single_proof) = unat (1 :: u8) \<and>
    (\<exists>R snaps. FiatShamir (demo_sha True) (Root single_proof) 1 1 = Some R \<and>
       mk_Validate (ref_merkle (\<lambda>l r. l)) (sorted_list_of_set R) (ProvenLeaves single_proof)
         (ProofNodes single_proof) (Root single_proof) (\<lambda>l r. l) = Inr (True, snaps) \<and>
       card R = unat (1 :: u8) \<and> length snaps = unat (1 :: u8))"
  using validate_sound [OF single_proof_validates ref_merkle_validate_ok] by blast

text \<open>
  C10: The verifier never panics, whatever proof and leaf count it is given (also when the claimed
  tree is smaller than the security parameter): the length checks of the code and of the Merkle
  library keep both index expressions in range.
\<close>

theorem validate_never_panics:
  assumes "validate_ok M"
  shows "Validate S M prf lh mh numLeaves securityParam \<noteq> Some Panic"
proof
  assume *: "Validate S M prf lh mh numLeaves securityParam = Some Panic"
  then have len: "unat securityParam = length (ProvenLeaves prf)"
    by (auto simp: Validate_def split: if_splits)
  with * obtain R where R: "FiatShamir S (Root prf) numLeaves securityParam = Some R"
    by (auto simp: Validate_def split: option.splits)
  with * len obtain snaps where
    V: "mk_Validate M (sorted_list_of_set R) (ProvenLeaves prf) (ProofNodes prf) (Root prf) mh = Inr (True, snaps)"
    and sl: "length snaps = length (ProvenLeaves prf)"
    and c: "checkLabels lh [] (sorted_list_of_set R) snaps 0 (ProvenLeaves prf) = Panic"
    by (auto simp: Validate_def Let_def split: sum.splits if_splits)
  from V assms have "length (sorted_list_of_set R) = length (ProvenLeaves prf)"
    unfolding validate_ok_def by (metis sum.simps(4))
  with sl c checkLabels_no_panic [of 0 "ProvenLeaves prf" "sorted_list_of_set R" snaps] show False by simp
qed

theorem validate_never_panics_witness:
  "Validate (demo_sha True) (ref_merkle (\<lambda>l r. l @ r)) demo_proof (\<lambda>d. d) (\<lambda>l r. l @ r) 1 2 \<noteq> Some Panic"
  by (rule validate_never_panics) simp

text \<open>
  A proof that does not carry exactly \<open>securityParam\<close> leaves is refused with an error, before
  any index is drawn.
\<close>

lemma validate_wrong_leaf_count:
  "length (ProvenLeaves prf) \<noteq> unat securityParam \<Longrightarrow>
   \<exists>e. Validate S M prf lh mh numLeaves securityParam = Some (Ret (Some e))"
  by (simp add: Validate_def)

end
