(* ===== verification/Os.thy ===== *)
theory Os
  imports Paths
begin

text \<open>
  The file operations that the program uses (package \<open>os\<close>, \<open>atomic.WriteFile\<close>) as the fields of a
  record over a file system \<open>'w\<close>, what the code relies on (\<open>os_contract\<close>), and a reference file
  system that meets it.
\<close>

section \<open>The operations\<close>

text \<open>A directory entry is its name and whether it is a directory.\<close>

type_synonym dir_entry = "string \<times> bool"

text \<open>An opened file: the bytes that can be read from it and the error that ends the reading (\<open>None\<close> is \<open>io.EOF\<close>).\<close>

type_synonym reader = "bytes \<times> goerr option"

record 'w os_api =
  os_Open :: "'w \<Rightarrow> string \<Rightarrow> goerr + reader"
  os_WriteFile :: "'w \<Rightarrow> string \<Rightarrow> bytes \<Rightarrow> 'w \<times> goerr option"
  os_MkdirAll :: "'w \<Rightarrow> string \<Rightarrow> 'w \<times> goerr option"
  os_ReadDir :: "'w \<Rightarrow> string \<Rightarrow> goerr + dir_entry list"
  os_RemoveAll :: "'w \<Rightarrow> string \<Rightarrow> 'w \<times> goerr option"

section \<open>What the code relies on\<close>

text \<open>
  \<open>file w p\<close> is the content of the file at \<open>p\<close>. Opening a missing file gives an error that is
  \<open>os.ErrNotExist\<close>, and no other error is. An atomic write that fails has either not happened or
  happened in full. Creating directories changes no file, and removing a directory removes the files
  in it.
\<close>

type_synonym 'w os_files = "'w \<Rightarrow> string \<rightharpoonup> bytes"

definition os_open_ok :: "'w os_api \<Rightarrow> 'w os_files \<Rightarrow> bool" where
  "os_open_ok OS file \<longleftrightarrow>
     (\<forall>w p b. os_Open OS w p = Inr (b, None) \<longrightarrow> file w p = Some b) \<and>
     (\<forall>w p e. os_Open OS w p = Inl e \<longrightarrow> errors_Is e ErrNotExist = (file w p = None)) \<and>
     (\<forall>w p r. os_Open OS w p = Inr r \<longrightarrow> file w p \<noteq> None)"

definition os_write_ok :: "'w os_api \<Rightarrow> 'w os_files \<Rightarrow> bool" where
  "os_write_ok OS file \<longleftrightarrow>
     (\<forall>w p b w'. os_WriteFile OS w p b = (w', None) \<longrightarrow> file w' p = Some b) \<and>
     (\<forall>w p b w' e. os_WriteFile OS w p b = (w', Some e) \<longrightarrow> file w' p = file w p \<or> file w' p = Some b)"

definition os_dirs_ok :: "'w os_api \<Rightarrow> 'w os_files \<Rightarrow> bool" where
  "os_dirs_ok OS file \<longleftrightarrow>
     (\<forall>w p w' e. os_MkdirAll OS w p = (w', e) \<longrightarrow> file w' = file w) \<and>
     (\<forall>w p w' q. os_RemoveAll OS w p = (w', None) \<longrightarrow> plain_name q \<longrightarrow> file w' (filepath_Join [p, q]) = None)"

definition os_contract :: "'w os_api \<Rightarrow> 'w os_files \<Rightarrow> bool" where
  "os_contract OS file \<longleftrightarrow> os_open_ok OS file \<and> os_write_ok OS file \<and> os_dirs_ok OS file"

text \<open>A file that can be read to its end.\<close>

definition readable :: "'w os_api \<Rightarrow> 'w \<Rightarrow> string \<Rightarrow> bool" where
  "readable OS w p \<longleftrightarrow>
     (case os_Open OS w p of Inl e \<Rightarrow> errors_Is e ErrNotExist | Inr (b, e) \<Rightarrow> e = None)"

section \<open>Lemmas\<close>

lemma readable_Open:
  assumes "os_open_ok OS file" and "readable OS w p"
  shows "file w p = Some b \<Longrightarrow> os_Open OS w p = Inr (b, None)"
    and "file w p = None \<Longrightarrow> \<exists>e. os_Open OS w p = Inl e \<and> errors_Is e ErrNotExist"
proof -
  show "os_Open OS w p = Inr (b, None)" if "file w p = Some b"
    using that assms by (cases "os_Open OS w p") (auto simp: os_open_ok_def readable_def split: sum.splits)
  show "\<exists>e. os_Open OS w p = Inl e \<and> errors_Is e ErrNotExist" if "file w p = None"
  proof (cases "os_Open OS w p")
    case (Inl e)
    with that assms(1) show ?thesis unfolding os_open_ok_def by blast
  next
    case (Inr r)
    with that assms(1) show ?thesis unfolding os_open_ok_def by blast
  qed
qed

section \<open>A concrete file system\<close>

text \<open>Files and directories by path; entries are listed in the order in which they were made.\<close>

record os_world =
  ow_files :: "(string \<times> bytes) list"
  ow_dirs :: "string list"

definition ow_file :: "os_world os_files" where
  "ow_file w = map_of (ow_files w)"

definition childName :: "string \<Rightarrow> string \<Rightarrow> string option" where
  "childName d p =
     (let n = drop (length d + 1) p
      in if take (length d + 1) p = d @ ''/'' \<and> CHR ''/'' \<notin> set n then Some n else None)"

definition inDir :: "string \<Rightarrow> string \<Rightarrow> bool" where
  "inDir d p \<longleftrightarrow> filepath_Join [d, lastElem p] = p"

definition ref_os :: "os_world os_api" where
  "ref_os =
     \<lparr>os_Open = (\<lambda>w p. case map_of (ow_files w) p of None \<Rightarrow> Inl ErrNotExist | Some b \<Rightarrow> Inr (b, None)),
      os_WriteFile = (\<lambda>w p b. (w\<lparr>ow_files := (p, b) # filter (\<lambda>f. fst f \<noteq> p) (ow_files w)\<rparr>, None)),
      os_MkdirAll = (\<lambda>w d. (w\<lparr>ow_dirs := (if d \<in> set (ow_dirs w) then ow_dirs w else ow_dirs w @ [d])\<rparr>, None)),
      os_ReadDir = (\<lambda>w d.
         Inr (map (\<lambda>n. (n, False)) (List.map_filter (\<lambda>f. childName d (fst f)) (ow_files w))
            @ map (\<lambda>n. (n, True)) (List.map_filter (childName d) (ow_dirs w)))),
      os_RemoveAll = (\<lambda>w d. (w\<lparr>ow_files := filter (\<lambda>f. \<not> inDir d (fst f)) (ow_files w),
         ow_dirs := filter (\<lambda>p. p \<noteq> d) (ow_dirs w)\<rparr>, None))\<rparr>"

lemma map_of_filter_key: "map_of (filter (\<lambda>f. P (fst f)) xs) k = (if P k then map_of xs k else None)"
  by (induction xs) auto

lemma inDir_Join: "plain_name q \<Longrightarrow> inDir p (filepath_Join [p, q])"
  by (simp add: inDir_def lastElem_Join)

lemma ref_os_contract: "os_contract ref_os ow_file"
  by (auto simp: os_contract_def os_open_ok_def os_write_ok_def os_dirs_ok_def ref_os_def ow_file_def
      map_of_filter_key [of "\<lambda>k. \<not> inDir _ k"] inDir_Join split: option.splits)

lemma ref_os_readable [simp]: "readable ref_os w p"
  by (auto simp: readable_def ref_os_def split: option.splits)

end
