(* ===== verification/Prover.thy ===== *)
theory Prover
  imports Verifier Os
begin

text \<open>
  Package \<open>prover\<close> (\<open>prover/prover.go\<close>, \<open>prover/layer_factory.go\<close>): the layer files of a round
  directory, the tree for a fresh proof, the sequential work loop and the generation of the
  non-interactive proof. Logging and metrics are left out.
\<close>

section \<open>Layer files\<close>

definition MerkleMinCacheLayer :: uint where
  "MerkleMinCacheLayer = 0"

definition LowestMerkleMinMemoryLayer :: uint where
  "LowestMerkleMinMemoryLayer = 1"

definition hardShutdownCheckpointRate :: u64 where
  "hardShutdownCheckpointRate = 16777216"

record TreeConfig =
  MinMemoryLayer :: uint
  Datadir :: string
  FileWriterBufSize :: uint

definition layerPrefix :: string where
  "layerPrefix = ''layercache_''"

definition layerFileName :: "uint \<Rightarrow> string" where
  "layerFileName layerHeight = layerPrefix @ FormatUint layerHeight @ ''.bin''"

definition GetLayerFactory :: "uint \<Rightarrow> string \<Rightarrow> uint \<Rightarrow> layer_factory" where
  "GetLayerFactory minMemoryLayer datadir fileWriterBufSize layerHeight =
     (if layerHeight < minMemoryLayer
      then FileLayer (filepath_Join [datadir, layerFileName layerHeight]) fileWriterBufSize
      else SliceLayer)"

text \<open>
  The expression \<open>layercache_(.*).bin\<close> on a name that starts with the prefix: the group is
  greedy and the dot before \<open>bin\<close> matches any character. \<open>binMatch\<close> gives the group for the rest
  of the name after the prefix (names contain no newline).
\<close>

fun binMatch :: "string \<Rightarrow> string option" where
  "binMatch [] = None"
| "binMatch (c # cs) =
     (case binMatch cs of
        Some g \<Rightarrow> Some (c # g)
      | None \<Rightarrow> if take 3 cs = ''bin'' then Some [] else None)"

fun collectLayers :: "dir_entry list \<Rightarrow> (uint \<rightharpoonup> string) \<Rightarrow> goerr + (uint \<rightharpoonup> string)" where
  "collectLayers [] files = Inr files"
| "collectLayers ((name, isDir) # entries) files =
     (if \<not> isDir \<and> take (length layerPrefix) name = layerPrefix
      then (case binMatch (drop (length layerPrefix) name) of
              None \<Rightarrow> Inl (Opaque (''invalid layer cache filename: '' @ name))
            | Some g \<Rightarrow>
              (case Atoi g of
                 None \<Rightarrow> Inl (Opaque (''invalid layer cache filename: '' @ name))
               | Some layerNum \<Rightarrow> collectLayers entries (files(word_of_int layerNum \<mapsto> name))))
      else collectLayers entries files)"

definition getLayersFiles :: "goerr + dir_entry list \<Rightarrow> goerr + (uint \<rightharpoonup> string)" where
  "getLayersFiles readDir =
     (case readDir of Inl err \<Rightarrow> Inl err | Inr entries \<Rightarrow> collectLayers entries Map.empty)"

definition makeProofTree ::
  "('t, 'rd) merkle_api \<Rightarrow> TreeConfig \<Rightarrow> merkle_hash \<Rightarrow> goerr + dir_entry list \<Rightarrow> goerr + 't" where
  "makeProofTree M treeCfg merkleHashFunc readDir =
     (case getLayersFiles readDir of
        Inl err \<Rightarrow> Inl err
      | Inr layersFiles \<Rightarrow>
        (if layersFiles \<noteq> Map.empty then Inl (Opaque ''datadir is not empty. layer files exist'')
         else mk_Build M merkleHashFunc
                (Combine (SpecificLayersPolicy {0}) (MinHeightPolicy MerkleMinCacheLayer))
                (GetLayerFactory (max (MinMemoryLayer treeCfg) LowestMerkleMinMemoryLayer)
                   (Datadir treeCfg) (FileWriterBufSize treeCfg))))"

section \<open>Sequential work\<close>

text \<open>
  What the \<open>select\<close> statement finds in one iteration: the context is cancelled, the deadline has
  passed, or neither. When both channels are ready Go chooses either, so the choice is part of
  the environment.
\<close>

datatype tick = Cancelled | Stopped | Running

text \<open>
  \<open>persist\<close> is the caller's persistence function: it may flush the tree's cache and update the
  caller's state \<open>'p\<close>. The loop may run forever; \<open>None\<close> is that case.
\<close>

type_synonym ('t, 'p) persist_fun = "'t \<Rightarrow> 'p \<Rightarrow> u64 \<Rightarrow> 't \<times> 'p \<times> goerr option"

text \<open>
  One iteration: \<open>Inl\<close> is a return with the number of leaves and the error, \<open>Inr\<close> goes on with
  the next leaf.
\<close>

definition workStep ::
  "('t, 'rd) merkle_api \<Rightarrow> (bytes \<Rightarrow> bytes) \<Rightarrow> tick \<Rightarrow> goerr \<Rightarrow> u8 \<Rightarrow> ('t, 'p) persist_fun \<Rightarrow>
   bytes \<Rightarrow> 't \<Rightarrow> 'p \<Rightarrow> u64 \<Rightarrow> ('t \<times> 'p \<times> u64 \<times> goerr option) + (bytes \<times> 't \<times> 'p \<times> u64)" where
  "workStep M labelHashFunc tck ctxErr securityParam persist buffer tree st nextLeafID =
     (case MakeLabelFunc labelHashFunc buffer (nextLeafID, mk_GetParkedNodes M tree) of (buffer, label) \<Rightarrow>
      (case mk_AddLeaf M tree label of
         (tree, Some err) \<Rightarrow> Inl (tree, st, 0, Some err)
       | (tree, None) \<Rightarrow>
         let nextLeafID = nextLeafID + 1 in
         (case tck of
            Cancelled \<Rightarrow>
              (case persist tree st nextLeafID of
                 (tree, st, Some err) \<Rightarrow> Inl (tree, st, 0, Some (Wrap ''persisting execution state'' err))
               | (tree, st, None) \<Rightarrow> Inl (tree, st, nextLeafID, Some ctxErr))
          | Stopped \<Rightarrow>
              if nextLeafID < ucast securityParam
              then Inr (buffer, tree, st, nextLeafID)
              else (case persist tree st nextLeafID of
                 (tree, st, Some err) \<Rightarrow> Inl (tree, st, 0, Some (Wrap ''persisting execution state'' err))
               | (tree, st, None) \<Rightarrow> Inl (tree, st, nextLeafID, None))
          | Running \<Rightarrow>
              if nextLeafID mod hardShutdownCheckpointRate = 0
              then (case persist tree st nextLeafID of
                 (tree, st, Some err) \<Rightarrow> Inl (tree, st, 0, Some err)
               | (tree, st, None) \<Rightarrow> Inr (buffer, tree, st, nextLeafID))
              else Inr (buffer, tree, st, nextLeafID))))"

partial_function (option) workLoop ::
  "('t, 'rd) merkle_api \<Rightarrow> (bytes \<Rightarrow> bytes) \<Rightarrow> (nat \<Rightarrow> tick) \<Rightarrow> goerr \<Rightarrow> u8 \<Rightarrow> ('t, 'p) persist_fun \<Rightarrow>
   nat \<Rightarrow> bytes \<Rightarrow> 't \<Rightarrow> 'p \<Rightarrow> u64 \<Rightarrow> ('t \<times> 'p \<times> u64 \<times> goerr option) option" where
  "workLoop M labelHashFunc sel ctxErr securityParam persist k buffer tree st nextLeafID =
     (case workStep M labelHashFunc (sel k) ctxErr securityParam persist buffer tree st nextLeafID of
        Inl out \<Rightarrow> Some out
      | Inr (buffer', tree', st', nextLeafID') \<Rightarrow>
          workLoop M labelHashFunc sel ctxErr securityParam persist (Suc k) buffer' tree' st' nextLeafID')"

definition sequentialWork ::
  "('t, 'rd) merkle_api \<Rightarrow> (bytes \<Rightarrow> bytes) \<Rightarrow> (nat \<Rightarrow> tick) \<Rightarrow> goerr \<Rightarrow> u8 \<Rightarrow> ('t, 'p) persist_fun \<Rightarrow>
   't \<Rightarrow> 'p \<Rightarrow> u64 \<Rightarrow> ('t \<times> 'p \<times> u64 \<times> goerr option) option" where
  "sequentialWork M labelHashFunc sel ctxErr securityParam persist tree st nextLeafID =
     workLoop M labelHashFunc sel ctxErr securityParam persist 0 [] tree st nextLeafID"

section \<open>Proof generation\<close>

text \<open>
  The result is the number of leaves and the proof, or an error with the number of leaves; the
  tree and the caller's state are returned as they are left. \<open>None\<close> is a run that does not end
  (sequential work that is never stopped, or a Fiat-Shamir loop without enough indices).
\<close>

definition generateProof ::
  "sha256_api \<Rightarrow> ('t, 'rd) merkle_api \<Rightarrow> (bytes \<Rightarrow> bytes) \<Rightarrow> (nat \<Rightarrow> tick) \<Rightarrow> goerr \<Rightarrow> u8 \<Rightarrow> ('t, 'p) persist_fun \<Rightarrow>
   't \<Rightarrow> 'p \<Rightarrow> u64 \<Rightarrow> ('t \<times> 'p \<times> (goerr \<times> u64 + u64 \<times> MerkleProof)) option" where
  "generateProof S M labelHashFunc sel ctxErr securityParam persist tree st nextLeafID =
     (case sequentialWork M labelHashFunc sel ctxErr securityParam persist tree st nextLeafID of
        None \<Rightarrow> None
      | Some (tree, st, leaves, Some err) \<Rightarrow> Some (tree, st, Inl (err, leaves))
      | Some (tree, st, leaves, None) \<Rightarrow>
        let root = mk_Root M tree in
        (case mk_GetReader M tree of
           (tree, Inl err) \<Rightarrow> Some (tree, st, Inl (err, 0))
         | (tree, Inr cacheReader) \<Rightarrow>
           (case FiatShamir S root leaves securityParam of
              None \<Rightarrow> None
            | Some provenLeafIndices \<Rightarrow>
              (case mk_GenerateProof M provenLeafIndices cacheReader of
                 Inl err \<Rightarrow> Some (tree, st, Inl (err, 0))
               | Inr (provenLeaves, proofNodes) \<Rightarrow>
                 Some (tree, st, Inr (leaves,
                   \<lparr>Root = root, ProvenLeaves = provenLeaves, ProofNodes = proofNodes\<rparr>))))))"

definition GenerateProof ::
  "sha256_api \<Rightarrow> ('t, 'rd) merkle_api \<Rightarrow> TreeConfig \<Rightarrow> goerr + dir_entry list \<Rightarrow> (bytes \<Rightarrow> bytes) \<Rightarrow> merkle_hash \<Rightarrow>
   (nat \<Rightarrow> tick) \<Rightarrow> goerr \<Rightarrow> u8 \<Rightarrow> ('t, 'p) persist_fun \<Rightarrow> 'p \<Rightarrow>
   ('p \<times> (goerr \<times> u64 + u64 \<times> MerkleProof)) option" where
  "GenerateProof S M treeCfg readDir labelHashFunc merkleHashFunc sel ctxErr securityParam persist st =
     (case makeProofTree M treeCfg merkleHashFunc readDir of
        Inl err \<Rightarrow> Some (st, Inl (err, 0))
      | Inr tree \<Rightarrow>
        map_option snd (generateProof S M labelHashFunc sel ctxErr securityParam persist tree st 0))"

definition GenerateProofWithoutPersistency ::
  "sha256_api \<Rightarrow> ('t, 'rd) merkle_api \<Rightarrow> TreeConfig \<Rightarrow> goerr + dir_entry list \<Rightarrow> (bytes \<Rightarrow> bytes) \<Rightarrow> merkle_hash \<Rightarrow>
   (nat \<Rightarrow> tick) \<Rightarrow> goerr \<Rightarrow> u8 \<Rightarrow> (goerr \<times> u64 + u64 \<times> MerkleProof) option" where
  "GenerateProofWithoutPersistency S M treeCfg readDir labelHashFunc merkleHashFunc sel ctxErr securityParam =
     map_option snd (GenerateProof S M treeCfg readDir labelHashFunc merkleHashFunc sel ctxErr securityParam
       (\<lambda>tree st _. (tree, st, None)) ())"

section \<open>Lemmas on layer files\<close>

lemma binMatch_suffix: "binMatch (g @ ''.bin'') = Some g"
  by (induction g) simp_all

lemma layer_of_fileName:
  assumes "unat h < 2 ^ 63"
  shows "binMatch (drop (length layerPrefix) (layerFileName h)) = Some (FormatUint h)"
    and "Atoi (FormatUint h) = Some (int (unat h))"
  using assms by (simp_all add: layerFileName_def binMatch_suffix FormatUint_def Atoi_fmt_nat)

lemma collectLayers_layers:
  assumes "\<forall>h \<in> set hs. unat h < 2 ^ 63"
  shows "collectLayers (map (\<lambda>h. (layerFileName h, False)) hs) files
    = Inr (files ++ map_of (rev (map (\<lambda>h. (h, layerFileName h)) hs)))"
  using assms
proof (induction hs arbitrary: files)
  case (Cons h hs)
  then have "collectLayers (map (\<lambda>h. (layerFileName h, False)) (h # hs)) files
      = collectLayers (map (\<lambda>h. (layerFileName h, False)) hs) (files(h \<mapsto> layerFileName h))"
    using layer_of_fileName [of h]
    by (simp add: layerFileName_def [of h] layerPrefix_def)
  with Cons show ?case by (simp add: map_add_def fun_eq_iff map_of_append split: option.splits)
qed simp

section \<open>Lemmas on sequential work\<close>

text \<open>A tree whose every leaf is the label of its index and the nodes parked before it.\<close>

definition honest :: "(bytes \<Rightarrow> bytes) \<Rightarrow> (bytes list \<Rightarrow> bytes list) \<Rightarrow> bytes list \<Rightarrow> bool" where
  "honest h park ls \<longleftrightarrow>
     (\<forall>i < length ls. ls ! i = h (PutUint64_BE (of_nat i) @ concat (park (take i ls))))"

definition persist_keeps :: "('t \<Rightarrow> bytes list) \<Rightarrow> ('t, 'p) persist_fun \<Rightarrow> bool" where
  "persist_keeps leaves persist \<longleftrightarrow> (\<forall>t p n t' p' e. persist t p n = (t', p', e) \<longrightarrow> leaves t' = leaves t)"

lemma honest_Nil [simp]: "honest h park []"
  by (simp add: honest_def)

lemma honest_snoc:
  assumes "honest h park ls"
  shows "honest h park (ls @ [h (PutUint64_BE (of_nat (length ls)) @ concat (park ls))])"
  using assms by (auto simp: honest_def nth_append less_Suc_eq)

lemma workLoop_rule:
  assumes ret: "workLoop M lh sel e sp persist k b t p n = Some out" and inv: "Inv k b t p n"
    and step: "\<And>k b t p n b' t' p' n'. Inv k b t p n \<Longrightarrow>
      workStep M lh (sel k) e sp persist b t p n = Inr (b', t', p', n') \<Longrightarrow> Inv (Suc k) b' t' p' n'"
    and fin: "\<And>k b t p n out. Inv k b t p n \<Longrightarrow> workStep M lh (sel k) e sp persist b t p n = Inl out \<Longrightarrow> Q out"
  shows "Q out"
proof -
  let ?P = "\<lambda>M' lh' sel' e' sp' persist' k b t p n out.
    M' = M \<and> lh' = lh \<and> sel' = sel \<and> e' = e \<and> sp' = sp \<and> persist' = persist \<longrightarrow> Inv k b t p n \<longrightarrow> Q out"
  have "?P M lh sel e sp persist k b t p n out"
    by (rule workLoop.raw_induct [where P = ?P, OF _ ret])
      (fastforce intro: fin dest: step split: sum.splits prod.splits)
  with inv show ?thesis by blast
qed

text \<open>One iteration adds the honest label of the next leaf, or the library refused it.\<close>

lemma workStep_AddLeaf:
  assumes T: "tree_ok M leaves park" and n: "n = of_nat (length (leaves t))"
  obtains b' t1 err where
    "MakeLabelFunc lh b (n, mk_GetParkedNodes M t) = (b', lh (PutUint64_BE n @ concat (park (leaves t))))"
    "mk_AddLeaf M t (lh (PutUint64_BE n @ concat (park (leaves t)))) = (t1, err)"
    "err = None \<longrightarrow> leaves t1 = leaves t @ [lh (PutUint64_BE n @ concat (park (leaves t)))]"
proof -
  let ?l = "lh (PutUint64_BE n @ concat (park (leaves t)))"
  obtain b' l where m: "MakeLabelFunc lh b (n, mk_GetParkedNodes M t) = (b', l)" by fastforce
  have "l = ?l"
    using MakeLabelFunc_call [of "(n, mk_GetParkedNodes M t)" lh b] m tree_Parked [OF T, of t]
    by (simp add: label_of_def)
  moreover obtain t1 err where a: "mk_AddLeaf M t ?l = (t1, err)" by fastforce
  moreover have "err = None \<longrightarrow> leaves t1 = leaves t @ [?l]" using a tree_AddLeaf [OF T] by blast
  ultimately show ?thesis using m that by blast
qed

definition work_inv :: "(bytes \<Rightarrow> bytes) \<Rightarrow> ('t \<Rightarrow> bytes list) \<Rightarrow> (bytes list \<Rightarrow> bytes list) \<Rightarrow> 't \<Rightarrow> u64 \<Rightarrow> bool" where
  "work_inv lh leaves park t n \<longleftrightarrow> honest lh park (leaves t) \<and> n = of_nat (length (leaves t))"

lemma workStep_inv:
  assumes T: "tree_ok M leaves park" and K: "persist_keeps leaves persist" and I: "work_inv lh leaves park t n"
  shows "workStep M lh tck e sp persist b t p n = Inr (b', t', p', n') \<Longrightarrow>
      work_inv lh leaves park t' n' \<and> n' = n + 1"
    and "workStep M lh tck e sp persist b t p n = Inl (t', p', n', None) \<Longrightarrow>
      work_inv lh leaves park t' n' \<and> n' = n + 1 \<and> ucast sp \<le> n'"
proof -
  from I have n: "n = of_nat (length (leaves t))" by (simp add: work_inv_def)
  let ?l = "lh (PutUint64_BE n @ concat (park (leaves t)))"
  obtain b1 t1 err where m: "MakeLabelFunc lh b (n, mk_GetParkedNodes M t) = (b1, ?l)"
    and a: "mk_AddLeaf M t ?l = (t1, err)" and l: "err = None \<longrightarrow> leaves t1 = leaves t @ [?l]"
    by (rule workStep_AddLeaf [OF T n, of lh b])
  have I1: "work_inv lh leaves park t2 (n + 1)" if "err = None" "leaves t2 = leaves t1" for t2
    using that I l honest_snoc [of lh park "leaves t"] by (simp add: work_inv_def)
  have K': "persist t1 p (n + 1) = (t2, p2, e2) \<Longrightarrow> leaves t2 = leaves t1" for t2 p2 e2
    using K unfolding persist_keeps_def by blast
  show "work_inv lh leaves park t' n' \<and> n' = n + 1"
    if "workStep M lh tck e sp persist b t p n = Inr (b', t', p', n')"
    using that m a I1 K'
    by (auto simp: workStep_def Let_def split: option.splits tick.splits if_splits prod.splits)
  show "work_inv lh leaves park t' n' \<and> n' = n + 1 \<and> ucast sp \<le> n'"
    if "workStep M lh tck e sp persist b t p n = Inl (t', p', n', None)"
    using that m a I1 K'
    by (auto simp: workStep_def Let_def not_less split: option.splits tick.splits if_splits prod.splits)
qed

lemma sequentialWork_honest:
  fixes p p' :: 'p
  assumes T: "tree_ok M leaves park" and K: "persist_keeps leaves persist" and I: "work_inv lh leaves park t n"
    and ret: "sequentialWork M lh sel e sp persist t p n = Some (t', p', n', None)"
  shows "work_inv lh leaves park t' n' \<and> ucast sp \<le> n'"
proof -
  let ?Q = "\<lambda>(t', p' :: 'p, n', err :: goerr option). err = None \<longrightarrow> work_inv lh leaves park t' n' \<and> ucast sp \<le> n'"
  from ret have "workLoop M lh sel e sp persist 0 [] t p n = Some (t', p', n', None)"
    by (simp only: sequentialWork_def)
  then have "?Q (t', p', n', None)" using I
  proof (rule workLoop_rule [where Inv = "\<lambda>k b t (p :: 'p) n. work_inv lh leaves park t n" and Q = ?Q])
    fix k b t and p :: 'p and n b' t' and p' :: 'p and n'
    assume "work_inv lh leaves park t n"
      and "workStep M lh (sel k) e sp persist b t p n = Inr (b', t', p', n')"
    then show "work_inv lh leaves park t' n'" by (rule workStep_inv(1) [OF T K, THEN conjunct1])
  next
    fix k b t and p :: 'p and n out
    assume I': "work_inv lh leaves park t n" and s: "workStep M lh (sel k) e sp persist b t p n = Inl out"
    obtain t2 p2 n2 err where out: "out = (t2, p2, n2, err)" by (rule prod_cases4)
    show "?Q out"
      using workStep_inv(2) [OF T K I'] s out by (cases err) auto
  qed
  then show ?thesis by simp
qed

text \<open>Whatever leaf count is returned, exactly that count was persisted last.\<close>

lemma workStep_persisted:
  assumes "workStep M lh tck e sp persist b t p n = Inl (t', p', n', err)" and "err = None \<or> n' \<noteq> 0"
  shows "\<exists>t0 p0. persist t0 p0 n' = (t', p', None)"
  using assms by (auto simp: workStep_def Let_def split: option.splits tick.splits if_splits prod.splits)

lemma sequentialWork_persisted:
  fixes p p' :: 'p
  assumes ret: "sequentialWork M lh sel e sp persist t p n = Some (t', p', n', err)"
    and "err = None \<or> n' \<noteq> 0"
  shows "\<exists>t0 p0. persist t0 p0 n' = (t', p', None)"
proof -
  let ?Q = "\<lambda>(t', p' :: 'p, n', err :: goerr option).
    err = None \<or> n' \<noteq> 0 \<longrightarrow> (\<exists>t0 p0. persist t0 p0 n' = (t', p', None))"
  from ret have "workLoop M lh sel e sp persist 0 [] t p n = Some (t', p', n', err)"
    by (simp only: sequentialWork_def)
  then have "?Q (t', p', n', err)" using TrueI
  proof (rule workLoop_rule [where Inv = "\<lambda>k b t (p :: 'p) n. True" and Q = ?Q])
    fix k b t and p :: 'p and n out
    assume s: "workStep M lh (sel k) e sp persist b t p n = Inl out"
    obtain t2 p2 n2 err where out: "out = (t2, p2, n2, err)" by (rule prod_cases4)
    show "?Q out" using workStep_persisted s out by fastforce
  qed simp
  with assms(2) show ?thesis by auto
qed

text \<open>
  An environment without failures: the library accepts every leaf, persisting succeeds and the
  context is never cancelled.
\<close>

definition work_undisturbed ::
  "('t, 'rd) merkle_api \<Rightarrow> (nat \<Rightarrow> tick) \<Rightarrow> ('t, 'p) persist_fun \<Rightarrow> bool" where
  "work_undisturbed M sel persist \<longleftrightarrow>
     (\<forall>t l. snd (mk_AddLeaf M t l) = None) \<and> (\<forall>t p n. snd (snd (persist t p n)) = None) \<and>
     (\<forall>k. sel k \<noteq> Cancelled)"

lemma workStep_undisturbed:
  assumes "work_undisturbed M sel persist"
  obtains (next_leaf) b' t' p' where "workStep M lh (sel k) e sp persist b t p n = Inr (b', t', p', n + 1)"
      "sel k = Stopped \<longrightarrow> n + 1 < ucast sp"
    | (finished) t' p' where "workStep M lh (sel k) e sp persist b t p n = Inl (t', p', n + 1, None)"
      "ucast sp \<le> n + 1"
proof -
  obtain b1 l where m: "MakeLabelFunc lh b (n, mk_GetParkedNodes M t) = (b1, l)" by fastforce
  obtain t1 where a: "mk_AddLeaf M t l = (t1, None)"
    using assms unfolding work_undisturbed_def by (metis prod.collapse)
  obtain t2 p2 where ps: "persist t1 p (n + 1) = (t2, p2, None)"
    using assms unfolding work_undisturbed_def by (metis prod.collapse)
  have c: "sel k \<noteq> Cancelled" using assms by (simp add: work_undisturbed_def)
  show ?thesis
  proof (cases "sel k = Stopped \<and> \<not> n + 1 < ucast sp")
    case True
    with m a ps show ?thesis by (intro finished) (simp_all add: workStep_def not_less Let_def)
  next
    case False
    with m a ps c have "\<exists>b' t' p'. workStep M lh (sel k) e sp persist b t p n = Inr (b', t', p', n + 1)"
      by (cases "sel k") (auto simp: workStep_def Let_def)
    with False next_leaf show ?thesis by blast
  qed
qed

lemma workLoop_after_deadline:
  assumes U: "work_undisturbed M sel persist" and D: "\<forall>j \<ge> K. sel j = Stopped"
  shows "K \<le> k \<Longrightarrow> \<exists>t' p' n'. workLoop M lh sel e sp persist k b t p n = Some (t', p', n', None) \<and> ucast sp \<le> n'"
proof (induction "unat (ucast sp - (n + 1))" arbitrary: k b t p n rule: less_induct)
  case less
  show ?case
  proof (rule workStep_undisturbed [OF U, of lh k e sp b t p n])
    fix b' t' p'
    assume w: "workStep M lh (sel k) e sp persist b t p n = Inr (b', t', p', n + 1)"
      and "sel k = Stopped \<longrightarrow> n + 1 < ucast sp"
    with D less.prems have lt: "n + 1 < ucast sp" by simp
    then have "unat (ucast sp - (n + 1 + 1)) < unat (ucast sp - (n + 1))"
      by (rule word_diff_Suc_less)
    from less.hyps [OF this, of "Suc k" b' t' p'] less.prems w show ?thesis
      by (simp add: workLoop.simps [of M lh sel e sp persist k b t p n])
  next
    fix t' p'
    assume "workStep M lh (sel k) e sp persist b t p n = Inl (t', p', n + 1, None)" and "ucast sp \<le> n + 1"
    then show ?thesis by (simp add: workLoop.simps [of M lh sel e sp persist k b t p n])
  qed
qed

lemma workLoop_returns:
  assumes U: "work_undisturbed M sel persist" and D: "\<forall>j \<ge> K. sel j = Stopped"
  shows "\<exists>t' p' n'. workLoop M lh sel e sp persist k b t p n = Some (t', p', n', None) \<and> ucast sp \<le> n'"
proof (induction "K - k" arbitrary: k b t p n)
  case 0
  then show ?case by (intro workLoop_after_deadline [OF U D]) simp
next
  case (Suc m)
  show ?case
  proof (rule workStep_undisturbed [OF U, of lh k e sp b t p n])
    fix b' t' p'
    assume w: "workStep M lh (sel k) e sp persist b t p n = Inr (b', t', p', n + 1)"
    from Suc(1) [of "Suc k" b' t' p' "n + 1"] Suc(2) w show ?thesis
      by (simp add: workLoop.simps [of M lh sel e sp persist k b t p n])
  next
    fix t' p'
    assume "workStep M lh (sel k) e sp persist b t p n = Inl (t', p', n + 1, None)" and "ucast sp \<le> n + 1"
    then show ?thesis by (simp add: workLoop.simps [of M lh sel e sp persist k b t p n])
  qed
qed

section \<open>Lemmas on proof generation\<close>

lemma generateProof_parts:
  assumes "generateProof S M lh sel e sp persist t p n = Some (t', p', Inr (leaves, prf))"
  obtains t1 p1 rd R pl pn where
    "sequentialWork M lh sel e sp persist t p n = Some (t1, p1, leaves, None)"
    "mk_GetReader M t1 = (t', Inr rd)"
    "FiatShamir S (mk_Root M t1) leaves sp = Some R"
    "mk_GenerateProof M R rd = Inr (pl, pn)"
    "prf = \<lparr>Root = mk_Root M t1, ProvenLeaves = pl, ProofNodes = pn\<rparr>" "p' = p1"
  using assms
  by (auto simp: generateProof_def Let_def split: option.splits prod.splits sum.splits)

lemma generateProof_valid:
  assumes C: "merkle_contract M mh leaves rleaves park" and K: "persist_keeps leaves persist"
    and I: "work_inv lh leaves park t n" and sp: "0 < sp"
    and gen: "generateProof S M lh sel e sp persist t p n = Some (t', p', Inr (numLeaves, prf))"
  shows "Validate S M prf lh mh numLeaves sp = Some (Ret None)"
proof -
  from C have T: "tree_ok M leaves park" and Rd: "reader_ok M leaves rleaves"
    and P: "proof_ok M mh leaves rleaves park" by (simp_all add: merkle_contract_def)
  obtain t1 p1 rd R pl pn where w: "sequentialWork M lh sel e sp persist t p n = Some (t1, p1, numLeaves, None)"
    and rd: "mk_GetReader M t1 = (t', Inr rd)" and R: "FiatShamir S (mk_Root M t1) numLeaves sp = Some R"
    and g: "mk_GenerateProof M R rd = Inr (pl, pn)"
    and pf: "prf = \<lparr>Root = mk_Root M t1, ProvenLeaves = pl, ProofNodes = pn\<rparr>"
    by (rule generateProof_parts [OF gen])
  let ?ls = "leaves t1" and ?idx = "sorted_list_of_set R"
  from sequentialWork_honest [OF T K I w] have hon: "honest lh park ?ls"
    and num: "numLeaves = of_nat (length ?ls)" and ge: "ucast sp \<le> numLeaves"
    unfolding work_inv_def by blast+
  have cR: "card R = unat sp" and fR: "finite R"
    using FiatShamir_result [OF R] ge by (simp_all add: word_le_nat_alt)
  with sp have "R \<noteq> {}" by (metis card.empty less_irrefl word_gt_0 unsigned_eq_0_iff)
  have below: "\<forall>i \<in> R. unat i < length ?ls"
  proof
    fix i assume "i \<in> R"
    then have "unat i < unat numLeaves" using FiatShamir_result(2) [OF R] by (auto simp: word_less_nat_alt)
    also have "unat numLeaves \<le> length ?ls" by (simp add: num unat_of_nat)
    finally show "unat i < length ?ls" .
  qed
  obtain snaps where pl: "pl = map (\<lambda>i. ?ls ! unat i) ?idx"
    and V: "mk_Validate M ?idx pl pn (mk_Root M t1) mh = Inr (True, snaps)"
    and sn: "list_all2 (\<lambda>i s. nodes_ok s \<and> concat s = concat (park (take (unat i) ?ls))) ?idx snaps"
    by (rule proof_okD [OF P reader_leaves(2) [OF Rd rd] fR \<open>R \<noteq> {}\<close> below g])
  have li: "length ?idx = unat sp" by (simp add: cR)
  have ls: "length snaps = length ?idx" using list_all2_lengthD [OF sn] by simp
  have snok: "\<forall>s \<in> set snaps. nodes_ok s"
    using sn by (auto simp: list_all2_conv_all_nth in_set_conv_nth)
  have "ProvenLeaves prf ! k = label_of lh (?idx ! k, snaps ! k)" if k: "k < length pl" for k
  proof -
    have k': "k < length ?idx" using k by (simp add: pl)
    then have "?idx ! k \<in> set ?idx" by (rule nth_mem)
    then have "?idx ! k \<in> R" by (simp add: fR)
    with below have "unat (?idx ! k) < length ?ls" by blast
    with hon have "?ls ! unat (?idx ! k) = lh (PutUint64_BE (?idx ! k) @ concat (park (take (unat (?idx ! k)) ?ls)))"
      by (simp add: honest_def)
    with sn k' show ?thesis by (simp add: pf pl label_of_def list_all2_conv_all_nth)
  qed
  then show ?thesis
    using Validate_accepts_iff [of sp "prf" S numLeaves R M mh snaps lh] R V snok ls li
    by (simp add: pf pl)
qed

lemma collectLayers_entry:
  assumes "collectLayers entries files = Inr files'"
  shows "dom files \<subseteq> dom files' \<and>
    ((\<exists>name. (name, False) \<in> set entries \<and> take (length layerPrefix) name = layerPrefix) \<longrightarrow> dom files' \<noteq> {})"
  using assms
proof (induction entries files arbitrary: files' rule: collectLayers.induct)
  case (2 name isDir entries files)
  then show ?case by (fastforce split: if_splits option.splits)
qed simp

text \<open>What persisting keeps of the caller's state, proof generation keeps.\<close>

definition persist_inv :: "('p \<Rightarrow> bool) \<Rightarrow> ('t, 'p) persist_fun \<Rightarrow> bool" where
  "persist_inv Q persist \<longleftrightarrow> (\<forall>t p n t' p' e. Q p \<longrightarrow> persist t p n = (t', p', e) \<longrightarrow> Q p')"

lemma workStep_state:
  assumes "persist_inv Q persist" and "Q p"
  shows "workStep M lh tck e sp persist b t p n = Inr (b', t', p', n') \<Longrightarrow> Q p'"
    and "workStep M lh tck e sp persist b t p n = Inl (t', p', n', err) \<Longrightarrow> Q p'"
proof -
  have K: "persist t p n = (t', p', e) \<Longrightarrow> Q p'" for t n t' p' e
    using assms unfolding persist_inv_def by blast
  show "workStep M lh tck e sp persist b t p n = Inr (b', t', p', n') \<Longrightarrow> Q p'"
    and "workStep M lh tck e sp persist b t p n = Inl (t', p', n', err) \<Longrightarrow> Q p'"
    using assms(2) by (auto simp: workStep_def Let_def split: option.splits tick.splits if_splits prod.splits dest: K)
qed

lemma sequentialWork_state:
  fixes p p' :: 'p
  assumes K: "persist_inv Q persist" and "Q p"
    and ret: "sequentialWork M lh sel e sp persist t p n = Some (t', p', n', err)"
  shows "Q p'"
proof -
  let ?R = "\<lambda>(t', p' :: 'p, n' :: u64, err :: goerr option). Q p'"
  from ret have "workLoop M lh sel e sp persist 0 [] t p n = Some (t', p', n', err)"
    by (simp only: sequentialWork_def)
  then have "?R (t', p', n', err)" using \<open>Q p\<close>
  proof (rule workLoop_rule [where Inv = "\<lambda>k b t (p :: 'p) n. Q p" and Q = ?R])
    fix k b t and p :: 'p and n out
    assume q: "Q p" and s: "workStep M lh (sel k) e sp persist b t p n = Inl out"
    obtain t2 p2 n2 err where out: "out = (t2, p2, n2, err)" by (rule prod_cases4)
    show "?R out" using workStep_state(2) [OF K q] s out by simp
  qed (rule workStep_state(1) [OF K])
  then show ?thesis by simp
qed

lemma generateProof_state:
  assumes "persist_inv Q persist" and "Q p" and "generateProof S M lh sel e sp persist t p n = Some (t', p', r)"
  shows "Q p'"
proof -
  obtain t1 n1 err where "sequentialWork M lh sel e sp persist t p n = Some (t1, p', n1, err)"
    using assms(3) by (auto simp: generateProof_def Let_def split: option.splits prod.splits sum.splits)
  then show ?thesis by (rule sequentialWork_state [OF assms(1,2)])
qed

lemma GenerateProof_state:
  assumes "persist_inv Q persist" and "Q p"
    and "GenerateProof S M treeCfg readDir lh mh sel e sp persist p = Some (p', r)"
  shows "Q p'"
  using assms by (auto simp: GenerateProof_def split: sum.splits dest: generateProof_state)

lemma GenerateProof_valid:
  assumes "merkle_contract M mh leaves rleaves park" and "persist_keeps leaves persist" and "0 < sp"
    and "GenerateProof S M treeCfg readDir lh mh sel e sp persist st = Some (st', Inr (numLeaves, pf))"
  shows "Validate S M pf lh mh numLeaves sp = Some (Ret None)"
proof -
  obtain tree where b: "makeProofTree M treeCfg mh readDir = Inr tree"
    using assms(4) by (auto simp: GenerateProof_def split: sum.splits)
  then obtain tree' where g: "generateProof S M lh sel e sp persist tree st 0 = Some (tree', st', Inr (numLeaves, pf))"
    using assms(4) by (auto simp: GenerateProof_def)
  from b assms(1) have "leaves tree = []"
    by (auto simp: makeProofTree_def merkle_contract_def build_ok_def split: sum.splits if_splits)
  then have "work_inv lh leaves park tree 0" by (simp add: work_inv_def)
  from generateProof_valid [OF assms(1,2) this assms(3) g] show ?thesis .
qed

text \<open>A library that never fails, and a Fiat-Shamir selection that always finds enough indices.\<close>

definition library_undisturbed :: "('t, 'rd) merkle_api \<Rightarrow> bool" where
  "library_undisturbed M \<longleftrightarrow>
     (\<forall>mh pol fac. \<exists>t. mk_Build M mh pol fac = Inr t) \<and> (\<forall>t l. snd (mk_AddLeaf M t l) = None) \<and>
     (\<forall>t. \<exists>t' rd. mk_GetReader M t = (t', Inr rd)) \<and> (\<forall>I rd. \<exists>x. mk_GenerateProof M I rd = Inr x)"

definition selection_returns :: "sha256_api \<Rightarrow> u8 \<Rightarrow> bool" where
  "selection_returns S sp \<longleftrightarrow> (\<forall>root n. ucast sp \<le> n \<longrightarrow> FiatShamir S root n sp \<noteq> None)"

lemma GenerateProof_returns:
  assumes M: "library_undisturbed M" and P: "\<forall>t p n. snd (snd (persist t p n)) = None"
    and sel: "\<forall>k. sel k \<noteq> Cancelled" "\<forall>k \<ge> K. sel k = Stopped"
    and F: "selection_returns S sp" and D: "getLayersFiles readDir = Inr Map.empty"
  shows "\<exists>st' n pf. GenerateProof S M treeCfg readDir lh mh sel e sp persist st = Some (st', Inr (n, pf))"
proof -
  obtain t where t: "makeProofTree M treeCfg mh readDir = Inr t"
    using M D by (fastforce simp: makeProofTree_def library_undisturbed_def)
  have U: "work_undisturbed M sel persist" using M P sel(1) by (simp add: work_undisturbed_def library_undisturbed_def)
  obtain t1 p1 n1 where w: "sequentialWork M lh sel e sp persist t st 0 = Some (t1, p1, n1, None)" and le: "ucast sp \<le> n1"
    using workLoop_returns [OF U sel(2)] unfolding sequentialWork_def by blast
  obtain t2 rd where g: "mk_GetReader M t1 = (t2, Inr rd)" using M unfolding library_undisturbed_def by blast
  obtain R where R: "FiatShamir S (mk_Root M t1) n1 sp = Some R" using F le unfolding selection_returns_def by blast
  obtain pl pn where "mk_GenerateProof M R rd = Inr (pl, pn)" using M unfolding library_undisturbed_def by fastforce
  with t w g R show ?thesis by (simp add: GenerateProof_def generateProof_def Let_def)
qed

text \<open>A cancelled context ends the work after one more leaf, with an error.\<close>

lemma cancelled_generateProof:
  assumes "sel 0 = Cancelled"
  shows "\<exists>t' p' err n'. generateProof S M lh sel e sp persist t p n = Some (t', p', Inl (err, n'))"
proof -
  have "\<exists>t' p' n' err. workStep M lh Cancelled e sp persist [] t p n = Inl (t', p', n', Some err)"
    by (auto simp: workStep_def Let_def split: prod.split option.split)
  then obtain t' p' n' err where "workStep M lh Cancelled e sp persist [] t p n = Inl (t', p', n', Some err)" by blast
  then have "sequentialWork M lh sel e sp persist t p n = Some (t', p', n', Some err)"
    unfolding sequentialWork_def by (subst workLoop.simps) (simp add: assms)
  then show ?thesis by (simp add: generateProof_def)
qed

section \<open>A concrete run\<close>

definition demo_cfg :: TreeConfig where
  "demo_cfg = \<lparr>MinMemoryLayer = 0, Datadir = ''d'', FileWriterBufSize = 0\<rparr>"

definition demo_persist :: "(bytes list, u64) persist_fun" where
  "demo_persist t p n = (t, n, None)"

lemma demo_sequentialWork:
  "sequentialWork (ref_merkle (\<lambda>l r. l)) (\<lambda>d. [5]) (\<lambda>_. Stopped) ErrCanceled 1 demo_persist [] 0 0
     = Some ([[5]], 1, 1, None)"
  by (simp add: sequentialWork_def workLoop.simps [of _ _ _ _ _ _ 0] workStep_def ref_merkle_def ref_park_def
      MakeLabelFunc_def go_copy_def demo_persist_def Let_def)

lemma demo_GenerateProof:
  "GenerateProof (demo_sha True) (ref_merkle (\<lambda>l r. l)) demo_cfg (Inr []) (\<lambda>d. [5]) (\<lambda>l r. l) (\<lambda>_. Stopped)
     ErrCanceled 1 demo_persist 0 = Some (1, Inr (1, single_proof))"
  using demo_sequentialWork
  by (simp add: GenerateProof_def makeProofTree_def getLayersFiles_def generateProof_def demo_FiatShamir_single
      ref_merkle_def ref_root_def ref_park_def single_proof_def Let_def)

section \<open>Properties\<close>

text \<open>
  C2: Completeness of the protocol. Every proof that \<open>GenerateProof\<close> returns, for whatever
  schedule of deadline and cancellation and however often the state was persisted on the way, is
  accepted by \<open>Validate\<close> with the same hash functions, the reported number of leaves and the same
  security parameter.
\<close>

theorem generated_proof_is_valid:
  assumes "merkle_contract M merkleHashFunc leaves rleaves park" and "persist_keeps leaves persist"
    and "0 < securityParam"
    and "GenerateProof S M treeCfg readDir labelHashFunc merkleHashFunc sel ctxErr securityParam persist st
      = Some (st', Inr (numLeaves, prf))"
  shows "Validate S M prf labelHashFunc merkleHashFunc numLeaves securityParam = Some (Ret None)"
  by (rule GenerateProof_valid [OF assms])

theorem generated_proof_is_valid_witness:
  "Validate (demo_sha True) (ref_merkle (\<lambda>l r. l)) single_proof (\<lambda>d. [5]) (\<lambda>l r. l) 1 1 = Some (Ret None)"
  by (rule generated_proof_is_valid [OF ref_merkle_contract _ _ demo_GenerateProof])
    (simp_all add: persist_keeps_def demo_persist_def)

text \<open>
  C5: Liveness of sequential work. If the Merkle library and persisting do not fail and the
  context is not cancelled, the work loop returns once the deadline has passed, without an error
  and with at least \<open>securityParam\<close> leaves, also when the deadline passes before that many leaves
  exist.
\<close>

theorem sequential_work_returns:
  assumes "work_undisturbed M sel persist" and "\<forall>k \<ge> deadline. sel k = Stopped"
  shows "\<exists>tree' st' leaves. sequentialWork M labelHashFunc sel ctxErr securityParam persist tree st nextLeafID
      = Some (tree', st', leaves, None) \<and> ucast securityParam \<le> leaves"
  unfolding sequentialWork_def by (rule workLoop_returns [OF assms])

theorem sequential_work_returns_witness:
  "\<exists>tree' st' leaves. sequentialWork (ref_merkle (\<lambda>l r. l)) (\<lambda>d. d) (\<lambda>k. if k < 3 then Running else Stopped)
      ErrCanceled 150 (\<lambda>t p n. (t, n, None)) [] 0 0 = Some (tree', st', leaves, None) \<and> ucast (150 :: u8) \<le> leaves"
  by (rule sequential_work_returns [of _ _ _ 3]) (simp_all add: work_undisturbed_def ref_merkle_def)

text \<open>
  C7: Crash safety of the work loop. Whenever it returns a leaf count, be it a finished proof or a
  cancelled execution to be resumed later, the last thing it did was to persist exactly that count
  successfully; an execution whose state could not be persisted reports zero leaves and an error.
\<close>

theorem sequential_work_persists_returned_count:
  assumes "sequentialWork M labelHashFunc sel ctxErr securityParam persist tree st nextLeafID
      = Some (tree', st', leaves, err)"
    and "err = None \<or> leaves \<noteq> 0"
  shows "\<exists>tree0 st0. persist tree0 st0 leaves = (tree', st', None)"
  by (rule sequentialWork_persisted [OF assms])

theorem sequential_work_persists_returned_count_witness:
  "\<exists>tree0 st0. demo_persist tree0 st0 1 = ([[5]], 1, None)"
  by (rule sequential_work_persists_returned_count [OF demo_sequentialWork]) simp

text \<open>
  Starting a new proof never overwrites the layer files of an earlier one: if the directory
  holds a file with the layer prefix, \<open>GenerateProof\<close> fails with an error and leaves the caller's
  state as it was.
\<close>

lemma generate_proof_refuses_used_datadir:
  assumes "(name, False) \<in> set entries" and "take 11 name = ''layercache_''"
  shows "\<exists>err. GenerateProof S M treeCfg (Inr entries) labelHashFunc merkleHashFunc sel ctxErr securityParam persist st
    = Some (st, Inl (err, 0))"
proof (cases "collectLayers entries Map.empty")
  case (Inr files)
  have "length layerPrefix = 11" by (simp add: layerPrefix_def)
  with assms(2) have "take (length layerPrefix) name = layerPrefix" by (simp only: layerPrefix_def)
  with collectLayers_entry [OF Inr] assms(1) have "files \<noteq> Map.empty" by (metis dom_empty)
  with Inr show ?thesis by (simp add: GenerateProof_def makeProofTree_def getLayersFiles_def)
qed (simp add: GenerateProof_def makeProofTree_def getLayersFiles_def)

text \<open>
  Layer files are found again: reading a directory that holds the files the layer factory
  creates for some layers gives exactly those layers, each under its own file name.
\<close>

lemma layer_files_roundtrip:
  assumes "\<forall>h \<in> set layers. unat h < 2 ^ 63"
  shows "\<exists>files. getLayersFiles (Inr (map (\<lambda>h. (layerFileName h, False)) layers)) = Inr files \<and>
    dom files = set layers \<and> (\<forall>h \<in> set layers. files h = Some (layerFileName h))"
proof -
  let ?m = "map_of (rev (map (\<lambda>h. (h, layerFileName h)) layers))"
  have m: "?m h = (if h \<in> set layers then Some (layerFileName h) else None)" for h
    by (induction layers) (auto simp: map_add_def split: option.splits)
  then have "dom ?m = set layers" by (auto simp: dom_def)
  with m collectLayers_layers [OF assms, of Map.empty] show ?thesis
    by (auto simp: getLayersFiles_def)
qed

end
