(* ===== verification/Prover_Recovery.thy ===== *)
theory Prover_Recovery
  imports Prover
begin

text \<open>
  Recovery of an interrupted proof (\<open>prover/prover.go\<close>: \<open>GenerateProofRecovery\<close>,
  \<open>makeRecoveryProofTree\<close>, \<open>recoverMemCachedParkedNodes\<close>): the tree is rebuilt from the layer files
  that the interrupted run left behind, cut back to the last leaf count that was saved, and the work
  goes on from there.
\<close>

section \<open>Layer files and cache writers\<close>

text \<open>
  The operations of the \<open>merkle-tree\<close> package on existing layers: opening what the layer factory asks
  for (\<open>'l\<close> is an open layer), reading nodes, a cache writer \<open>'cw\<close> to which single layers \<open>'ly\<close> can be
  handed, and setting the parked nodes of a tree. \<open>os.Truncate\<close> acts on the same files \<open>'w\<close>.
\<close>

record ('w, 'l, 't, 'rd, 'cw, 'ly) recovery_api =
  rc_OpenLayer :: "'w \<Rightarrow> layer_store \<Rightarrow> 'w \<times> (goerr + 'l)"
  rc_Width :: "'w \<Rightarrow> 'l \<Rightarrow> goerr + u64"
  rc_Seek :: "'w \<Rightarrow> 'l \<Rightarrow> u64 \<Rightarrow> 'w \<times> goerr option"
  rc_ReadNext :: "'w \<Rightarrow> 'l \<Rightarrow> 'w \<times> (goerr + bytes)"
  rc_Truncate :: "'w \<Rightarrow> string \<Rightarrow> u64 \<Rightarrow> 'w \<times> goerr option"
  rc_NewWriter :: "cache_policy \<Rightarrow> layer_factory \<Rightarrow> 'cw"
  rc_SetLayer :: "'cw \<Rightarrow> uint \<Rightarrow> 'ly \<Rightarrow> 'cw"
  rc_Layers :: "'rd \<Rightarrow> (uint \<times> 'ly) list"
  rc_Build :: "'w \<Rightarrow> merkle_hash \<Rightarrow> 'cw \<Rightarrow> goerr + 't"
  rc_SetParkedNodes :: "'t \<Rightarrow> bytes list \<Rightarrow> 't \<times> goerr option"

section \<open>Recovery\<close>

text \<open>All layers come from files: \<open>math.MaxUint\<close> as the first in-memory layer.\<close>

definition recoveryFactory :: "TreeConfig \<Rightarrow> layer_factory" where
  "recoveryFactory treeCfg = GetLayerFactory (- 1) (Datadir treeCfg) (FileWriterBufSize treeCfg)"

definition truncateAhead ::
  "('w, 'l, 't, 'rd, 'cw, 'ly) recovery_api \<Rightarrow> TreeConfig \<Rightarrow> 'w \<Rightarrow> string \<Rightarrow> u64 \<Rightarrow> u64 \<Rightarrow> 'w \<times> goerr option" where
  "truncateAhead R treeCfg w file expectedWidth width =
     (if expectedWidth < width
      then (case rc_Truncate R w (filepath_Join [Datadir treeCfg, file]) (expectedWidth * of_nat NodeSize) of
          (w, Some err) \<Rightarrow> (w, Some (Opaque ''failed to truncate file''))
        | (w, None) \<Rightarrow> (w, None))
      else (w, None))"

definition readParked ::
  "('w, 'l, 't, 'rd, 'cw, 'ly) recovery_api \<Rightarrow> 'w \<Rightarrow> 'l \<Rightarrow> u64 \<Rightarrow> 'w \<times> (goerr + bytes)" where
  "readParked R w readWriter expectedWidth =
     (case rc_Seek R w readWriter (expectedWidth - 1) of
        (w, Some err) \<Rightarrow> (w, Inl (Wrap ''seeking to parked node in layer'' err))
      | (w, None) \<Rightarrow>
          (case rc_ReadNext R w readWriter of
             (w, Inl err) \<Rightarrow> (w, Inl (Wrap ''reading parked node in layer'' err))
           | (w, Inr parkedNode) \<Rightarrow> (w, Inr parkedNode)))"

text \<open>The body of the loop over the layer files.\<close>

definition recoverLayer ::
  "('w, 'l, 't, 'rd, 'cw, 'ly) recovery_api \<Rightarrow> TreeConfig \<Rightarrow> u64 \<Rightarrow> 'w \<Rightarrow> (uint \<rightharpoonup> bytes) \<Rightarrow> uint \<times> string \<Rightarrow>
   'w \<times> (goerr + (uint \<rightharpoonup> bytes))" where
  "recoverLayer R treeCfg nextLeafID w parkedNodesMap lf =
     (case lf of (layer, file) \<Rightarrow>
      (case rc_OpenLayer R w (recoveryFactory treeCfg layer) of
         (w, Inl err) \<Rightarrow> (w, Inl err)
       | (w, Inr readWriter) \<Rightarrow>
           (case rc_Width R w readWriter of
              Inl err \<Rightarrow> (w, Inl err)
            | Inr width \<Rightarrow>
                let expectedWidth = drop_bit (unat layer) nextLeafID in
                (case truncateAhead R treeCfg w file expectedWidth width of
                   (w, Some err) \<Rightarrow> (w, Inl err)
                 | (w, None) \<Rightarrow>
                     if width < expectedWidth then (w, Inl (Opaque ''layer cache file invalid width''))
                     else if expectedWidth mod 2 \<noteq> 0
                     then (case readParked R w readWriter expectedWidth of
                         (w, Inl err) \<Rightarrow> (w, Inl err)
                       | (w, Inr parkedNode) \<Rightarrow> (w, Inr (parkedNodesMap(layer \<mapsto> parkedNode))))
                     else (w, Inr parkedNodesMap)))))"

fun recoverLayers ::
  "('w, 'l, 't, 'rd, 'cw, 'ly) recovery_api \<Rightarrow> TreeConfig \<Rightarrow> u64 \<Rightarrow> 'w \<Rightarrow> (uint \<rightharpoonup> bytes) \<Rightarrow> (uint \<times> string) list \<Rightarrow>
   'w \<times> (goerr + (uint \<rightharpoonup> bytes))" where
  "recoverLayers R treeCfg nextLeafID w parkedNodesMap [] = (w, Inr parkedNodesMap)"
| "recoverLayers R treeCfg nextLeafID w parkedNodesMap (lf # lfs) =
     (case recoverLayer R treeCfg nextLeafID w parkedNodesMap lf of
        (w, Inl err) \<Rightarrow> (w, Inl err)
      | (w, Inr parked) \<Rightarrow> recoverLayers R treeCfg nextLeafID w parked lfs)"

text \<open>Adding the nodes of a layer to the small tree, until the end of the file.\<close>

partial_function (option) appendNodes ::
  "('w, 'l, 't, 'rd, 'cw, 'ly) recovery_api \<Rightarrow> ('t, 'rd) merkle_api \<Rightarrow> 'l \<Rightarrow> 'w \<Rightarrow> 't \<Rightarrow> ('w \<times> (goerr + 't)) option" where
  "appendNodes R M layerReader w tree =
     (case rc_ReadNext R w layerReader of
        (w, Inl err) \<Rightarrow>
          if errors_Is err ErrEOF then Some (w, Inr tree)
          else Some (w, Inl (Wrap ''reading node from top layer of disk-cache'' err))
      | (w, Inr node) \<Rightarrow>
          (case mk_AddLeaf M tree node of
             (tree, Some err) \<Rightarrow> Some (w, Inl (Wrap ''adding node to small tree'' err))
           | (tree, None) \<Rightarrow> appendNodes R M layerReader w tree))"

text \<open>\<open>GetParkedNodes(nil)[1:]\<close> panics when there are no parked nodes at all.\<close>

definition recoverMemCachedParkedNodes ::
  "('w, 'l, 't, 'rd, 'cw, 'ly) recovery_api \<Rightarrow> ('t, 'rd) merkle_api \<Rightarrow> merkle_hash \<Rightarrow> 'w \<Rightarrow> 'l \<Rightarrow>
   ('w \<times> (goerr + bytes list \<times> 'rd) outcome) option" where
  "recoverMemCachedParkedNodes R M merkleHashFunc w layerReader =
     (case mk_Build M merkleHashFunc (CustomPolicy (\<lambda>_. True)) (GetLayerFactory 0 [] 0) of
        Inl err \<Rightarrow> Some (w, Ret (Inl err))
      | Inr tree \<Rightarrow>
          (case appendNodes R M layerReader w tree of
             None \<Rightarrow> None
           | Some (w, Inl err) \<Rightarrow> Some (w, Ret (Inl err))
           | Some (w, Inr tree) \<Rightarrow>
               (case mk_GetReader M tree of
                  (tree, Inl err) \<Rightarrow> Some (w, Ret (Inl (Wrap ''getting reader for small tree'' err)))
                | (tree, Inr rdr) \<Rightarrow>
                    (case mk_GetParkedNodes M tree of
                       [] \<Rightarrow> Some (w, Panic)
                     | _ # nodes \<Rightarrow> Some (w, Ret (Inr (nodes, rdr)))))))"

definition recoveryWriter ::
  "('w, 'l, 't, 'rd, 'cw, 'ly) recovery_api \<Rightarrow> TreeConfig \<Rightarrow> uint set \<Rightarrow> uint \<Rightarrow> 'rd \<Rightarrow> 'cw" where
  "recoveryWriter R treeCfg layers topLayer readCache =
     foldl (\<lambda>cw (layer, reader). if layer = 0 then cw else rc_SetLayer R cw (topLayer + layer) reader)
       (rc_NewWriter R (SpecificLayersPolicy layers) (recoveryFactory treeCfg)) (rc_Layers R readCache)"

definition parkedList :: "(uint \<rightharpoonup> bytes) \<Rightarrow> nat \<Rightarrow> bytes list" where
  "parkedList parkedNodesMap n =
     map (\<lambda>layer. case parkedNodesMap (of_nat layer) of Some node \<Rightarrow> node | None \<Rightarrow> []) [0..<n]"

text \<open>
  \<open>order\<close> lists the map of layer files in the order in which the loop visits it, which Go leaves
  open. \<open>None\<close> is a reader that never ends.
\<close>

definition makeRecoveryProofTree ::
  "('w, 'l, 't, 'rd, 'cw, 'ly) recovery_api \<Rightarrow> ('t, 'rd) merkle_api \<Rightarrow> TreeConfig \<Rightarrow> merkle_hash \<Rightarrow> u64 \<Rightarrow>
   goerr + dir_entry list \<Rightarrow> ((uint \<rightharpoonup> string) \<Rightarrow> (uint \<times> string) list) \<Rightarrow> 'w \<Rightarrow> ('w \<times> (goerr + 't) outcome) option" where
  "makeRecoveryProofTree R M treeCfg merkleHashFunc nextLeafID readDir order w =
     (case getLayersFiles readDir of
        Inl err \<Rightarrow> Some (w, Ret (Inl err))
      | Inr layersFiles \<Rightarrow>
          if layersFiles 0 = None then Some (w, Ret (Inl (Opaque ''layer 0 cache file is missing'')))
          else
            let lfs = order layersFiles; topLayer = foldl (\<lambda>m (layer, _). max m layer) 0 lfs in
            (case recoverLayers R treeCfg nextLeafID w Map.empty lfs of
               (w, Inl err) \<Rightarrow> Some (w, Ret (Inl err))
             | (w, Inr parkedNodesMap) \<Rightarrow>
                 let parkedNodes = parkedList parkedNodesMap (length lfs) in
                 (case rc_OpenLayer R w (recoveryFactory treeCfg topLayer) of
                    (w, Inl err) \<Rightarrow> Some (w, Ret (Inl err))
                  | (w, Inr layerReader) \<Rightarrow>
                      (case recoverMemCachedParkedNodes R M merkleHashFunc w layerReader of
                         None \<Rightarrow> None
                       | Some (w, Panic) \<Rightarrow> Some (w, Panic)
                       | Some (w, Ret (Inl err)) \<Rightarrow>
                           Some (w, Ret (Inl (Wrap ''recovering parked nodes from top layer of disk-cache'' err)))
                       | Some (w, Ret (Inr (memCachedParkedNodes, readCache))) \<Rightarrow>
                           (case rc_Build R w merkleHashFunc
                                   (recoveryWriter R treeCfg (set (map fst lfs)) topLayer readCache) of
                              Inl err \<Rightarrow> Some (w, Ret (Inl err))
                            | Inr tree \<Rightarrow>
                                (case rc_SetParkedNodes R tree (parkedNodes @ memCachedParkedNodes) of
                                   (tree, Some err) \<Rightarrow> Some (w, Ret (Inl err))
                                 | (tree, None) \<Rightarrow> Some (w, Ret (Inr tree)))))))) "

text \<open>The state of the caller is the file system and the rest \<open>'q\<close>.\<close>

definition GenerateProofRecovery ::
  "('w, 'l, 't, 'rd, 'cw, 'ly) recovery_api \<Rightarrow> sha256_api \<Rightarrow> ('t, 'rd) merkle_api \<Rightarrow> TreeConfig \<Rightarrow>
   goerr + dir_entry list \<Rightarrow> ((uint \<rightharpoonup> string) \<Rightarrow> (uint \<times> string) list) \<Rightarrow> (bytes \<Rightarrow> bytes) \<Rightarrow> merkle_hash \<Rightarrow>
   (nat \<Rightarrow> tick) \<Rightarrow> goerr \<Rightarrow> u8 \<Rightarrow> u64 \<Rightarrow> ('t, 'w \<times> 'q) persist_fun \<Rightarrow> 'w \<Rightarrow> 'q \<Rightarrow>
   (('w \<times> 'q) \<times> (goerr \<times> u64 + u64 \<times> MerkleProof)) outcome option" where
  "GenerateProofRecovery R S M treeCfg readDir order labelHashFunc merkleHashFunc sel ctxErr securityParam
       nextLeafID persist w st =
     (case makeRecoveryProofTree R M treeCfg merkleHashFunc nextLeafID readDir order w of
        None \<Rightarrow> None
      | Some (w, Panic) \<Rightarrow> Some Panic
      | Some (w, Ret (Inl err)) \<Rightarrow> Some (Ret ((w, st), Inl (err, 0)))
      | Some (w, Ret (Inr tree)) \<Rightarrow>
          map_option (\<lambda>r. Ret (snd r))
            (generateProof S M labelHashFunc sel ctxErr securityParam persist tree (w, st) nextLeafID))"

section \<open>The layers of a tree\<close>

text \<open>Layer \<open>0\<close> holds the leaves, every further layer the hashes of the complete pairs of the layer below.\<close>

fun pairUp :: "merkle_hash \<Rightarrow> bytes list \<Rightarrow> bytes list" where
  "pairUp mh (a # b # ns) = mh a b # pairUp mh ns"
| "pairUp mh ns = []"

primrec treeLayer :: "merkle_hash \<Rightarrow> nat \<Rightarrow> bytes list \<Rightarrow> bytes list" where
  "treeLayer mh 0 ls = ls"
| "treeLayer mh (Suc h) ls = pairUp mh (treeLayer mh h ls)"

text \<open>The node parked in layer \<open>h\<close>: a last node that still waits for its sibling.\<close>

definition waiting :: "merkle_hash \<Rightarrow> nat \<Rightarrow> bytes list \<Rightarrow> bytes" where
  "waiting mh h ls = (if odd (length (treeLayer mh h ls)) then last (treeLayer mh h ls) else [])"

text \<open>A list of parked nodes may end with empty ones.\<close>

definition parked_at :: "bytes list \<Rightarrow> nat \<Rightarrow> bytes" where
  "parked_at ps h = (if h < length ps then ps ! h else [])"

definition node_sized :: "bytes list \<Rightarrow> bool" where
  "node_sized ns \<longleftrightarrow> (\<forall>x \<in> set ns. length x = NodeSize)"

lemma length_pairUp [simp]: "length (pairUp mh ns) = length ns div 2"
  by (induction mh ns rule: pairUp.induct) simp_all

lemma pairUp_snoc:
  "pairUp mh (ns @ [x]) = pairUp mh ns @ (if odd (length ns) then [mh (last ns) x] else [])"
  by (induction mh ns rule: pairUp.induct) simp_all

lemma length_treeLayer [simp]: "length (treeLayer mh h ls) = length ls div 2 ^ h"
  by (induction h) (simp_all add: div_mult2_eq [symmetric] mult.commute)

lemma treeLayer_add: "treeLayer mh (h + k) ls = treeLayer mh k (treeLayer mh h ls)"
  by (induction k) simp_all

lemma treeLayer_Suc: "treeLayer mh (Suc h) ls = treeLayer mh h (pairUp mh ls)"
  using treeLayer_add [of mh 1 h ls] by simp

lemma waiting_0: "waiting mh 0 ls = (if odd (length ls) then last ls else [])"
  by (simp add: waiting_def)

lemma waiting_add: "waiting mh (h + k) ls = waiting mh k (treeLayer mh h ls)"
  by (simp only: waiting_def treeLayer_add)

lemma node_sized_pairUp:
  assumes "\<forall>a b. length (mh a b) = NodeSize"
  shows "node_sized (pairUp mh ns)"
  using assms by (induction mh ns rule: pairUp.induct) (auto simp: node_sized_def)

lemma node_sized_treeLayer:
  assumes "\<forall>a b. length (mh a b) = NodeSize" and "node_sized ls"
  shows "node_sized (treeLayer mh h ls)"
  by (cases h) (simp_all add: assms node_sized_pairUp)

lemma node_sized_waiting:
  assumes "\<forall>a b. length (mh a b) = NodeSize" and "node_sized ls"
  shows "length (waiting mh h ls) \<le> NodeSize"
proof (cases "odd (length (treeLayer mh h ls))")
  case True
  then have "treeLayer mh h ls \<noteq> []" by (metis even_zero list.size(3))
  then have "last (treeLayer mh h ls) \<in> set (treeLayer mh h ls)" by (rule last_in_set)
  with node_sized_treeLayer [OF assms, of h] True show ?thesis by (auto simp: waiting_def node_sized_def)
qed (simp add: waiting_def)

text \<open>
  The parked nodes that a tree accumulates leaf by leaf, like a binary counter, are the waiting nodes
  of its layers.
\<close>

lemma counter_step:
  assumes H: "\<forall>a b. length (mh a b) = NodeSize" and "node_sized ls" and "ls \<noteq> []"
  shows "foldl (ref_add mh) [] ls = waiting mh 0 ls # foldl (ref_add mh) [] (pairUp mh ls)"
  using assms(2,3)
proof (induction ls rule: rev_induct)
  case (snoc x ls)
  show ?case
  proof (cases "ls = []")
    case False
    with snoc.prems have "node_sized ls" by (simp add: node_sized_def)
    then have IH: "foldl (ref_add mh) [] ls = waiting mh 0 ls # foldl (ref_add mh) [] (pairUp mh ls)"
      using snoc.IH False by simp
    have "last ls \<noteq> []"
      using \<open>node_sized ls\<close> last_in_set [OF False] by (auto simp: node_sized_def)
    with False IH show ?thesis by (simp add: waiting_0 pairUp_snoc)
  qed (simp add: waiting_0)
qed simp

lemma counter_waiting:
  assumes H: "\<forall>a b. length (mh a b) = NodeSize" and "node_sized ls"
  shows "parked_at (foldl (ref_add mh) [] ls) h = waiting mh h ls"
  using assms(2)
proof (induction h arbitrary: ls)
  case 0
  then show ?case
    by (cases "ls = []") (simp_all add: counter_step [OF H 0] parked_at_def waiting_0)
next
  case (Suc h)
  have "treeLayer mh h [] = []" for h by (induction h) simp_all
  then have "waiting mh (Suc h) [] = []" by (simp add: waiting_def)
  moreover have "waiting mh (Suc h) ls = waiting mh h (pairUp mh ls)"
    using waiting_add [of mh 1 h ls] by simp
  ultimately show ?case
    using Suc.IH [OF node_sized_pairUp [OF H], of ls] counter_step [OF H Suc.prems]
    by (cases "ls = []") (simp_all add: parked_at_def split: if_splits)
qed

lemma ref_park_waiting:
  assumes "\<forall>a b. length (mh a b) = NodeSize" and "node_sized ls"
  shows "parked_at (ref_park mh ls) h = waiting mh h ls"
  using counter_waiting [OF assms, of h] node_sized_waiting [OF assms, of h]
  by (simp add: ref_park_def parked_at_def NodeSize_def split: if_splits)

lemma parked_at_append:
  "parked_at (xs @ ys) h = (if h < length xs then xs ! h else parked_at ys (h - length xs))"
  by (auto simp: parked_at_def nth_append)

lemma parked_at_Cons: "parked_at (x # xs) (Suc h) = parked_at xs h"
  by (simp add: parked_at_def)

section \<open>What the code relies on\<close>

text \<open>
  \<open>nodes w p\<close> are the nodes in the layer file at \<open>p\<close> and \<open>at w l\<close> the file and the position of an
  open layer. Nodes have 32 bytes and a file size fits in 63 bits.
\<close>

definition layer_read_ok ::
  "('w, 'l, 't, 'rd, 'cw, 'ly) recovery_api \<Rightarrow> ('w \<Rightarrow> string \<Rightarrow> bytes list) \<Rightarrow> ('w \<Rightarrow> 'l \<Rightarrow> string \<times> nat) \<Rightarrow> bool" where
  "layer_read_ok R nodes at \<longleftrightarrow>
     (\<forall>w l k w'. rc_Seek R w l k = (w', None) \<longrightarrow> nodes w' = nodes w \<and> at w' l = (fst (at w l), unat k)) \<and>
     (\<forall>w l x w' p i. rc_ReadNext R w l = (w', Inr x) \<longrightarrow> at w l = (p, i) \<longrightarrow>
        nodes w' = nodes w \<and> i < length (nodes w p) \<and> x = nodes w p ! i \<and> at w' l = (p, Suc i)) \<and>
     (\<forall>w l e w' p i. rc_ReadNext R w l = (w', Inl e) \<longrightarrow> at w l = (p, i) \<longrightarrow>
        nodes w' = nodes w \<and> (errors_Is e ErrEOF \<longrightarrow> length (nodes w p) \<le> i))"

definition layer_file_ok ::
  "('w, 'l, 't, 'rd, 'cw, 'ly) recovery_api \<Rightarrow> ('w \<Rightarrow> string \<Rightarrow> bytes list) \<Rightarrow> ('w \<Rightarrow> 'l \<Rightarrow> string \<times> nat) \<Rightarrow> bool" where
  "layer_file_ok R nodes at \<longleftrightarrow>
     (\<forall>w p. node_sized (nodes w p) \<and> length (nodes w p) * NodeSize < 2 ^ 63) \<and>
     (\<forall>w p buf l w'. rc_OpenLayer R w (FileLayer p buf) = (w', Inr l) \<longrightarrow> nodes w' = nodes w \<and> at w' l = (p, 0)) \<and>
     (\<forall>w l n. rc_Width R w l = Inr n \<longrightarrow> unat n = length (nodes w (fst (at w l)))) \<and>
     (\<forall>w p k w'. rc_Truncate R w p k = (w', None) \<longrightarrow>
        nodes w' = (nodes w)(p := take (unat k div NodeSize) (nodes w p)) \<and> at w' = at w)"

definition layerPath :: "TreeConfig \<Rightarrow> nat \<Rightarrow> string" where
  "layerPath treeCfg h = filepath_Join [Datadir treeCfg, layerFileName (of_nat h)]"

text \<open>The first \<open>k\<close> layer files hold the layers of a tree with leaves \<open>ls\<close>, or more.\<close>

definition layers_hold :: "(string \<Rightarrow> bytes list) \<Rightarrow> TreeConfig \<Rightarrow> merkle_hash \<Rightarrow> nat \<Rightarrow> bytes list \<Rightarrow> bool" where
  "layers_hold ns treeCfg mh k ls \<longleftrightarrow>
     (\<forall>h < k. take (length ls div 2 ^ h) (ns (layerPath treeCfg h)) = treeLayer mh h ls)"

text \<open>
  Restoring a tree: when the layer files hold exactly the layers of a tree with leaves \<open>ls\<close>, the
  layers above them come from a tree over the topmost file, and the parked nodes are those of \<open>ls\<close>,
  the tree built on them is the tree with leaves \<open>ls\<close>.
\<close>

definition restore_ok ::
  "('w, 'l, 't, 'rd, 'cw, 'ly) recovery_api \<Rightarrow> merkle_hash \<Rightarrow> ('t \<Rightarrow> bytes list) \<Rightarrow> ('rd \<Rightarrow> bytes list) \<Rightarrow>
   ('w \<Rightarrow> string \<Rightarrow> bytes list) \<Rightarrow> bool" where
  "restore_ok R mh leaves rleaves nodes \<longleftrightarrow>
     (\<forall>w treeCfg k ls rd ps t t'.
        0 < k \<longrightarrow> (\<forall>h < k. nodes w (layerPath treeCfg h) = treeLayer mh h ls) \<longrightarrow>
        rleaves rd = treeLayer mh (k - 1) ls \<longrightarrow> (\<forall>h. parked_at ps h = parked_at (ref_park mh ls) h) \<longrightarrow>
        rc_Build R w mh (recoveryWriter R treeCfg (of_nat ` {..<k}) (of_nat (k - 1)) rd) = Inr t \<longrightarrow>
        rc_SetParkedNodes R t ps = (t', None) \<longrightarrow> leaves t' = ls)"

text \<open>A tree without leaves has one empty parked node.\<close>

definition park_ok :: "('t, 'rd) merkle_api \<Rightarrow> merkle_hash \<Rightarrow> ('t \<Rightarrow> bytes list) \<Rightarrow> bool" where
  "park_ok M mh leaves \<longleftrightarrow>
     (\<forall>t. mk_GetParkedNodes M t = (if leaves t = [] then [[]] else ref_park mh (leaves t)))"

section \<open>Lemmas on the loop over the layer files\<close>

lemma plain_layerFileName: "plain_name (layerFileName h)"
  using plain_name_FormatUint [of h] by (auto simp: plain_name_def layerFileName_def layerPrefix_def)

lemma layerFileName_inject: "layerFileName h = layerFileName h' \<longleftrightarrow> h = h'"
  by (simp add: layerFileName_def)

lemma layerPath_inject:
  assumes "h < 2 ^ 64" "h' < 2 ^ 64"
  shows "layerPath treeCfg h = layerPath treeCfg h' \<longleftrightarrow> h = h'"
proof
  assume "layerPath treeCfg h = layerPath treeCfg h'"
  then have "(of_nat h :: uint) = of_nat h'"
    using filepath_Join_name_inject plain_layerFileName by (simp add: layerPath_def) (metis layerFileName_inject)
  then have "unat (of_nat h :: uint) = unat (of_nat h' :: uint)" by simp
  with assms show "h = h'" by (simp add: unat_of_nat)
qed simp

lemma layer_word_inject: "h < 64 \<Longrightarrow> h' < 64 \<Longrightarrow> (of_nat h :: uint) = of_nat h' \<longleftrightarrow> h = h'"
  by (auto simp: word_unat_eq_iff unat_of_nat)

lemma truncate_amount:
  fixes a :: u64
  assumes "unat a * NodeSize < 2 ^ 63"
  shows "unat (a * of_nat NodeSize) div NodeSize = unat a"
proof -
  have "unat (a * of_nat NodeSize) = unat a * NodeSize"
    using assms by (simp add: unat_word_ariths)
  then show ?thesis by simp
qed

lemma recoveryFactory_file:
  "h < 64 \<Longrightarrow> recoveryFactory treeCfg (of_nat h) = FileLayer (layerPath treeCfg h) (FileWriterBufSize treeCfg)"
  by (simp add: recoveryFactory_def GetLayerFactory_def layerPath_def word_less_nat_alt unat_of_nat
      unsigned_minus_1_eq_mask mask_eq_exp_minus_1)

lemma unat_expectedWidth: "h < 64 \<Longrightarrow> unat (drop_bit (unat (of_nat h :: uint)) n) = unat n div 2 ^ h" for n :: u64
proof -
  assume "h < 64"
  then have "unat (of_nat h :: uint) = h" by (simp add: unat_of_nat)
  then show ?thesis using unat_drop_bit_eq [of h n] drop_bit_eq_div [of h "unat n"] by simp
qed

lemma odd_word: "w mod 2 \<noteq> 0 \<longleftrightarrow> odd (unat w)" for w :: u64
proof -
  have "unat (w mod 2) = unat w mod 2" by (simp add: unat_mod)
  then show ?thesis by (metis odd_iff_mod_2_eq_one even_iff_mod_2_eq_zero unat_eq_zero unsigned_0)
qed

lemma truncateAhead_ok:
  assumes F: "layer_file_ok R nodes at" and h: "h < 64" and wd: "unat wd = length (nodes w (layerPath treeCfg h))"
    and t: "truncateAhead R treeCfg w (layerFileName (of_nat h)) e wd = (w', None)" and le: "e \<le> wd"
  shows "nodes w' = (nodes w)(layerPath treeCfg h := take (unat e) (nodes w (layerPath treeCfg h)))"
    and "at w' = at w"
proof -
  let ?p = "layerPath treeCfg h"
  have "nodes w' = (nodes w)(?p := take (unat e) (nodes w ?p)) \<and> at w' = at w"
  proof (cases "e < wd")
    case True
    then have tr: "rc_Truncate R w ?p (e * of_nat NodeSize) = (w', None)"
      using t by (auto simp: truncateAhead_def layerPath_def split: prod.splits option.splits)
    have "length (nodes w ?p) * NodeSize < 2 ^ 63" using F by (simp add: layer_file_ok_def)
    moreover have "unat e < length (nodes w ?p)" using True wd by (simp add: word_less_nat_alt)
    ultimately have "unat e * NodeSize < 2 ^ 63" by simp
    with F tr show ?thesis
      unfolding layer_file_ok_def using truncate_amount [of e] by (metis (no_types, lifting))
  next
    case False
    with le wd have "unat e = length (nodes w ?p)" by (simp add: order.antisym word_le_nat_alt not_less)
    moreover have "w' = w" using t False by (simp add: truncateAhead_def)
    ultimately show ?thesis by simp
  qed
  then show "nodes w' = (nodes w)(?p := take (unat e) (nodes w ?p))" "at w' = at w" by simp_all
qed

lemma readParked_ok:
  assumes "layer_read_ok R nodes at" and "readParked R w l e = (w', Inr x)" and "fst (at w l) = p"
  shows "nodes w' = nodes w" and "unat (e - 1) < length (nodes w p)" and "x = nodes w p ! unat (e - 1)"
proof -
  obtain w1 where s: "rc_Seek R w l (e - 1) = (w1, None)" and r: "rc_ReadNext R w1 l = (w', Inr x)"
    using assms(2) by (auto simp: readParked_def split: prod.splits option.splits sum.splits)
  from assms(1) s have 1: "nodes w1 = nodes w" "at w1 l = (p, unat (e - 1))"
    unfolding layer_read_ok_def using assms(3) by metis+
  with assms(1) r show "nodes w' = nodes w" and "unat (e - 1) < length (nodes w p)" and "x = nodes w p ! unat (e - 1)"
    unfolding layer_read_ok_def by metis+
qed

lemma recoverLayer_ok:
  assumes F: "layer_file_ok R nodes at" and RD: "layer_read_ok R nodes at" and h: "h < 64"
    and r: "recoverLayer R treeCfg n w m (of_nat h, layerFileName (of_nat h)) = (w', Inr m')"
    and p: "p = layerPath treeCfg h" and e: "e = unat n div 2 ^ h"
  shows "e \<le> length (nodes w p)" and "nodes w' = (nodes w)(p := take e (nodes w p))"
    and "m' = (if odd e then m(of_nat h \<mapsto> nodes w p ! (e - 1)) else m)"
proof -
  let ?e = "drop_bit (unat (of_nat h :: uint)) n"
  have ue: "unat ?e = e" by (simp only: unat_expectedWidth [OF h] e)
  have oe: "?e mod 2 \<noteq> 0 \<longleftrightarrow> odd e" by (simp only: odd_word ue)
  obtain w1 l wd w2 where o: "rc_OpenLayer R w (FileLayer p (FileWriterBufSize treeCfg)) = (w1, Inr l)"
    and wd: "rc_Width R w1 l = Inr wd" and t: "truncateAhead R treeCfg w1 (layerFileName (of_nat h)) ?e wd = (w2, None)"
    and le: "?e \<le> wd"
    and k: "(if ?e mod 2 \<noteq> 0 then (case readParked R w2 l ?e of (w, Inl err) \<Rightarrow> (w, Inl err)
        | (w, Inr x) \<Rightarrow> (w, Inr (m(of_nat h \<mapsto> x)))) else (w2, Inr m)) = (w', Inr m')"
    using r unfolding recoverLayer_def recoveryFactory_file [OF h] prod.case p [symmetric]
    by (auto simp: Let_def not_less split: prod.splits sum.splits option.splits if_splits)
  from F o have 1: "nodes w1 = nodes w" "at w1 l = (p, 0)" unfolding layer_file_ok_def by metis+
  with F wd have 2: "unat wd = length (nodes w p)" unfolding layer_file_ok_def by (metis fst_conv)
  from le show le': "e \<le> length (nodes w p)" by (simp add: 2 [symmetric] ue [symmetric] word_le_nat_alt)
  have 3: "nodes w2 = (nodes w)(p := take e (nodes w p))" "at w2 = at w1"
    using truncateAhead_ok [OF F h _ t le] 1 2 p ue by simp_all
  show "nodes w' = (nodes w)(p := take e (nodes w p))"
    and "m' = (if odd e then m(of_nat h \<mapsto> nodes w p ! (e - 1)) else m)"
  proof -
    have "nodes w' = nodes w2 \<and> m' = (if odd e then m(of_nat h \<mapsto> nodes w p ! (e - 1)) else m)"
    proof (cases "odd e")
      case True
      then obtain x where rp: "readParked R w2 l ?e = (w', Inr x)" and m': "m' = m(of_nat h \<mapsto> x)"
        using k oe by (auto split: prod.splits sum.splits)
      have at2: "fst (at w2 l) = p" using 1 3 by simp
      have "unat (?e - 1) = e - 1" using True ue by (metis odd_pos unat_minus_one unat_gt_0 word_gt_0 neq0_conv)
      with readParked_ok [OF RD rp at2] True le' m' 3 show ?thesis by (simp add: nth_take)
    next
      case False
      with k oe show ?thesis by simp
    qed
    then show "nodes w' = (nodes w)(p := take e (nodes w p))"
      and "m' = (if odd e then m(of_nat h \<mapsto> nodes w p ! (e - 1)) else m)" using 3 by simp_all
  qed
qed

text \<open>
  The whole loop, for the layers \<open>hs\<close> in any order: every file is cut back to its expected width, and
  the last node of every layer of odd width is remembered.
\<close>

lemma recoverLayers_ok:
  assumes F: "layer_file_ok R nodes at" and RD: "layer_read_ok R nodes at"
  shows "\<lbrakk>distinct hs; \<forall>h \<in> set hs. h < 64;
     recoverLayers R treeCfg n w m (map (\<lambda>h. (of_nat h, layerFileName (of_nat h))) hs) = (w', Inr m')\<rbrakk> \<Longrightarrow>
     (\<forall>h \<in> set hs. unat n div 2 ^ h \<le> length (nodes w (layerPath treeCfg h)) \<and>
        nodes w' (layerPath treeCfg h) = take (unat n div 2 ^ h) (nodes w (layerPath treeCfg h)) \<and>
        m' (of_nat h) = (if odd (unat n div 2 ^ h)
          then Some (nodes w (layerPath treeCfg h) ! (unat n div 2 ^ h - 1)) else m (of_nat h))) \<and>
     (\<forall>p. p \<notin> layerPath treeCfg ` set hs \<longrightarrow> nodes w' p = nodes w p) \<and>
     (\<forall>x. x \<notin> of_nat ` set hs \<longrightarrow> m' x = m x)"
proof (induction hs arbitrary: w m)
  case (Cons h hs)
  obtain w1 m1 where r: "recoverLayer R treeCfg n w m (of_nat h, layerFileName (of_nat h)) = (w1, Inr m1)"
    and rs: "recoverLayers R treeCfg n w1 m1 (map (\<lambda>h. (of_nat h, layerFileName (of_nat h))) hs) = (w', Inr m')"
    using Cons.prems(3) by (auto split: prod.splits sum.splits)
  have h: "h < 64" using Cons.prems(2) by simp
  note one = recoverLayer_ok [OF F RD h r refl refl]
  have hs: "distinct hs" "\<forall>h \<in> set hs. h < 64" using Cons.prems(1,2) by simp_all
  note IH = Cons.IH [OF hs rs]
  have nh: "of_nat h \<noteq> (of_nat h' :: uint)" "layerPath treeCfg h \<noteq> layerPath treeCfg h'" if "h' \<in> set hs" for h'
  proof -
    have "h \<noteq> h'" "h' < 64" using that Cons.prems(1,2) by auto
    with h layerPath_inject [of h h' treeCfg] show "layerPath treeCfg h \<noteq> layerPath treeCfg h'" by simp
    from \<open>h \<noteq> h'\<close> \<open>h' < 64\<close> h show "of_nat h \<noteq> (of_nat h' :: uint)" by (simp add: layer_word_inject)
  qed
  have 1: "of_nat h \<notin> (of_nat :: nat \<Rightarrow> uint) ` set hs" "layerPath treeCfg h \<notin> layerPath treeCfg ` set hs"
    using nh by blast+
  then have a: "nodes w' (layerPath treeCfg h) = nodes w1 (layerPath treeCfg h)" "m' (of_nat h) = m1 (of_nat h)"
    using IH by blast+
  have b: "nodes w1 (layerPath treeCfg h') = nodes w (layerPath treeCfg h')" "m1 (of_nat h') = m (of_nat h')"
    if "h' \<in> set hs" for h'
    using one(2,3) nh [OF that] by auto
  have "unat n div 2 ^ h' \<le> length (nodes w (layerPath treeCfg h')) \<and>
      nodes w' (layerPath treeCfg h') = take (unat n div 2 ^ h') (nodes w (layerPath treeCfg h')) \<and>
      m' (of_nat h') = (if odd (unat n div 2 ^ h')
        then Some (nodes w (layerPath treeCfg h') ! (unat n div 2 ^ h' - 1)) else m (of_nat h'))"
    if "h' \<in> set (h # hs)" for h'
  proof (cases "h' = h")
    case True
    with one a show ?thesis by simp
  next
    case False
    with that have "h' \<in> set hs" by simp
    with IH [THEN conjunct1, THEN bspec, OF this] b [OF this] show ?thesis by simp
  qed
  moreover have "nodes w' p = nodes w p" if "p \<notin> layerPath treeCfg ` set (h # hs)" for p
    using that IH one(2) by auto
  moreover have "m' x = m x" if "x \<notin> of_nat ` set (h # hs)" for x :: uint
    using that IH one(3) by auto
  ultimately show ?case by blast
qed simp

section \<open>Lemmas on the rebuilt tree\<close>

lemma appendNodes_leaves:
  assumes T: "tree_ok M leaves park" and RD: "layer_read_ok R nodes at"
    and ret: "appendNodes R M l w t = Some (w', Inr t')" and pos: "at w l = (p, i)"
  shows "leaves t' = leaves t @ drop i (nodes w p)" and "nodes w' = nodes w"
proof -
  let ?Q = "\<lambda>w t out. \<forall>i w' t'. at w l = (p, i) \<longrightarrow> out = (w', Inr t' :: goerr + _) \<longrightarrow>
    leaves t' = leaves t @ drop i (nodes w p) \<and> nodes w' = nodes w"
  let ?P = "\<lambda>R' M' l' w t out. R' = R \<and> M' = M \<and> l' = l \<longrightarrow> ?Q w t out"
  have "?P R M l w t (w', Inr t')"
  proof (rule appendNodes.raw_induct [where P = ?P, OF _ ret], intro impI)
    fix rec R' M' l' w t out
    assume IH: "\<And>R' M' l' w t out. rec R' M' l' w t = Some out \<Longrightarrow> R' = R \<and> M' = M \<and> l' = l \<longrightarrow> ?Q w t out"
      and r: "(case rc_ReadNext R' w l' of
          (w, Inl err) \<Rightarrow> if errors_Is err ErrEOF then Some (w, Inr t)
            else Some (w, Inl (Wrap ''reading node from top layer of disk-cache'' err))
        | (w, Inr node) \<Rightarrow> (case mk_AddLeaf M' t node of
            (tree, Some err) \<Rightarrow> Some (w, Inl (Wrap ''adding node to small tree'' err))
          | (tree, None) \<Rightarrow> rec R' M' l' w tree)) = Some out"
      and eq: "R' = R \<and> M' = M \<and> l' = l"
    show "?Q w t out"
    proof (intro allI impI)
      fix i w2 t2 assume pos: "at w l = (p, i)" and out: "out = (w2, Inr t2)"
      obtain w1 x where rn: "rc_ReadNext R w l = (w1, x)" by fastforce
      show "leaves t2 = leaves t @ drop i (nodes w p) \<and> nodes w2 = nodes w"
      proof (cases x)
        case (Inl e)
        with r rn out eq have "errors_Is e ErrEOF" "t2 = t" "w2 = w1" by (auto split: if_splits)
        moreover have "nodes w1 = nodes w \<and> (errors_Is e ErrEOF \<longrightarrow> length (nodes w p) \<le> i)"
          using RD rn pos Inl unfolding layer_read_ok_def by blast
        ultimately show ?thesis by simp
      next
        case (Inr node)
        then have n: "nodes w1 = nodes w" "i < length (nodes w p)" "node = nodes w p ! i" "at w1 l = (p, Suc i)"
          using RD rn pos unfolding layer_read_ok_def by blast+
        obtain t1 where a: "mk_AddLeaf M t node = (t1, None)" and rc: "rec R M l w1 t1 = Some out"
          using r rn Inr eq out by (auto split: prod.splits option.splits)
        have "leaves t2 = leaves t1 @ drop (Suc i) (nodes w1 p) \<and> nodes w2 = nodes w1"
          using IH [OF rc] n(4) out by blast
        with n tree_AddLeaf [OF T a] show ?thesis by (simp add: Cons_nth_drop_Suc [symmetric])
      qed
    qed
  qed
  with pos show "leaves t' = leaves t @ drop i (nodes w p)" and "nodes w' = nodes w" by blast+
qed

lemma recoverMemCachedParkedNodes_ok:
  assumes C: "merkle_contract M mh leaves rleaves (ref_park mh)" and PK: "park_ok M mh leaves"
    and RD: "layer_read_ok R nodes at" and pos: "at w l = (p, 0)"
    and ret: "recoverMemCachedParkedNodes R M mh w l = Some (w', Ret (Inr (ps, rd)))"
  shows "rleaves rd = nodes w p" and "nodes w' = nodes w"
    and "parked_at ps h = parked_at (ref_park mh (nodes w p)) (Suc h)"
proof -
  from C have T: "tree_ok M leaves (ref_park mh)" and B: "build_ok M mh leaves" and Rd: "reader_ok M leaves rleaves"
    by (simp_all add: merkle_contract_def)
  obtain t t1 t2 x where b: "mk_Build M mh (CustomPolicy (\<lambda>_. True)) (GetLayerFactory 0 [] 0) = Inr t"
    and a: "appendNodes R M l w t = Some (w', Inr t1)" and g: "mk_GetReader M t1 = (t2, Inr rd)"
    and ps: "mk_GetParkedNodes M t2 = x # ps"
    using ret by (auto simp: recoverMemCachedParkedNodes_def split: sum.splits option.splits prod.splits list.splits)
  have "leaves t = []" using B b by (simp add: build_ok_def)
  with appendNodes_leaves [OF T RD a pos] have t1: "leaves t1 = nodes w p" and "nodes w' = nodes w" by simp_all
  then show "nodes w' = nodes w" by simp
  show "rleaves rd = nodes w p" using reader_leaves(2) [OF Rd g] t1 by simp
  have "leaves t2 = nodes w p" using reader_leaves(1) [OF Rd g] t1 by simp
  with PK ps have "x # ps = (if nodes w p = [] then [[]] else ref_park mh (nodes w p))"
    unfolding park_ok_def by metis
  then show "parked_at ps h = parked_at (ref_park mh (nodes w p)) (Suc h)"
    by (auto simp: parked_at_def ref_park_def split: if_splits)
qed

text \<open>A layer is read to its end, and the parked nodes of a tree are never missing altogether.\<close>

lemma appendNodes_ends:
  assumes "layer_read_ok R nodes at"
  shows "appendNodes R M l w t \<noteq> None"
proof (induction "length (nodes w (fst (at w l))) - snd (at w l)" arbitrary: w t rule: less_induct)
  case less
  obtain p i where pos: "at w l = (p, i)" by fastforce
  obtain w1 x where rn: "rc_ReadNext R w l = (w1, x)" by fastforce
  show ?case
  proof (cases x)
    case (Inr node)
    then have n: "nodes w1 = nodes w" "i < length (nodes w p)" "at w1 l = (p, Suc i)"
      using assms rn pos unfolding layer_read_ok_def by blast+
    have "appendNodes R M l w1 t1 \<noteq> None" for t1 by (rule less.hyps) (use n pos in simp)
    with Inr rn show ?thesis by (subst appendNodes.simps) (simp split: prod.split option.split)
  qed (subst appendNodes.simps, simp add: rn)
qed

lemma makeRecoveryProofTree_returns:
  assumes "layer_read_ok R nodes at" and "\<forall>t. mk_GetParkedNodes M t \<noteq> []"
  shows "\<exists>w' res. makeRecoveryProofTree R M treeCfg mh n readDir order w = Some (w', Ret res)"
proof -
  have "\<exists>w' res. recoverMemCachedParkedNodes R M mh w l = Some (w', Ret res)" for w l
  proof -
    show ?thesis
    proof (cases "mk_Build M mh (CustomPolicy (\<lambda>_. True)) (GetLayerFactory 0 [] 0)")
      case (Inr t)
      obtain a where "appendNodes R M l w t = Some a" using appendNodes_ends [OF assms(1), of M l w t] by blast
      with Inr show ?thesis using assms(2)
        by (auto simp: recoverMemCachedParkedNodes_def split: sum.split prod.split list.split)
    qed (simp add: recoverMemCachedParkedNodes_def)
  qed
  then have "recoverMemCachedParkedNodes R M mh w l = Some (w', Panic) \<longleftrightarrow> False"
    "recoverMemCachedParkedNodes R M mh w l = None \<longleftrightarrow> False" for w l w'
    by (metis Pair_inject option.inject outcome.distinct(1), metis option.distinct(1))
  then show ?thesis
    unfolding makeRecoveryProofTree_def Let_def
    by (auto simp del: not_None_eq split: sum.split option.split prod.split outcome.split)
qed

lemma cancelled_recovery_returns:
  assumes "layer_read_ok R nodes at" and "\<forall>t. mk_GetParkedNodes M t \<noteq> []" and "sel 0 = Cancelled"
  shows "\<exists>st' err k. GenerateProofRecovery R S M treeCfg readDir order lh mh sel e sp n persist w st = Some (Ret (st', Inl (err, k)))"
proof -
  obtain w' res where t: "makeRecoveryProofTree R M treeCfg mh n readDir order w = Some (w', Ret res)"
    using makeRecoveryProofTree_returns [OF assms(1,2)] by blast
  show ?thesis
  proof (cases res)
    case (Inr tree)
    obtain t' p' err k where "generateProof S M lh sel e sp persist tree (w', st) n = Some (t', p', Inl (err, k))"
      using cancelled_generateProof [of sel S M lh e sp persist tree "(w', st)" n] assms(3) by blast
    with t Inr show ?thesis by (simp add: GenerateProofRecovery_def)
  qed (simp add: GenerateProofRecovery_def t)
qed

text \<open>
  \<open>files_upto\<close>: the directory holds the files of the first \<open>k\<close> layers, and \<open>order\<close> visits each of them
  once.
\<close>

definition files_upto :: "(uint \<rightharpoonup> string) \<Rightarrow> nat \<Rightarrow> bool" where
  "files_upto files k \<longleftrightarrow> 0 < k \<and> k \<le> 64 \<and>
     files = map_of (map (\<lambda>h. (of_nat h, layerFileName (of_nat h))) [0..<k])"

definition visits_all :: "((uint \<rightharpoonup> string) \<Rightarrow> (uint \<times> string) list) \<Rightarrow> (uint \<rightharpoonup> string) \<Rightarrow> nat \<Rightarrow> bool" where
  "visits_all order files k \<longleftrightarrow>
     (\<exists>hs. distinct hs \<and> set hs = {..<k} \<and> order files = map (\<lambda>h. (of_nat h, layerFileName (of_nat h))) hs)"

lemma foldl_max_words:
  assumes "\<forall>h \<in> set hs. h < 64" and "m < 64"
  shows "foldl (\<lambda>m (layer, _). max m layer) (of_nat m) (map (\<lambda>h. (of_nat h, f h)) hs)
    = (of_nat (foldl max m hs) :: uint)"
  using assms
proof (induction hs arbitrary: m)
  case (Cons h hs)
  then have h: "h < 64" "max m h < 64" by simp_all
  then have "max (of_nat m) (of_nat h :: uint) = of_nat (max m h)"
    using Cons.prems(2) by (auto simp: max_def word_le_nat_alt unat_of_nat)
  with Cons.IH [of "max m h"] Cons.prems(1) h show ?case by simp
qed simp

lemma foldl_max_upto:
  assumes "set hs = {..<k}" and "0 < k"
  shows "foldl max (0 :: nat) hs = k - 1"
proof -
  have "foldl max 0 hs = fold max hs 0" by (simp add: foldl_conv_fold max.commute)
  also have "\<dots> = Max (insert 0 {..<k})" using Max.set_eq_fold [of 0 hs] assms(1) by simp
  also have "\<dots> = k - 1" using assms(2) by (intro Max_eqI) auto
  finally show ?thesis .
qed

lemma top_layer:
  assumes "set hs = {..<k}" and "0 < k" and "k \<le> 64"
  shows "foldl (\<lambda>m (layer, _). max m layer) 0 (map (\<lambda>h. (of_nat h, f h)) hs) = (of_nat (k - 1) :: uint)"
proof -
  have "\<forall>h \<in> set hs. h < 64" using assms by auto
  from foldl_max_words [OF this, of 0 f] foldl_max_upto [OF assms(1,2)] show ?thesis by simp
qed

lemma recovered_layers:
  assumes F: "layer_file_ok R nodes at" and RD: "layer_read_ok R nodes at"
    and V: "distinct hs" "set hs = {..<k}" "k \<le> 64" and n: "n = of_nat (length ls)" "length ls < 2 ^ 64"
    and L: "layers_hold (nodes w) treeCfg mh k ls"
    and r: "recoverLayers R treeCfg n w Map.empty (map (\<lambda>h. (of_nat h, layerFileName (of_nat h))) hs) = (w', Inr m)"
  shows "\<forall>h < k. nodes w' (layerPath treeCfg h) = treeLayer mh h ls"
    and "parkedList m k = map (\<lambda>h. waiting mh h ls) [0..<k]"
proof -
  have un: "unat n = length ls" using n by (simp add: unat_of_nat)
  have "\<forall>h \<in> set hs. h < 64" using V by auto
  note rl = recoverLayers_ok [OF F RD V(1) this r, unfolded un, THEN conjunct1, THEN bspec]
  have T: "take (length ls div 2 ^ h) (nodes w (layerPath treeCfg h)) = treeLayer mh h ls" if "h < k" for h
    using L that by (simp add: layers_hold_def)
  show "\<forall>h < k. nodes w' (layerPath treeCfg h) = treeLayer mh h ls" using rl V(2) T by auto
  have "(case m (of_nat h) of Some node \<Rightarrow> node | None \<Rightarrow> []) = waiting mh h ls" if h: "h < k" for h
  proof (cases "odd (length ls div 2 ^ h)")
    case True
    let ?e = "length ls div 2 ^ h" and ?ns = "nodes w (layerPath treeCfg h)"
    have le: "?e \<le> length ?ns" and m: "m (of_nat h) = Some (?ns ! (?e - 1))" using rl [of h] V(2) h True by auto
    have "0 < ?e" using True by (rule odd_pos)
    then have "?ns ! (?e - 1) = take ?e ?ns ! (?e - 1)" by simp
    also have "\<dots> = last (treeLayer mh h ls)" using T [OF h] \<open>0 < ?e\<close>
      by (metis last_conv_nth length_treeLayer length_greater_0_conv)
    finally show ?thesis using m True by (simp add: waiting_def)
  next
    case False
    with rl [of h] V(2) h show ?thesis by (simp add: waiting_def)
  qed
  then show "parkedList m k = map (\<lambda>h. waiting mh h ls) [0..<k]" by (simp add: parkedList_def)
qed

lemma recovered_tree:
  assumes C: "merkle_contract M mh leaves rleaves (ref_park mh)" and PK: "park_ok M mh leaves"
    and F: "layer_file_ok R nodes at" and RD: "layer_read_ok R nodes at"
    and RS: "restore_ok R mh leaves rleaves nodes" and H: "\<forall>a b. length (mh a b) = NodeSize"
    and files: "getLayersFiles readDir = Inr files" "files_upto files k" "visits_all order files k"
    and n: "n = of_nat (length ls)" "length ls < 2 ^ 64" and L: "layers_hold (nodes w) treeCfg mh k ls"
    and ret: "makeRecoveryProofTree R M treeCfg mh n readDir order w = Some (w', Ret (Inr t))"
  shows "leaves t = ls"
proof -
  from files(2) have k: "0 < k" "k \<le> 64" by (simp_all add: files_upto_def)
  obtain hs where hs: "distinct hs" "set hs = {..<k}" "order files = map (\<lambda>h. (of_nat h, layerFileName (of_nat h))) hs"
    using files(3) unfolding visits_all_def by blast
  let ?top = "of_nat (k - 1) :: uint" and ?p = "layerPath treeCfg (k - 1)"
  have lhs: "length hs = k" using distinct_card [OF hs(1)] hs(2) by simp
  have layers: "set (map fst (order files)) = of_nat ` {..<k}" by (simp add: hs image_image comp_def flip: hs(2))
  have top: "foldl (\<lambda>m (layer, _). max m layer) 0 (order files) = ?top" unfolding hs(3) by (rule top_layer [OF hs(2) k])
  obtain w1 m w2 l ps rd t0 where
    1: "recoverLayers R treeCfg n w Map.empty (order files) = (w1, Inr m)"
    and 2: "rc_OpenLayer R w1 (recoveryFactory treeCfg ?top) = (w2, Inr l)"
    and 3: "recoverMemCachedParkedNodes R M mh w2 l = Some (w', Ret (Inr (ps, rd)))"
    and 4: "rc_Build R w' mh (recoveryWriter R treeCfg (of_nat ` {..<k}) ?top rd) = Inr t0"
    and 5: "rc_SetParkedNodes R t0 (parkedList m k @ ps) = (t, None)"
    using ret unfolding makeRecoveryProofTree_def files(1) sum.case Let_def top layers
    by (auto simp: lhs hs(3) split: if_splits prod.splits sum.splits option.splits outcome.splits)
  note rl = recovered_layers [OF F RD hs(1,2) k(2) n L 1 [unfolded hs(3)]]
  have "recoveryFactory treeCfg ?top = FileLayer ?p (FileWriterBufSize treeCfg)"
    using k by (intro recoveryFactory_file) simp
  with 2 F have o: "nodes w2 = nodes w1" "at w2 l = (?p, 0)" unfolding layer_file_ok_def by metis+
  note mc = recoverMemCachedParkedNodes_ok [OF C PK RD o(2) 3]
  have tp: "nodes w2 ?p = treeLayer mh (k - 1) ls" using rl(1) k o(1) by simp
  have "node_sized (take (length ls) (nodes w (layerPath treeCfg 0)))"
    using F by (auto simp: layer_file_ok_def node_sized_def dest: in_set_takeD)
  then have ns: "node_sized ls" using L k(1) unfolding layers_hold_def by fastforce
  note ns' = node_sized_treeLayer [OF H ns, of "k - 1"]
  have "parked_at (parkedList m k @ ps) h = parked_at (ref_park mh ls) h" for h
  proof (cases "h < k")
    case True
    then show ?thesis by (simp add: rl(2) parked_at_append ref_park_waiting [OF H ns])
  next
    case False
    then have "parked_at (parkedList m k @ ps) h = waiting mh (Suc (h - k)) (treeLayer mh (k - 1) ls)"
      using mc(3) [of "h - k", unfolded tp ref_park_waiting [OF H ns']] by (simp add: rl(2) parked_at_append)
    also have "\<dots> = waiting mh h ls" using False k(1) by (simp flip: waiting_add)
    finally show ?thesis by (simp add: ref_park_waiting [OF H ns])
  qed
  moreover have "\<forall>h < k. nodes w' (layerPath treeCfg h) = treeLayer mh h ls" using rl(1) o(1) mc(2) by simp
  moreover have "rleaves rd = treeLayer mh (k - 1) ls" using mc(1) tp by simp
  ultimately show ?thesis using RS k(1) 4 5 unfolding restore_ok_def by blast
qed

text \<open>Everything that recovery relies on.\<close>

definition recovery_contract ::
  "('w, 'l, 't, 'rd, 'cw, 'ly) recovery_api \<Rightarrow> ('t, 'rd) merkle_api \<Rightarrow> merkle_hash \<Rightarrow> ('t \<Rightarrow> bytes list) \<Rightarrow>
   ('rd \<Rightarrow> bytes list) \<Rightarrow> ('w \<Rightarrow> string \<Rightarrow> bytes list) \<Rightarrow> ('w \<Rightarrow> 'l \<Rightarrow> string \<times> nat) \<Rightarrow> bool" where
  "recovery_contract R M mh leaves rleaves nodes at \<longleftrightarrow>
     merkle_contract M mh leaves rleaves (ref_park mh) \<and> park_ok M mh leaves \<and> layer_file_ok R nodes at \<and>
     layer_read_ok R nodes at \<and> restore_ok R mh leaves rleaves nodes \<and> (\<forall>a b. length (mh a b) = NodeSize)"

lemma GenerateProofRecovery_valid:
  assumes "recovery_contract R M mh leaves rleaves nodes at" and "persist_keeps leaves persist" and "0 < securityParam"
    and "getLayersFiles readDir = Inr files" and "files_upto files k" and "visits_all order files k"
    and "honest lh (ref_park mh) saved" and "length saved < 2 ^ 64" and "layers_hold (nodes w) treeCfg mh k saved"
    and "GenerateProofRecovery R S M treeCfg readDir order lh mh sel ctxErr securityParam (of_nat (length saved)) persist w st
      = Some (Ret (st', Inr (numLeaves, prf)))"
  shows "Validate S M prf lh mh numLeaves securityParam = Some (Ret None)"
proof -
  from assms(1) have C: "merkle_contract M mh leaves rleaves (ref_park mh)" and PK: "park_ok M mh leaves"
    and F: "layer_file_ok R nodes at" and RD: "layer_read_ok R nodes at" and RS: "restore_ok R mh leaves rleaves nodes"
    and H: "\<forall>a b. length (mh a b) = NodeSize" unfolding recovery_contract_def by blast+
  obtain w1 tree tree' where t: "makeRecoveryProofTree R M treeCfg mh (of_nat (length saved)) readDir order w
        = Some (w1, Ret (Inr tree))"
    and g: "generateProof S M lh sel ctxErr securityParam persist tree (w1, st) (of_nat (length saved))
        = Some (tree', st', Inr (numLeaves, prf))"
    using assms(10) by (auto simp: GenerateProofRecovery_def split: option.splits prod.splits outcome.splits sum.splits)
  have "leaves tree = saved"
    by (rule recovered_tree [where nodes = nodes and at = at and leaves = leaves and rleaves = rleaves,
          OF C PK F RD RS H assms(4-6) refl assms(8,9) t])
  then have "work_inv lh leaves (ref_park mh) tree (of_nat (length saved))" using assms(7) by (simp add: work_inv_def)
  from generateProof_valid [OF C assms(2) this assms(3) g] show ?thesis .
qed

lemma GenerateProofRecovery_state:
  assumes "persist_inv Q persist" and "\<forall>w. Q (w, st)"
    and "GenerateProofRecovery R S M treeCfg readDir order lh mh sel e sp n persist w st = Some (Ret (p', r))"
  shows "Q p'"
proof -
  consider w' err where "p' = (w', st)"
    | w' tree t' where "generateProof S M lh sel e sp persist tree (w', st) n = Some (t', p', r)"
    using assms(3)
    by (auto simp: GenerateProofRecovery_def split: option.splits prod.splits outcome.splits sum.splits)
  then show ?thesis using assms(1,2) by cases (simp, blast dest: generateProof_state)
qed

section \<open>A concrete set of layer files\<close>

text \<open>Layers by path with a read position each; files hold at most 1000 nodes.\<close>

record layer_world =
  lw_files :: "string \<Rightarrow> bytes list"
  lw_pos :: "string \<Rightarrow> nat"

definition lw_nodes :: "layer_world \<Rightarrow> string \<Rightarrow> bytes list" where
  "lw_nodes w p = take 1000 (filter (\<lambda>x. length x = NodeSize) (lw_files w p))"

definition lw_at :: "layer_world \<Rightarrow> string \<Rightarrow> string \<times> nat" where
  "lw_at w l = (l, lw_pos w l)"

definition ref_recovery :: "(layer_world, string, bytes list, bytes list, layer_factory, unit) recovery_api" where
  "ref_recovery =
     \<lparr>rc_OpenLayer = (\<lambda>w st. case st of
         FileLayer p buf \<Rightarrow> (w\<lparr>lw_pos := (lw_pos w)(p := 0)\<rparr>, Inr p)
       | SliceLayer \<Rightarrow> (w, Inl (Opaque ''not a file''))),
      rc_Width = (\<lambda>w l. Inr (of_nat (length (lw_nodes w l)))),
      rc_Seek = (\<lambda>w l k. (w\<lparr>lw_pos := (lw_pos w)(l := unat k)\<rparr>, None)),
      rc_ReadNext = (\<lambda>w l.
         if lw_pos w l < length (lw_nodes w l)
         then (w\<lparr>lw_pos := (lw_pos w)(l := Suc (lw_pos w l))\<rparr>, Inr (lw_nodes w l ! lw_pos w l))
         else (w, Inl ErrEOF)),
      rc_Truncate = (\<lambda>w p k. (w\<lparr>lw_files := (lw_files w)(p := take (unat k div NodeSize) (lw_nodes w p))\<rparr>, None)),
      rc_NewWriter = (\<lambda>pol fac. fac),
      rc_SetLayer = (\<lambda>cw h ly. cw),
      rc_Layers = (\<lambda>rd. [(0, ())]),
      rc_Build = (\<lambda>w mh cw. case cw 0 of FileLayer p buf \<Rightarrow> Inr (lw_nodes w p) | SliceLayer \<Rightarrow> Inr []),
      rc_SetParkedNodes = (\<lambda>t ps. (t, None))\<rparr>"

lemma lw_nodes_sized: "node_sized (lw_nodes w p)" "length (lw_nodes w p) \<le> 1000"
  by (auto simp: lw_nodes_def node_sized_def dest: in_set_takeD)

lemma lw_nodes_pos [simp]: "lw_nodes (w\<lparr>lw_pos := f\<rparr>) = lw_nodes w"
  by (simp add: lw_nodes_def fun_eq_iff)

lemma lw_nodes_truncated:
  "lw_nodes (w\<lparr>lw_files := (lw_files w)(p := take n (lw_nodes w p))\<rparr>) = (lw_nodes w)(p := take n (lw_nodes w p))"
proof -
  have "filter (\<lambda>x. length x = NodeSize) (take n (lw_nodes w p)) = take n (lw_nodes w p)"
    using lw_nodes_sized(1) [of w p] by (auto simp: filter_id_conv node_sized_def dest: in_set_takeD)
  then show ?thesis using lw_nodes_sized(2) [of w p] by (auto simp: lw_nodes_def [of "w\<lparr>lw_files := _\<rparr>"] fun_eq_iff lw_nodes_def)
qed

lemma ref_layer_file_ok: "layer_file_ok ref_recovery lw_nodes lw_at"
proof -
  have "unat (of_nat (length (lw_nodes w p)) :: u64) = length (lw_nodes w p)" for w p
    using lw_nodes_sized(2) [of w p] by (simp add: unat_of_nat)
  moreover have "length (lw_nodes w p) * NodeSize < 2 ^ 63" for w p using lw_nodes_sized(2) [of w p] by simp
  moreover have "lw_at (w\<lparr>lw_files := f\<rparr>) = lw_at w" for w f by (simp add: lw_at_def fun_eq_iff)
  ultimately show ?thesis
    unfolding layer_file_ok_def using lw_nodes_sized(1)
    by (auto simp: ref_recovery_def lw_at_def lw_nodes_truncated [simplified])
qed

lemma ref_layer_read_ok: "layer_read_ok ref_recovery lw_nodes lw_at"
  by (auto simp: layer_read_ok_def ref_recovery_def lw_at_def split: if_splits)

lemma ref_restore_ok: "restore_ok ref_recovery mh (\<lambda>t. t) (\<lambda>r. r) lw_nodes"
proof -
  have "recoveryWriter ref_recovery treeCfg L top rd 0 = FileLayer (layerPath treeCfg 0) (FileWriterBufSize treeCfg)"
    for treeCfg L top rd
    using recoveryFactory_file [of 0 treeCfg] by (simp add: recoveryWriter_def ref_recovery_def)
  then show ?thesis by (auto simp: restore_ok_def ref_recovery_def)
qed

lemma ref_recovery_contract:
  assumes "\<forall>a b. length (mh a b) = NodeSize"
  shows "recovery_contract ref_recovery (ref_merkle mh) mh (\<lambda>t. t) (\<lambda>r. r) lw_nodes lw_at"
  using assms ref_merkle_contract ref_layer_file_ok ref_layer_read_ok ref_restore_ok
  by (simp add: recovery_contract_def park_ok_def ref_merkle_def)

text \<open>A saved execution with one leaf, whose file already got a second node before the crash.\<close>

definition demo_label :: "bytes \<Rightarrow> bytes" where
  "demo_label d = replicate 32 5"

definition demo_node :: merkle_hash where
  "demo_node a b = replicate 32 7"

definition demo_layers :: "string \<Rightarrow> bytes list \<Rightarrow> layer_world" where
  "demo_layers p ns = \<lparr>lw_files = (\<lambda>_. [])(p := ns), lw_pos = (\<lambda>_. 0)\<rparr>"

definition demo_order :: "(uint \<rightharpoonup> string) \<Rightarrow> (uint \<times> string) list" where
  "demo_order files = [(0, layerFileName 0)]"

lemma demo_layerPath: "layerPath demo_cfg 0 = ''d/layercache_0.bin''"
  by code_simp

lemma demo_factory: "recoveryFactory demo_cfg 0 = FileLayer ''d/layercache_0.bin'' 0"
  using recoveryFactory_file [of 0 demo_cfg] demo_layerPath by (simp add: demo_cfg_def)

lemma demo_layer_files: "getLayersFiles (Inr [(''layercache_0.bin'', False)]) = Inr [0 \<mapsto> layerFileName 0]"
proof -
  have "layerFileName 0 = ''layercache_0.bin''" by code_simp
  then show ?thesis using collectLayers_layers [of "[0]" Map.empty] by (simp add: getLayersFiles_def)
qed

lemma demo_recovered_layer:
  assumes "length a = 32" "length b = 32"
  shows "recoverLayers ref_recovery demo_cfg 1 (demo_layers ''d/layercache_0.bin'' [a, b]) Map.empty [(0, layerFileName 0)]
    = ((demo_layers ''d/layercache_0.bin'' [a])\<lparr>lw_pos := (\<lambda>_. 0)(''d/layercache_0.bin'' := Suc 0)\<rparr>, Inr [0 \<mapsto> a])"
  using assms demo_layerPath
  by (simp add: recoverLayer_def demo_factory ref_recovery_def truncateAhead_def readParked_def lw_nodes_def demo_layers_def
      layerPath_def Let_def)

lemma demo_appendNodes:
  assumes "length a = 32"
  shows "appendNodes ref_recovery (ref_merkle mh) ''d/layercache_0.bin'' (demo_layers ''d/layercache_0.bin'' [a]) []
    = Some ((demo_layers ''d/layercache_0.bin'' [a])\<lparr>lw_pos := (\<lambda>_. 0)(''d/layercache_0.bin'' := Suc 0)\<rparr>, Inr [a])"
  using assms
  by (simp add: appendNodes.simps [of _ _ _ _ "[]"] appendNodes.simps [of _ _ _ _ "[a]"] ref_recovery_def ref_merkle_def
      lw_nodes_def demo_layers_def)

lemma demo_recovered_tree:
  assumes "length a = 32" "length b = 32"
  shows "\<exists>w'. makeRecoveryProofTree ref_recovery (ref_merkle mh) demo_cfg mh 1 (Inr [(''layercache_0.bin'', False)])
    demo_order (demo_layers ''d/layercache_0.bin'' [a, b]) = Some (w', Ret (Inr [a]))"
proof -
  have o: "rc_OpenLayer ref_recovery ((demo_layers ''d/layercache_0.bin'' [a])\<lparr>lw_pos := (\<lambda>_. 0)(''d/layercache_0.bin'' := Suc 0)\<rparr>)
      (FileLayer ''d/layercache_0.bin'' 0) = (demo_layers ''d/layercache_0.bin'' [a], Inr ''d/layercache_0.bin'')"
    by (simp add: ref_recovery_def demo_layers_def fun_upd_idem)
  have m: "\<exists>ps. recoverMemCachedParkedNodes ref_recovery (ref_merkle mh) mh (demo_layers ''d/layercache_0.bin'' [a]) ''d/layercache_0.bin''
      = Some ((demo_layers ''d/layercache_0.bin'' [a])\<lparr>lw_pos := (\<lambda>_. 0)(''d/layercache_0.bin'' := Suc 0)\<rparr>, Ret (Inr (ps, [a])))"
    using demo_appendNodes [OF assms(1), of mh]
    by (simp add: recoverMemCachedParkedNodes_def ref_merkle_def ref_park_def)
  have w: "recoveryWriter ref_recovery demo_cfg L top rd 0 = FileLayer ''d/layercache_0.bin'' 0" for L top rd
    by (simp add: recoveryWriter_def ref_recovery_def demo_factory)
  have b: "rc_Build ref_recovery w mh (recoveryWriter ref_recovery demo_cfg L top rd) = Inr (lw_nodes w ''d/layercache_0.bin'')"
    for w L top rd using w by (simp add: ref_recovery_def)
  have s: "rc_SetParkedNodes ref_recovery t ps = (t, None)" for t ps by (simp add: ref_recovery_def)
  from m assms show ?thesis
    by (auto simp: makeRecoveryProofTree_def demo_layer_files demo_order_def demo_recovered_layer demo_factory o b s Let_def
        simp del: recoverLayers.simps)
      (simp add: lw_nodes_def demo_layers_def)
qed

lemma demo_resumed_work:
  "sequentialWork (ref_merkle demo_node) demo_label (\<lambda>_. Stopped) ErrCanceled 1 (\<lambda>t p n. (t, p, None)) [replicate 32 5] st 1
     = Some ([replicate 32 5, replicate 32 5], st, 2, None)"
proof -
  obtain b l where m: "MakeLabelFunc demo_label [] (1, mk_GetParkedNodes (ref_merkle demo_node) [replicate 32 5]) = (b, l)" by fastforce
  then have "l = replicate 32 5" by (auto simp: MakeLabelFunc_def demo_label_def Let_def split: prod.splits)
  with m show ?thesis
    by (simp add: sequentialWork_def workLoop.simps [of _ _ _ _ _ _ 0] workStep_def Let_def) (simp add: ref_merkle_def)
qed

lemma demo_resumed_proof:
  "\<exists>prf. map_option (\<lambda>r. snd r) (generateProof S (ref_merkle demo_node) demo_label (\<lambda>_. Stopped) ErrCanceled 1
     (\<lambda>t p n. (t, p, None)) [replicate 32 5] st 1) = Some (st, Inr (2, prf))"
proof -
  have "\<exists>R. FiatShamir S root 2 1 = Some R" for root by (simp add: FiatShamir_def while_option_unfold Let_def)
  then obtain R where "FiatShamir S (mk_Root (ref_merkle demo_node) [replicate 32 5, replicate 32 5]) 2 1 = Some R" by blast
  then show ?thesis by (simp add: generateProof_def demo_resumed_work Let_def) (simp add: ref_merkle_def)
qed

section \<open>Properties\<close>

text \<open>
  C24: Recovery after a crash. Suppose the layer files hold at least the layers of a tree whose leaves
  were computed honestly, up to the leaf count that was last saved (a crash may have left more nodes,
  and the layers kept in memory are lost). Then every proof that the recovered execution returns is
  accepted by \<open>Validate\<close>, exactly like the proof of an execution that was never interrupted. The
  files are visited in any order.
\<close>

theorem recovered_proof_is_valid:
  assumes "recovery_contract R M mh leaves rleaves nodes at" and "persist_keeps leaves persist" and "0 < securityParam"
    and "getLayersFiles readDir = Inr files" and "files_upto files k" and "visits_all order files k"
    and "honest lh (ref_park mh) saved" and "length saved < 2 ^ 64" and "layers_hold (nodes w) treeCfg mh k saved"
    and "GenerateProofRecovery R S M treeCfg readDir order lh mh sel ctxErr securityParam (of_nat (length saved)) persist w st
      = Some (Ret (st', Inr (numLeaves, prf)))"
  shows "Validate S M prf lh mh numLeaves securityParam = Some (Ret None)"
  by (rule GenerateProofRecovery_valid [OF assms])

theorem recovered_proof_is_valid_witness:
  "\<exists>st' pr. GenerateProofRecovery ref_recovery (demo_sha True) (ref_merkle demo_node) demo_cfg (Inr [(''layercache_0.bin'', False)])
     demo_order demo_label demo_node (\<lambda>_. Stopped) ErrCanceled 1 1 (\<lambda>t p n. (t, p, None))
     (demo_layers ''d/layercache_0.bin'' [replicate 32 5, replicate 32 9]) () = Some (Ret (st', Inr (2, pr))) \<and>
   Validate (demo_sha True) (ref_merkle demo_node) pr demo_label demo_node 2 1 = Some (Ret None)"
proof -
  let ?w = "demo_layers ''d/layercache_0.bin'' [replicate 32 5, replicate 32 9]"
  let ?gen = "GenerateProofRecovery ref_recovery (demo_sha True) (ref_merkle demo_node) demo_cfg (Inr [(''layercache_0.bin'', False)])
     demo_order demo_label demo_node (\<lambda>_. Stopped) ErrCanceled 1 (of_nat (length [replicate 32 (5 :: byte)]))
     (\<lambda>t p n. (t, p, None)) ?w ()"
  obtain w' where "makeRecoveryProofTree ref_recovery (ref_merkle demo_node) demo_cfg demo_node 1
      (Inr [(''layercache_0.bin'', False)]) demo_order ?w = Some (w', Ret (Inr [replicate 32 5]))"
    using demo_recovered_tree [of "replicate 32 5" "replicate 32 9" demo_node] by auto
  moreover obtain pr where "map_option (\<lambda>r. snd r) (generateProof (demo_sha True) (ref_merkle demo_node) demo_label (\<lambda>_. Stopped)
      ErrCanceled 1 (\<lambda>t p n. (t, p, None)) [replicate 32 5] (w', ()) 1) = Some ((w', ()), Inr (2, pr))"
    using demo_resumed_proof [of "demo_sha True" "(w', ())"] by blast
  ultimately have g: "?gen = Some (Ret ((w', ()), Inr (2, pr)))" by (auto simp: GenerateProofRecovery_def)
  have "Validate (demo_sha True) (ref_merkle demo_node) pr demo_label demo_node 2 1 = Some (Ret None)"
  proof (rule recovered_proof_is_valid [where leaves = "\<lambda>t. t" and rleaves = "\<lambda>r. r" and nodes = lw_nodes and at = lw_at
        and files = "[0 \<mapsto> layerFileName 0]" and k = 1 and saved = "[replicate 32 5]", OF _ _ _ _ _ _ _ _ _ g])
    show "recovery_contract ref_recovery (ref_merkle demo_node) demo_node (\<lambda>t. t) (\<lambda>r. r) lw_nodes lw_at"
      by (rule ref_recovery_contract) (simp add: demo_node_def)
    show "getLayersFiles (Inr [(''layercache_0.bin'', False)]) = Inr [0 \<mapsto> layerFileName 0]" by (rule demo_layer_files)
    show "files_upto [0 \<mapsto> layerFileName 0] 1" by (simp add: files_upto_def)
    show "visits_all demo_order [0 \<mapsto> layerFileName 0] 1"
      unfolding visits_all_def by (intro exI [of _ "[0]"]) (auto simp: demo_order_def)
    show "honest demo_label (ref_park demo_node) [replicate 32 5]" by (simp add: honest_def demo_label_def)
    show "layers_hold (lw_nodes ?w) demo_cfg demo_node 1 [replicate 32 5]"
      using demo_layerPath by (simp add: layers_hold_def lw_nodes_def demo_layers_def)
  qed (simp_all add: persist_keeps_def)
  with g show ?thesis by auto
qed

text \<open>
  C25: Lost nodes are noticed. If any layer file holds fewer nodes than the saved leaf count requires,
  recovery reports an error and starts no work: it neither panics nor goes on from a wrong tree.
\<close>

theorem recovery_refuses_lost_nodes:
  assumes "layer_file_ok R nodes at" and "layer_read_ok R nodes at"
    and "getLayersFiles readDir = Inr files" and "files_upto files k" and "visits_all order files k"
    and "layer < k" and "length (nodes w (layerPath treeCfg layer)) < unat nextLeafID div 2 ^ layer"
  shows "\<exists>w' err. GenerateProofRecovery R S M treeCfg readDir order lh mh sel ctxErr securityParam nextLeafID persist w st
    = Some (Ret ((w', st), Inl (err, 0)))"
proof -
  from assms(4) have k: "0 < k" "k \<le> 64" by (simp_all add: files_upto_def)
  obtain hs where hs: "distinct hs" "set hs = {..<k}" "order files = map (\<lambda>h. (of_nat h, layerFileName (of_nat h))) hs"
    using assms(5) unfolding visits_all_def by blast
  have lt: "\<forall>h \<in> set hs. h < 64" using hs(2) k by auto
  obtain w' r where r: "recoverLayers R treeCfg nextLeafID w Map.empty (order files) = (w', r)" by fastforce
  have "\<exists>err. r = Inl err"
  proof (cases r)
    case (Inr m)
    from recoverLayers_ok [OF assms(1,2) hs(1) lt r [unfolded hs(3) Inr], THEN conjunct1, THEN bspec, of layer] hs(2) assms(6,7)
    show ?thesis by simp
  qed simp
  moreover have "files 0 \<noteq> None" using assms(4) k(1) by (auto simp: files_upto_def map_of_eq_None_iff image_iff intro: bexI [of _ 0])
  ultimately show ?thesis
    using r assms(3) by (auto simp: GenerateProofRecovery_def makeRecoveryProofTree_def Let_def)
qed

theorem recovery_refuses_lost_nodes_witness:
  "\<exists>w' err. GenerateProofRecovery ref_recovery (demo_sha True) (ref_merkle demo_node) demo_cfg
     (Inr [(''layercache_0.bin'', False)]) demo_order demo_label demo_node (\<lambda>_. Stopped) ErrCanceled 1 3
     (\<lambda>t p n. (t, p, None)) (demo_layers ''d/layercache_0.bin'' [replicate 32 5, replicate 32 9]) ()
     = Some (Ret ((w', ()), Inl (err, 0)))"
proof (rule recovery_refuses_lost_nodes [OF ref_layer_file_ok ref_layer_read_ok demo_layer_files])
  show "files_upto [0 \<mapsto> layerFileName 0] 1" by (simp add: files_upto_def)
  show "visits_all demo_order [0 \<mapsto> layerFileName 0] 1"
    unfolding visits_all_def by (intro exI [of _ "[0]"]) (auto simp: demo_order_def)
  show "length (lw_nodes (demo_layers ''d/layercache_0.bin'' [replicate 32 5, replicate 32 9]) (layerPath demo_cfg 0))
      < unat (3 :: u64) div 2 ^ 0"
    using demo_layerPath by (simp add: lw_nodes_def demo_layers_def)
qed simp

end
