(* ===== verification/State.thy ===== *)
theory State
  imports Os Cert
begin

text \<open>
  Persistent state: \<open>state/state.go\<close> (a value is encoded and written atomically to one file) and the
  server's own state, \<open>server/state.go\<close> (the private key of the poet, which may also come from the
  environment).
\<close>

section \<open>\<open>state.Persist\<close> and \<open>state.Load\<close>\<close>

text \<open>The XDR package at one type of values.\<close>

record 'v xdr_codec =
  xc_Marshal :: "'v \<Rightarrow> goerr + bytes"
  xc_Unmarshal :: "reader \<Rightarrow> goerr + 'v"

definition Persist :: "'w os_api \<Rightarrow> 'v xdr_codec \<Rightarrow> 'w \<Rightarrow> string \<Rightarrow> 'v \<Rightarrow> 'w \<times> goerr option" where
  "Persist OS X w filename v =
     (case xc_Marshal X v of
        Inl err \<Rightarrow> (w, Some (Wrap ''serializing'' err))
      | Inr b \<Rightarrow>
          (case os_WriteFile OS w filename b of
             (w, Some err) \<Rightarrow> (w, Some (Wrap ''writing to disk'' err))
           | (w, None) \<Rightarrow> (w, None)))"

definition Load :: "'w os_api \<Rightarrow> 'v xdr_codec \<Rightarrow> 'w \<Rightarrow> string \<Rightarrow> goerr + 'v" where
  "Load OS X w filename =
     (case os_Open OS w filename of
        Inl err \<Rightarrow> Inl (Wrap ''loading file'' err)
      | Inr f \<Rightarrow>
          (case xc_Unmarshal X f of
             Inl err \<Rightarrow> Inl (Wrap ''deserializing'' err)
           | Inr v \<Rightarrow> Inr v))"

section \<open>Base64 (\<open>base64.StdEncoding\<close>)\<close>

definition b64_alphabet :: string where
  "b64_alphabet = ''ABCDEFGHIJKLMNOPQRSTUVWXYZabcdefghijklmnopqrstuvwxyz0123456789+/''"

fun index_of :: "'a \<Rightarrow> 'a list \<Rightarrow> nat option" where
  "index_of x [] = None"
| "index_of x (y # ys) = (if x = y then Some 0 else map_option Suc (index_of x ys))"

definition b64_value :: "char \<Rightarrow> nat option" where
  "b64_value c = index_of c b64_alphabet"

text \<open>
  Four characters give three bytes; the last group may be padded. The unused bits of a padded group
  are ignored, and nothing may follow it. Line breaks are skipped wherever they are.
\<close>

fun b64_groups :: "string \<Rightarrow> bytes option" where
  "b64_groups [] = Some []"
| "b64_groups (a # b # c # d # rest) =
     (case (b64_value a, b64_value b) of
        (Some x, Some y) \<Rightarrow>
          (case b64_value c of
             None \<Rightarrow> if c = CHR ''='' \<and> d = CHR ''='' \<and> rest = [] then Some [of_nat (x * 4 + y div 16)] else None
           | Some z \<Rightarrow>
               (case b64_value d of
                  None \<Rightarrow>
                    if d = CHR ''='' \<and> rest = []
                    then Some [of_nat (x * 4 + y div 16), of_nat (y mod 16 * 16 + z div 4)] else None
                | Some u \<Rightarrow>
                    map_option (\<lambda>bs. of_nat (x * 4 + y div 16) # of_nat (y mod 16 * 16 + z div 4)
                      # of_nat (z mod 4 * 64 + u) # bs) (b64_groups rest)))
      | _ \<Rightarrow> None)"
| "b64_groups _ = None"

definition DecodeString :: "string \<Rightarrow> goerr + bytes" where
  "DecodeString s =
     (case b64_groups (filter (\<lambda>c. c \<noteq> CHR 0x0A \<and> c \<noteq> CHR 0x0D) s) of
        None \<Rightarrow> Inl (Opaque ''illegal base64 data'')
      | Some bs \<Rightarrow> Inr bs)"

section \<open>The server's state\<close>

record serverState =
  PrivKey :: bytes

definition stateFilename :: string where
  "stateFilename = ''state.bin''"

definition ed25519_PrivateKeySize :: nat where
  "ed25519_PrivateKeySize = 64"

definition envKeyOf :: "string \<Rightarrow> goerr + bytes option" where
  "envKeyOf envKey =
     (if envKey = '''' then Inr None
      else (case DecodeString envKey of
          Inl err \<Rightarrow> Inl (Wrap ''decoding private key'' err)
        | Inr key \<Rightarrow>
            if length key \<noteq> ed25519_PrivateKeySize then Inl (Opaque ''invalid private key length'')
            else Inr (Some key)))"

text \<open>\<open>genKey\<close> is the result of \<open>ed25519.GenerateKey\<close>: the new private key or an error.\<close>

definition loadState ::
  "'w os_api \<Rightarrow> serverState xdr_codec \<Rightarrow> 'w \<Rightarrow> goerr + bytes \<Rightarrow> string \<Rightarrow> string \<Rightarrow> goerr + serverState" where
  "loadState OS X w genKey datadir envKey =
     (case envKeyOf envKey of
        Inl err \<Rightarrow> Inl err
      | Inr key \<Rightarrow>
          (case Load OS X w (filepath_Join [datadir, stateFilename]) of
             Inl err \<Rightarrow>
               if errors_Is err ErrNotExist
               then (case key of
                   None \<Rightarrow>
                     (case genKey of
                        Inl e \<Rightarrow> Inl (Wrap ''generating key'' e)
                      | Inr privateKey \<Rightarrow> Inr \<lparr>PrivKey = privateKey\<rparr>)
                 | Some k \<Rightarrow> Inr \<lparr>PrivKey = k\<rparr>)
               else Inl (Wrap ''loading state'' err)
           | Inr s \<Rightarrow>
               if key \<noteq> None \<and> key \<noteq> Some (PrivKey s)
               then Inl (Opaque ''private key mismatch. env != state.bin'')
               else Inr s))"

definition saveState ::
  "'w os_api \<Rightarrow> serverState xdr_codec \<Rightarrow> 'w \<Rightarrow> string \<Rightarrow> serverState \<Rightarrow> 'w \<times> goerr option" where
  "saveState OS X w datadir s = Persist OS X w (filepath_Join [datadir, stateFilename]) s"

section \<open>What the code relies on\<close>

text \<open>Decoding a file that holds the encoding of a value gives the value.\<close>

definition codec_ok :: "'v xdr_codec \<Rightarrow> bool" where
  "codec_ok X \<longleftrightarrow> (\<forall>v b. xc_Marshal X v = Inr b \<longrightarrow> xc_Unmarshal X (b, None) = Inr v)"

section \<open>Lemmas\<close>

lemma Persist_cases:
  assumes "os_write_ok OS file" and "Persist OS X w p v = (w', r)"
  obtains (written) b where "r = None" "xc_Marshal X v = Inr b" "file w' p = Some b"
    | (failed) e where "r = Some e" "file w' p = file w p \<or> (\<exists>b. xc_Marshal X v = Inr b \<and> file w' p = Some b)"
proof (cases "xc_Marshal X v")
  case (Inl e)
  with assms(2) failed show ?thesis by (auto simp: Persist_def)
next
  case (Inr b)
  obtain w1 e where wr: "os_WriteFile OS w p b = (w1, e)" by fastforce
  show ?thesis
  proof (cases e)
    case None
    with wr Inr assms have "r = None" "w' = w1" "file w1 p = Some b"
      by (auto simp: Persist_def os_write_ok_def)
    with Inr written show ?thesis by blast
  next
    case (Some err)
    with wr Inr assms(2) have r: "r = Some (Wrap ''writing to disk'' err)" "w' = w1" by (simp_all add: Persist_def)
    from wr Some assms(1) have "file w1 p = file w p \<or> file w1 p = Some b" unfolding os_write_ok_def by blast
    with r Inr failed show ?thesis by blast
  qed
qed

lemma Load_stored:
  assumes "os_open_ok OS file" "codec_ok X" "readable OS w p" "file w p = Some b" "xc_Marshal X v = Inr b"
  shows "Load OS X w p = Inr v"
proof -
  have "xc_Unmarshal X (b, None) = Inr v" using assms(2,5) unfolding codec_ok_def by blast
  then show ?thesis by (simp add: Load_def readable_Open(1) [OF assms(1,3,4)])
qed

lemma Load_missing:
  assumes "os_open_ok OS file" "readable OS w p" "file w p = None"
  shows "\<exists>e. Load OS X w p = Inl e \<and> errors_Is e ErrNotExist"
  using readable_Open(2) [OF assms] by (auto simp: Load_def)

lemma Load_same_file:
  assumes "os_open_ok OS file" "readable OS w p" "readable OS w' p" "file w' p = file w p"
  shows "Load OS X w' p = Load OS X w p \<or>
    (\<exists>e e'. Load OS X w p = Inl e \<and> Load OS X w' p = Inl e' \<and> errors_Is e ErrNotExist \<and> errors_Is e' ErrNotExist)"
proof (cases "file w p")
  case None
  with Load_missing [OF assms(1,2) None, of X] Load_missing [OF assms(1,3), of X] assms(4) show ?thesis by auto
next
  case (Some b)
  with readable_Open(1) [OF assms(1,2) Some] readable_Open(1) [OF assms(1,3), of b] assms(4)
  show ?thesis by (simp add: Load_def)
qed

lemma Persist_Load:
  assumes "os_contract OS file" "codec_ok X" "Persist OS X w p v = (w', None)" "readable OS w' p"
  shows "Load OS X w' p = Inr v"
proof -
  from assms(1) have o: "os_open_ok OS file" and wr: "os_write_ok OS file" by (simp_all add: os_contract_def)
  obtain b where "xc_Marshal X v = Inr b" "file w' p = Some b"
    using Persist_cases [OF wr assms(3)] by auto
  with Load_stored [OF o assms(2,4)] show ?thesis by blast
qed

section \<open>A concrete codec\<close>

definition key_codec :: "serverState xdr_codec" where
  "key_codec = \<lparr>xc_Marshal = (\<lambda>s. Inr (PrivKey s)),
     xc_Unmarshal = (\<lambda>(b, e). case e of None \<Rightarrow> Inr \<lparr>PrivKey = b\<rparr> | Some err \<Rightarrow> Inl err)\<rparr>"

lemma key_codec_ok: "codec_ok key_codec"
  by (simp add: codec_ok_def key_codec_def)

definition empty_world :: os_world where
  "empty_world = \<lparr>ow_files = [], ow_dirs = []\<rparr>"

section \<open>Properties\<close>

text \<open>
  C23: Saving is atomic. Whether \<open>Persist\<close> succeeds or fails, loading the file afterwards gives the
  new value, or the value that loading gave before, or reports the file as missing where it was
  missing before; success always gives the new value. No half-written state is ever loaded.
\<close>

theorem save_is_atomic:
  assumes "os_contract OS file" and "codec_ok X" and "Persist OS X w p v = (w', r)"
    and "readable OS w p" and "readable OS w' p"
  shows "(r = None \<longrightarrow> Load OS X w' p = Inr v) \<and>
    (Load OS X w' p = Inr v \<or> Load OS X w' p = Load OS X w p \<or>
     (\<exists>e e'. Load OS X w p = Inl e \<and> Load OS X w' p = Inl e' \<and> errors_Is e ErrNotExist \<and> errors_Is e' ErrNotExist))"
proof -
  from assms(1) have o: "os_open_ok OS file" and wr: "os_write_ok OS file" by (simp_all add: os_contract_def)
  show ?thesis
  proof (rule Persist_cases [OF wr assms(3)])
    fix b assume "xc_Marshal X v = Inr b" "file w' p = Some b"
    with Load_stored [OF o assms(2,5)] show ?thesis by simp
  next
    fix e assume r: "r = Some e"
      and "file w' p = file w p \<or> (\<exists>b. xc_Marshal X v = Inr b \<and> file w' p = Some b)"
    then show ?thesis using Load_same_file [OF o assms(4,5)] Load_stored [OF o assms(2,5)] by auto
  qed
qed

theorem save_is_atomic_witness:
  "Load ref_os key_codec (fst (Persist ref_os key_codec empty_world ''state.bin'' \<lparr>PrivKey = [7]\<rparr>)) ''state.bin''
     = Inr \<lparr>PrivKey = [7]\<rparr>"
proof -
  have p: "Persist ref_os key_codec empty_world ''state.bin'' \<lparr>PrivKey = [7]\<rparr>
      = (empty_world\<lparr>ow_files := [(''state.bin'', [7])]\<rparr>, None)"
    by (simp add: Persist_def key_codec_def ref_os_def empty_world_def)
  show ?thesis
    using save_is_atomic [OF ref_os_contract key_codec_ok p ref_os_readable ref_os_readable] by (simp add: p)
qed

text \<open>
  The identity of a poet is stable. Once the state that \<open>loadState\<close> returned was saved, every
  later start returns the same private key, whatever a key generator would give: without a key in the
  environment, or with the same one. A start with another key is refused.
\<close>

lemma server_identity_is_stable:
  assumes "os_contract OS file" and "codec_ok X"
    and "loadState OS X w genKey datadir envKey = Inr s" and "saveState OS X w datadir s = (w', None)"
    and "readable OS w' (filepath_Join [datadir, stateFilename])"
  shows "loadState OS X w' genKey' datadir '''' = Inr s \<and>
    loadState OS X w' genKey' datadir envKey = Inr s \<and>
    (\<forall>env k. envKeyOf env = Inr (Some k) \<and> k \<noteq> PrivKey s \<longrightarrow>
       loadState OS X w' genKey' datadir env = Inl (Opaque ''private key mismatch. env != state.bin''))"
proof -
  have L: "Load OS X w' (filepath_Join [datadir, stateFilename]) = Inr s"
    by (rule Persist_Load [OF assms(1,2) assms(4) [unfolded saveState_def] assms(5)])
  obtain key where key: "envKeyOf envKey = Inr key" and "key = None \<or> key = Some (PrivKey s)"
    using assms(3) by (auto simp: loadState_def split: sum.splits if_splits option.splits)
  with L show ?thesis by (auto simp: loadState_def envKeyOf_def [of "[]"])
qed

end
