(* ===== verification/Worker_Round.thy ===== *)
theory Worker_Round
  imports Prover_Recovery State Schedule
begin

text \<open>
  A round of the worker (\<open>service/round.go\<close>): the execution state that is kept on disk beside the
  layer files, creating or reopening a round, executing it, resuming an interrupted execution, and
  tearing it down. Logging and metrics are left out.
\<close>

section \<open>State\<close>

text \<open>What is written to \<open>state.bin\<close>; a \<open>nil\<close> pointer is \<open>None\<close>.\<close>

record persistedRoundState =
  ps_SecurityParam :: u8
  ps_Members :: "bytes list"
  ps_Statement :: bytes
  ps_ParkedNodes :: "bytes list"
  ps_NumLeaves :: u64
  ps_NIP :: "MerkleProof option"

record roundState =
  rs_ExecutionStarted :: gotime
  rs_Execution :: "persistedRoundState option"

record executionState =
  ex_SecurityParam :: u8
  ex_Statement :: bytes
  ex_NumLeaves :: u64
  ex_NIP :: "MerkleProof option"

record wround =
  wr_epoch :: uint
  wr_datadir :: string
  wr_ID :: string
  wr_executionStarted :: gotime
  wr_execution :: executionState

text \<open>The packages that a round calls, over one file system \<open>'w\<close>.\<close>

record ('w, 'l, 't, 'rd, 'cw, 'ly) wk_libs =
  wl_os :: "'w os_api"
  wl_xdr :: "roundState xdr_codec"
  wl_sha :: sha256_api
  wl_mk :: "('t, 'rd) merkle_api"
  wl_rec :: "('w, 'l, 't, 'rd, 'cw, 'ly) recovery_api"
  wl_order :: "(uint \<rightharpoonup> string) \<Rightarrow> (uint \<times> string) list"

definition roundStateFileBaseName :: string where
  "roundStateFileBaseName = ''state.bin''"

definition stateFile :: "wround \<Rightarrow> string" where
  "stateFile r = filepath_Join [wr_datadir r, roundStateFileBaseName]"

definition IsFinished :: "wround \<Rightarrow> bool" where
  "IsFinished r \<longleftrightarrow> ex_NIP (wr_execution r) \<noteq> None"

definition WithMembershipRoot :: "bytes \<Rightarrow> wround \<Rightarrow> wround" where
  "WithMembershipRoot root r = r\<lparr>wr_execution := (wr_execution r)\<lparr>ex_Statement := root\<rparr>\<rparr>"

section \<open>Saving and loading\<close>

definition persistedOf :: "wround \<Rightarrow> roundState" where
  "persistedOf r =
     \<lparr>rs_ExecutionStarted = wr_executionStarted r,
      rs_Execution = Some \<lparr>ps_SecurityParam = ex_SecurityParam (wr_execution r), ps_Members = [],
        ps_Statement = ex_Statement (wr_execution r), ps_ParkedNodes = [],
        ps_NumLeaves = ex_NumLeaves (wr_execution r), ps_NIP = ex_NIP (wr_execution r)\<rparr>\<rparr>"

definition round_saveState ::
  "('w, 'l, 't, 'rd, 'cw, 'ly) wk_libs \<Rightarrow> 'w \<Rightarrow> wround \<Rightarrow> 'w \<times> goerr option" where
  "round_saveState L w r =
     (case Persist (wl_os L) (wl_xdr L) w (stateFile r) (persistedOf r) of
        (w, Some err) \<Rightarrow> (w, Some (Wrap ''persisting state'' err))
      | (w, None) \<Rightarrow> (w, None))"

text \<open>A state file without an execution makes \<open>loadState\<close> follow a \<open>nil\<close> pointer.\<close>

definition round_loadState ::
  "('w, 'l, 't, 'rd, 'cw, 'ly) wk_libs \<Rightarrow> 'w \<Rightarrow> wround \<Rightarrow> (wround \<times> goerr option) outcome" where
  "round_loadState L w r =
     (case Load (wl_os L) (wl_xdr L) w (stateFile r) of
        Inl err \<Rightarrow> Ret (r, Some (Wrap ''loading state'' err))
      | Inr s \<Rightarrow>
          (case rs_Execution s of
             None \<Rightarrow> Panic
           | Some e \<Rightarrow>
               if ex_SecurityParam (wr_execution r) \<noteq> ps_SecurityParam e
               then Ret (r, Some (Opaque ''SecurityParam config mismatch''))
               else Ret (r\<lparr>wr_execution := \<lparr>ex_SecurityParam = ps_SecurityParam e, ex_Statement = ps_Statement e,
                            ex_NumLeaves = ps_NumLeaves e, ex_NIP = ps_NIP e\<rparr>,
                          wr_executionStarted := rs_ExecutionStarted s\<rparr>, None)))"

definition freshRound :: "string \<Rightarrow> uint \<Rightarrow> wround" where
  "freshRound datadir epoch =
     \<lparr>wr_epoch = epoch, wr_datadir = filepath_Join [datadir, FormatUint epoch], wr_ID = FormatUint epoch,
      wr_executionStarted = zeroTime,
      wr_execution = \<lparr>ex_SecurityParam = T, ex_Statement = [], ex_NumLeaves = 0, ex_NIP = None\<rparr>\<rparr>"

definition NewRound ::
  "('w, 'l, 't, 'rd, 'cw, 'ly) wk_libs \<Rightarrow> 'w \<Rightarrow> string \<Rightarrow> uint \<Rightarrow> (wround \<Rightarrow> wround) list \<Rightarrow>
   ('w \<times> (goerr + wround)) outcome" where
  "NewRound L w datadir epoch opts =
     (case os_MkdirAll (wl_os L) w (filepath_Join [datadir, FormatUint epoch]) of
        (w, Some err) \<Rightarrow> Ret (w, Inl (Wrap ''creating round datadir'' err))
      | (w, None) \<Rightarrow>
          let r = foldl (\<lambda>r opt. opt r) (freshRound datadir epoch) opts in
          (case round_loadState L w r of
             Panic \<Rightarrow> Panic
           | Ret (r, None) \<Rightarrow> Ret (w, Inr r)
           | Ret (r, Some err) \<Rightarrow>
               if errors_Is err ErrNotExist
               then (case round_saveState L w r of
                   (w, Some err) \<Rightarrow> Ret (w, Inl err)
                 | (w, None) \<Rightarrow> Ret (w, Inr r))
               else Ret (w, Inl err)))"

section \<open>Execution\<close>

text \<open>The hash functions of a round: fresh closures over its statement.\<close>

definition labelHashFuncOf :: "sha256_api \<Rightarrow> bytes \<Rightarrow> bytes \<Rightarrow> bytes" where
  "labelHashFuncOf S statement data = snd (GenLabelHashFunc S statement ([], replicate 32 0) data)"

definition merkleHashFuncOf :: "sha256_api \<Rightarrow> bytes \<Rightarrow> merkle_hash" where
  "merkleHashFuncOf S statement l r = snd (GenMerkleHashFunc S statement [] ([], l, r))"

definition persistExecution ::
  "('w, 'l, 't, 'rd, 'cw, 'ly) wk_libs \<Rightarrow> ('t, 'w \<times> wround) persist_fun" where
  "persistExecution L treeCache st numLeaves =
     (case st of (w, r) \<Rightarrow>
      (case mk_GetReader (wl_mk L) treeCache of
         (treeCache, Inl err) \<Rightarrow> (treeCache, (w, r), Some err)
       | (treeCache, Inr _) \<Rightarrow>
           let r = r\<lparr>wr_execution := (wr_execution r)\<lparr>ex_NumLeaves := numLeaves\<rparr>\<rparr> in
           (case round_saveState L w r of (w, err) \<Rightarrow> (treeCache, (w, r), err))))"

definition finishExecution ::
  "('w, 'l, 't, 'rd, 'cw, 'ly) wk_libs \<Rightarrow> 'w \<Rightarrow> wround \<Rightarrow> u64 \<Rightarrow> MerkleProof \<Rightarrow> 'w \<times> wround \<times> goerr option" where
  "finishExecution L w r numLeaves nip =
     (let r = r\<lparr>wr_execution := (wr_execution r)\<lparr>ex_NumLeaves := numLeaves, ex_NIP := Some nip\<rparr>\<rparr>
      in case round_saveState L w r of (w, err) \<Rightarrow> (w, r, err))"

text \<open>
  \<open>sel\<close> gives, for a deadline, what each iteration of the work loop finds, and \<open>ctxErr\<close> is the error
  of a cancelled context. \<open>None\<close> is an execution that does not end.
\<close>

definition Execute ::
  "('w, 'l, 't, 'rd, 'cw, 'ly) wk_libs \<Rightarrow> (gotime \<Rightarrow> nat \<Rightarrow> tick) \<Rightarrow> goerr \<Rightarrow> gotime \<Rightarrow> 'w \<Rightarrow> wround \<Rightarrow> gotime \<Rightarrow>
   uint \<Rightarrow> uint \<Rightarrow> ('w \<times> wround \<times> goerr option) option" where
  "Execute L sel ctxErr now w r endTime minMemoryLayer fileWriterBufSize =
     (let r = r\<lparr>wr_executionStarted := now\<rparr> in
      (case round_saveState L w r of
         (w, Some err) \<Rightarrow> Some (w, r, Some err)
       | (w, None) \<Rightarrow>
           (case GenerateProof (wl_sha L) (wl_mk L)
                   \<lparr>MinMemoryLayer = minMemoryLayer, Datadir = wr_datadir r, FileWriterBufSize = fileWriterBufSize\<rparr>
                   (os_ReadDir (wl_os L) w (wr_datadir r))
                   (labelHashFuncOf (wl_sha L) (ex_Statement (wr_execution r)))
                   (merkleHashFuncOf (wl_sha L) (ex_Statement (wr_execution r)))
                   (sel endTime) ctxErr (ex_SecurityParam (wr_execution r)) (persistExecution L) (w, r) of
              None \<Rightarrow> None
            | Some ((w, r), Inl (err, _)) \<Rightarrow> Some (w, r, Some (Wrap ''generating proof'' err))
            | Some ((w, r), Inr (numLeaves, nip)) \<Rightarrow> Some (finishExecution L w r numLeaves nip))))"

definition RecoverExecution ::
  "('w, 'l, 't, 'rd, 'cw, 'ly) wk_libs \<Rightarrow> (gotime \<Rightarrow> nat \<Rightarrow> tick) \<Rightarrow> goerr \<Rightarrow> 'w \<Rightarrow> wround \<Rightarrow> gotime \<Rightarrow> uint \<Rightarrow>
   ('w \<times> wround \<times> goerr option) outcome option" where
  "RecoverExecution L sel ctxErr w r endTime fileWriterBufSize =
     (case GenerateProofRecovery (wl_rec L) (wl_sha L) (wl_mk L)
             \<lparr>MinMemoryLayer = 0, Datadir = wr_datadir r, FileWriterBufSize = fileWriterBufSize\<rparr>
             (os_ReadDir (wl_os L) w (wr_datadir r)) (wl_order L)
             (labelHashFuncOf (wl_sha L) (ex_Statement (wr_execution r)))
             (merkleHashFuncOf (wl_sha L) (ex_Statement (wr_execution r)))
             (sel endTime) ctxErr (ex_SecurityParam (wr_execution r)) (ex_NumLeaves (wr_execution r))
             (persistExecution L) w r of
        None \<Rightarrow> None
      | Some Panic \<Rightarrow> Some Panic
      | Some (Ret ((w, r), Inl (err, _))) \<Rightarrow> Some (Ret (w, r, Some err))
      | Some (Ret ((w, r), Inr (numLeaves, nip))) \<Rightarrow> Some (Ret (finishExecution L w r numLeaves nip)))"

definition Teardown ::
  "('w, 'l, 't, 'rd, 'cw, 'ly) wk_libs \<Rightarrow> 'w \<Rightarrow> wround \<Rightarrow> bool \<Rightarrow> 'w \<times> goerr option" where
  "Teardown L w r cleanup =
     (if cleanup then os_RemoveAll (wl_os L) w (wr_datadir r) else round_saveState L w r)"

section \<open>Lemmas\<close>

text \<open>A round as \<open>NewRound\<close> makes it, in a rounds directory \<open>datadir\<close>.\<close>

definition round_ok :: "string \<Rightarrow> wround \<Rightarrow> bool" where
  "round_ok datadir r \<longleftrightarrow> wr_datadir r = filepath_Join [datadir, FormatUint (wr_epoch r)] \<and>
     wr_ID r = FormatUint (wr_epoch r) \<and> ex_SecurityParam (wr_execution r) = T"

text \<open>Two states of one round that differ in the leaf count at most.\<close>

definition same_round :: "wround \<Rightarrow> wround \<Rightarrow> bool" where
  "same_round r r' \<longleftrightarrow>
     wr_epoch r' = wr_epoch r \<and> wr_datadir r' = wr_datadir r \<and> wr_ID r' = wr_ID r \<and>
     wr_executionStarted r' = wr_executionStarted r \<and>
     ex_SecurityParam (wr_execution r') = ex_SecurityParam (wr_execution r) \<and>
     ex_Statement (wr_execution r') = ex_Statement (wr_execution r) \<and>
     ex_NIP (wr_execution r') = ex_NIP (wr_execution r)"

lemma same_round_refl [simp]: "same_round r r"
  by (simp add: same_round_def)

lemma round_saveState_Persist:
  "round_saveState L w r = (w', None) \<longleftrightarrow> Persist (wl_os L) (wl_xdr L) w (stateFile r) (persistedOf r) = (w', None)"
  by (auto simp: round_saveState_def split: prod.splits option.splits)

lemma persistExecution_keeps:
  assumes "reader_ok (wl_mk L) leaves rleaves"
  shows "persist_keeps leaves (persistExecution L)"
  using assms unfolding persist_keeps_def reader_ok_def
  by (auto simp: persistExecution_def Let_def split: prod.splits sum.splits)

lemma persistExecution_same: "persist_inv (\<lambda>(w, r'). same_round r r') (persistExecution L)"
  by (auto simp: persist_inv_def persistExecution_def same_round_def Let_def split: prod.splits sum.splits)

lemma merkle_contract_reader: "merkle_contract M mh leaves rleaves park \<Longrightarrow> reader_ok M leaves rleaves"
  by (simp add: merkle_contract_def)

lemma round_loadState_saved:
  assumes "os_contract (wl_os L) file" and "codec_ok (wl_xdr L)" and "readable (wl_os L) w (stateFile r)"
    and "file w (stateFile r) = Some b" and "xc_Marshal (wl_xdr L) (persistedOf s) = Inr b"
    and "ex_SecurityParam (wr_execution r) = ex_SecurityParam (wr_execution s)"
  shows "round_loadState L w r = Ret (r\<lparr>wr_execution := wr_execution s, wr_executionStarted := wr_executionStarted s\<rparr>, None)"
proof -
  have o: "os_open_ok (wl_os L) file" using assms(1) by (simp add: os_contract_def)
  have "Load (wl_os L) (wl_xdr L) w (stateFile r) = Inr (persistedOf s)"
    by (rule Load_stored [OF o assms(2-5)])
  with assms(6) show ?thesis by (simp add: round_loadState_def persistedOf_def)
qed

lemma options_round:
  "foldl (\<lambda>r opt. opt r) r (map WithMembershipRoot roots)
     = r\<lparr>wr_execution := (wr_execution r)\<lparr>ex_Statement := (if roots = [] then ex_Statement (wr_execution r) else last roots)\<rparr>\<rparr>"
  by (induction roots arbitrary: r) (simp_all add: WithMembershipRoot_def)

lemma NewRound_saved:
  assumes "os_contract (wl_os L) file" and "codec_ok (wl_xdr L)" and "round_ok datadir r"
    and "round_saveState L w r = (w1, None)"
    and "os_MkdirAll (wl_os L) w1 (wr_datadir r) = (w2, None)" and "readable (wl_os L) w2 (stateFile r)"
  shows "NewRound L w1 datadir (wr_epoch r) (map WithMembershipRoot roots) = Ret (w2, Inr r)"
proof -
  let ?f = "foldl (\<lambda>r opt. opt r) (freshRound datadir (wr_epoch r)) (map WithMembershipRoot roots)"
  have f: "stateFile ?f = stateFile r" and sp: "ex_SecurityParam (wr_execution ?f) = ex_SecurityParam (wr_execution r)"
    using assms(3) by (simp_all add: options_round stateFile_def freshRound_def round_ok_def)
  from assms(1) have wr: "os_write_ok (wl_os L) file" and d: "os_dirs_ok (wl_os L) file" by (simp_all add: os_contract_def)
  obtain b where m: "xc_Marshal (wl_xdr L) (persistedOf r) = Inr b" and b: "file w1 (stateFile r) = Some b"
    using Persist_cases [OF wr assms(4) [unfolded round_saveState_Persist]] by auto
  have "file w2 = file w1" using d assms(5) unfolding os_dirs_ok_def by blast
  then have "round_loadState L w2 ?f
      = Ret (?f\<lparr>wr_execution := wr_execution r, wr_executionStarted := wr_executionStarted r\<rparr>, None)"
    using round_loadState_saved [OF assms(1,2) _ _ m sp, of w2] assms(6) b f by simp
  moreover have "?f\<lparr>wr_execution := wr_execution r, wr_executionStarted := wr_executionStarted r\<rparr> = r"
    using assms(3) by (simp add: options_round freshRound_def round_ok_def)
  ultimately show ?thesis using assms(3,5) by (simp add: NewRound_def round_ok_def)
qed

section \<open>Properties of a round\<close>

text \<open>
  C26: The state of an execution survives a restart. When the state of a round was saved, opening the
  round again gives back exactly that round: its statement, leaf count, start time and proof. This
  holds also when the round is opened with a membership root, which the saved statement overrides.
\<close>

theorem round_survives_restart:
  assumes "os_contract (wl_os L) file" and "codec_ok (wl_xdr L)" and "round_ok datadir r"
    and "round_saveState L w r = (w1, None)"
    and "os_MkdirAll (wl_os L) w1 (wr_datadir r) = (w2, None)" and "readable (wl_os L) w2 (stateFile r)"
  shows "NewRound L w1 datadir (wr_epoch r) (map WithMembershipRoot roots) = Ret (w2, Inr r)"
  by (rule NewRound_saved [OF assms])

section \<open>Lemmas on execution\<close>

text \<open>A finished round: its proof is accepted for its own statement and leaf count.\<close>

definition proof_valid :: "('w, 'l, 't, 'rd, 'cw, 'ly) wk_libs \<Rightarrow> bytes \<Rightarrow> u8 \<Rightarrow> u64 \<Rightarrow> MerkleProof \<Rightarrow> bool" where
  "proof_valid L statement securityParam numLeaves nip \<longleftrightarrow>
     Validate (wl_sha L) (wl_mk L) nip (labelHashFuncOf (wl_sha L) statement) (merkleHashFuncOf (wl_sha L) statement)
       numLeaves securityParam = Some (Ret None)"

definition finished_from :: "('w, 'l, 't, 'rd, 'cw, 'ly) wk_libs \<Rightarrow> wround \<Rightarrow> wround \<Rightarrow> bool" where
  "finished_from L r r' \<longleftrightarrow>
     wr_epoch r' = wr_epoch r \<and> wr_datadir r' = wr_datadir r \<and> wr_ID r' = wr_ID r \<and>
     ex_SecurityParam (wr_execution r') = ex_SecurityParam (wr_execution r) \<and>
     ex_Statement (wr_execution r') = ex_Statement (wr_execution r) \<and>
     (\<exists>nip. ex_NIP (wr_execution r') = Some nip \<and>
        proof_valid L (ex_Statement (wr_execution r)) (ex_SecurityParam (wr_execution r)) (ex_NumLeaves (wr_execution r')) nip)"

lemma finishExecution_ok:
  assumes "finishExecution L w r1 n nip = (w', r', err)" and "same_round r r1"
    and "proof_valid L (ex_Statement (wr_execution r)) (ex_SecurityParam (wr_execution r)) n nip"
  shows "finished_from L r r'" and "err = None \<Longrightarrow> round_saveState L w r' = (w', None)"
  using assms by (auto simp: finishExecution_def finished_from_def same_round_def Let_def split: prod.splits)

lemma Execute_success:
  assumes C: "merkle_contract (wl_mk L) (merkleHashFuncOf (wl_sha L) (ex_Statement (wr_execution r))) leaves rleaves park"
    and sp: "0 < ex_SecurityParam (wr_execution r)"
    and ret: "Execute L sel ctxErr now w r endTime minMem buf = Some (w', r', None)"
  shows "finished_from L r r'" and "\<exists>w1. round_saveState L w1 r' = (w', None)"
proof -
  let ?r = "r\<lparr>wr_executionStarted := now\<rparr>"
  obtain w1 w2 r2 n nip where g: "GenerateProof (wl_sha L) (wl_mk L)
      \<lparr>MinMemoryLayer = minMem, Datadir = wr_datadir r, FileWriterBufSize = buf\<rparr>
      (os_ReadDir (wl_os L) w1 (wr_datadir r)) (labelHashFuncOf (wl_sha L) (ex_Statement (wr_execution r)))
      (merkleHashFuncOf (wl_sha L) (ex_Statement (wr_execution r))) (sel endTime) ctxErr
      (ex_SecurityParam (wr_execution r)) (persistExecution L) (w1, ?r) = Some ((w2, r2), Inr (n, nip))"
    and f: "finishExecution L w2 r2 n nip = (w', r', None)"
    using ret by (auto simp: Execute_def Let_def split: prod.splits option.splits sum.splits)
  have "same_round ?r r2"
    using GenerateProof_state [OF persistExecution_same [of ?r] _ g] by simp
  moreover have "proof_valid L (ex_Statement (wr_execution ?r)) (ex_SecurityParam (wr_execution ?r)) n nip"
    unfolding proof_valid_def
    using GenerateProof_valid [OF C persistExecution_keeps [OF merkle_contract_reader [OF C]] sp g] by simp
  ultimately have "finished_from L ?r r'" and s: "round_saveState L w2 r' = (w', None)"
    using finishExecution_ok [OF f, of ?r] by simp_all
  then show "finished_from L r r'" by (simp add: finished_from_def)
  from s show "\<exists>w1. round_saveState L w1 r' = (w', None)" by blast
qed

text \<open>What a crash must have left on disk for the execution of a round to be resumed.\<close>

definition resumable ::
  "('w, 'l, 't, 'rd, 'cw, 'ly) wk_libs \<Rightarrow> ('w \<Rightarrow> string \<Rightarrow> bytes list) \<Rightarrow> 'w \<Rightarrow> wround \<Rightarrow> uint \<Rightarrow> nat \<Rightarrow> bytes list \<Rightarrow> bool" where
  "resumable L nodes w r buf k saved \<longleftrightarrow>
     (let mh = merkleHashFuncOf (wl_sha L) (ex_Statement (wr_execution r)) in
      ex_NumLeaves (wr_execution r) = of_nat (length saved) \<and> length saved < 2 ^ 64 \<and>
      honest (labelHashFuncOf (wl_sha L) (ex_Statement (wr_execution r))) (ref_park mh) saved \<and>
      (\<exists>files. getLayersFiles (os_ReadDir (wl_os L) w (wr_datadir r)) = Inr files \<and> files_upto files k \<and>
         visits_all (wl_order L) files k) \<and>
      layers_hold (nodes w) \<lparr>MinMemoryLayer = 0, Datadir = wr_datadir r, FileWriterBufSize = buf\<rparr> mh k saved)"

lemma RecoverExecution_success:
  assumes C: "recovery_contract (wl_rec L) (wl_mk L) (merkleHashFuncOf (wl_sha L) (ex_Statement (wr_execution r)))
      leaves rleaves nodes at"
    and sp: "0 < ex_SecurityParam (wr_execution r)" and rs: "resumable L nodes w r buf k saved"
    and ret: "RecoverExecution L sel ctxErr w r endTime buf = Some (Ret (w', r', None))"
  shows "finished_from L r r'" and "\<exists>w1. round_saveState L w1 r' = (w', None)"
proof -
  let ?mh = "merkleHashFuncOf (wl_sha L) (ex_Statement (wr_execution r))"
  let ?lh = "labelHashFuncOf (wl_sha L) (ex_Statement (wr_execution r))"
  from C have R: "reader_ok (wl_mk L) leaves rleaves" by (simp add: recovery_contract_def merkle_contract_def)
  obtain files where n: "ex_NumLeaves (wr_execution r) = of_nat (length saved)" "length saved < 2 ^ 64"
    and hon: "honest ?lh (ref_park ?mh) saved"
    and fl: "getLayersFiles (os_ReadDir (wl_os L) w (wr_datadir r)) = Inr files" "files_upto files k"
      "visits_all (wl_order L) files k"
    and ly: "layers_hold (nodes w) \<lparr>MinMemoryLayer = 0, Datadir = wr_datadir r, FileWriterBufSize = buf\<rparr> ?mh k saved"
    using rs unfolding resumable_def Let_def by blast
  obtain w2 r2 numLeaves nip where g: "GenerateProofRecovery (wl_rec L) (wl_sha L) (wl_mk L)
      \<lparr>MinMemoryLayer = 0, Datadir = wr_datadir r, FileWriterBufSize = buf\<rparr>
      (os_ReadDir (wl_os L) w (wr_datadir r)) (wl_order L) ?lh ?mh (sel endTime) ctxErr
      (ex_SecurityParam (wr_execution r)) (of_nat (length saved)) (persistExecution L) w r
        = Some (Ret ((w2, r2), Inr (numLeaves, nip)))"
    and f: "finishExecution L w2 r2 numLeaves nip = (w', r', None)"
    using ret unfolding RecoverExecution_def n(1)
    by (auto split: prod.splits option.splits sum.splits outcome.splits)
  have "same_round r r2"
    using GenerateProofRecovery_state [OF persistExecution_same [of r] _ g] by simp
  moreover have "proof_valid L (ex_Statement (wr_execution r)) (ex_SecurityParam (wr_execution r)) numLeaves nip"
    unfolding proof_valid_def
    by (rule GenerateProofRecovery_valid [OF C persistExecution_keeps [OF R] sp fl hon n(2) ly g])
  ultimately show "finished_from L r r'" and "\<exists>w1. round_saveState L w1 r' = (w', None)"
    using finishExecution_ok [OF f] by blast+
qed

lemma Execute_returns:
  assumes S: "\<forall>w r. snd (round_saveState L w r) = None" and M: "library_undisturbed (wl_mk L)"
    and F: "selection_returns (wl_sha L) (ex_SecurityParam (wr_execution r))"
    and D: "getLayersFiles (os_ReadDir (wl_os L) (fst (round_saveState L w (r\<lparr>wr_executionStarted := now\<rparr>))) (wr_datadir r))
      = Inr Map.empty"
    and sel: "\<forall>k. sel endTime k \<noteq> Cancelled" "\<forall>k \<ge> K. sel endTime k = Stopped"
  shows "\<exists>w' r' nip. Execute L sel e now w r endTime minMem buf = Some (w', r', None) \<and>
    ex_NIP (wr_execution r') = Some nip \<and> wr_epoch r' = wr_epoch r"
proof -
  let ?r = "r\<lparr>wr_executionStarted := now\<rparr>"
  have sv: "\<exists>w'. round_saveState L w r = (w', None)" for w r using S by (metis prod.collapse)
  obtain w1 where w1: "round_saveState L w ?r = (w1, None)" using sv by blast
  have P: "\<forall>t p n. snd (snd (persistExecution L t p n)) = None"
  proof (intro allI, goal_cases)
    case (1 t p n)
    obtain t' rd where g: "mk_GetReader (wl_mk L) t = (t', Inr rd)" using M unfolding library_undisturbed_def by blast
    obtain w0 r0 where p: "p = (w0, r0)" by fastforce
    obtain w2 where "round_saveState L w0 (r0\<lparr>wr_execution := (wr_execution r0)\<lparr>ex_NumLeaves := n\<rparr>\<rparr>) = (w2, None)"
      using sv by blast
    with g p show ?case by (simp add: persistExecution_def)
  qed
  obtain st' n pf where g: "GenerateProof (wl_sha L) (wl_mk L)
      \<lparr>MinMemoryLayer = minMem, Datadir = wr_datadir r, FileWriterBufSize = buf\<rparr>
      (os_ReadDir (wl_os L) w1 (wr_datadir r)) (labelHashFuncOf (wl_sha L) (ex_Statement (wr_execution r)))
      (merkleHashFuncOf (wl_sha L) (ex_Statement (wr_execution r))) (sel endTime) e
      (ex_SecurityParam (wr_execution r)) (persistExecution L) (w1, ?r) = Some (st', Inr (n, pf))"
    using GenerateProof_returns [OF M P sel F] D w1 by fastforce
  obtain w2 r2 where st: "st' = (w2, r2)" by fastforce
  have "same_round ?r r2" using GenerateProof_state [OF persistExecution_same [of ?r] _ g] st by simp
  then have ep: "wr_epoch r2 = wr_epoch r" by (simp add: same_round_def)
  let ?r3 = "r2\<lparr>wr_execution := (wr_execution r2)\<lparr>ex_NumLeaves := n, ex_NIP := Some pf\<rparr>\<rparr>"
  obtain w3 where "round_saveState L w2 ?r3 = (w3, None)" using sv by blast
  with w1 g st have "Execute L sel e now w r endTime minMem buf = Some (w3, ?r3, None)"
    by (simp add: Execute_def finishExecution_def Let_def)
  with ep show ?thesis by (intro exI [of _ w3] exI [of _ ?r3] exI [of _ pf]) simp
qed

section \<open>A concrete worker\<close>

text \<open>A file system made of two parts: ordinary files and layer files.\<close>

definition lift_os :: "'a os_api \<Rightarrow> ('a \<times> 'b) os_api" where
  "lift_os OS =
     \<lparr>os_Open = (\<lambda>w p. os_Open OS (fst w) p),
      os_WriteFile = (\<lambda>w p x. apfst (\<lambda>a. (a, snd w)) (os_WriteFile OS (fst w) p x)),
      os_MkdirAll = (\<lambda>w p. apfst (\<lambda>a. (a, snd w)) (os_MkdirAll OS (fst w) p)),
      os_ReadDir = (\<lambda>w p. os_ReadDir OS (fst w) p),
      os_RemoveAll = (\<lambda>w p. apfst (\<lambda>a. (a, snd w)) (os_RemoveAll OS (fst w) p))\<rparr>"

definition lift_rec ::
  "('b, 'l, 't, 'rd, 'cw, 'ly) recovery_api \<Rightarrow> ('a \<times> 'b, 'l, 't, 'rd, 'cw, 'ly) recovery_api" where
  "lift_rec R =
     \<lparr>rc_OpenLayer = (\<lambda>w st. apfst (Pair (fst w)) (rc_OpenLayer R (snd w) st)),
      rc_Width = (\<lambda>w l. rc_Width R (snd w) l),
      rc_Seek = (\<lambda>w l k. apfst (Pair (fst w)) (rc_Seek R (snd w) l k)),
      rc_ReadNext = (\<lambda>w l. apfst (Pair (fst w)) (rc_ReadNext R (snd w) l)),
      rc_Truncate = (\<lambda>w p k. apfst (Pair (fst w)) (rc_Truncate R (snd w) p k)),
      rc_NewWriter = rc_NewWriter R, rc_SetLayer = rc_SetLayer R, rc_Layers = rc_Layers R,
      rc_Build = (\<lambda>w mh cw. rc_Build R (snd w) mh cw),
      rc_SetParkedNodes = rc_SetParkedNodes R\<rparr>"

lemma apfst_eq_iff: "apfst f p = (a, b) \<longleftrightarrow> (\<exists>x. p = (x, b) \<and> f x = a)"
  by (cases p) auto

lemma lift_os_contract: "os_contract OS file \<Longrightarrow> os_contract (lift_os OS) (\<lambda>w. file (fst w))"
  by (auto simp: os_contract_def os_open_ok_def os_write_ok_def os_dirs_ok_def lift_os_def apfst_eq_iff)

lemma lift_os_readable [simp]: "readable (lift_os OS) w p \<longleftrightarrow> readable OS (fst w) p"
  by (simp add: readable_def lift_os_def)

lemma lift_rec_files: "layer_file_ok R nodes at \<Longrightarrow> layer_file_ok (lift_rec R) (\<lambda>w. nodes (snd w)) (\<lambda>w. at (snd w))"
  unfolding layer_file_ok_def by (auto simp: lift_rec_def apfst_eq_iff)

lemma lift_rec_read: "layer_read_ok R nodes at \<Longrightarrow> layer_read_ok (lift_rec R) (\<lambda>w. nodes (snd w)) (\<lambda>w. at (snd w))"
  unfolding layer_read_ok_def by (auto simp: lift_rec_def apfst_eq_iff)

lemma lift_rec_sel:
  "rc_NewWriter (lift_rec R) = rc_NewWriter R" "rc_SetLayer (lift_rec R) = rc_SetLayer R" "rc_Layers (lift_rec R) = rc_Layers R"
  "rc_SetParkedNodes (lift_rec R) = rc_SetParkedNodes R" "rc_Build (lift_rec R) w = rc_Build R (snd w)"
  by (simp_all add: lift_rec_def)

lemma lift_rec_restore:
  assumes "restore_ok R mh leaves rleaves nodes"
  shows "restore_ok (lift_rec R) mh leaves rleaves (\<lambda>w. nodes (snd w))"
  unfolding restore_ok_def recoveryWriter_def lift_rec_sel
proof (intro allI impI, goal_cases)
  case (1 w treeCfg k ls rd ps t t')
  then show ?case using assms [unfolded restore_ok_def recoveryWriter_def, rule_format, of k "snd w" treeCfg ls rd ps t t'] by simp
qed

lemma lift_rec_contract:
  "recovery_contract R M mh leaves rleaves nodes at \<Longrightarrow>
     recovery_contract (lift_rec R) M mh leaves rleaves (\<lambda>w. nodes (snd w)) (\<lambda>w. at (snd w))"
  by (simp add: recovery_contract_def lift_rec_files lift_rec_read lift_rec_restore)

text \<open>A codec for a few given values.\<close>

definition table_codec :: "'v list \<Rightarrow> 'v xdr_codec" where
  "table_codec vs =
     \<lparr>xc_Marshal = (\<lambda>v. case index_of v vs of None \<Rightarrow> Inl (Opaque ''unsupported'') | Some i \<Rightarrow> Inr [of_nat i]),
      xc_Unmarshal = (\<lambda>(b, e). case b of
         [i] \<Rightarrow> if e = None \<and> unat i < length vs then Inr (vs ! unat i) else Inl ErrEOF
       | _ \<Rightarrow> Inl ErrEOF)\<rparr>"

lemma index_of_nth: "index_of x xs = Some i \<Longrightarrow> i < length xs \<and> xs ! i = x"
  by (induction xs arbitrary: i) (auto split: if_splits)

lemma table_codec_ok: "length vs \<le> 256 \<Longrightarrow> codec_ok (table_codec vs)"
  by (auto simp: codec_ok_def table_codec_def unat_of_nat split: option.splits dest!: index_of_nth)

text \<open>A digest that shows the counter of the Fiat-Shamir loop: all draws are different.\<close>

definition count_sha :: sha256_api where
  "count_sha = \<lparr>sha_Digest = (\<lambda>d. replicate 4 0 @ drop (length d - 4) d @ replicate 24 0),
     sha_Finish = (\<lambda>d. d), sha_IsMinio = True\<rparr>"

lemma Uint64_BE_counter: "Uint64_BE (replicate 4 0 @ PutUint32_BE i) = ucast i"
proof -
  have four: "replicate 4 (0 :: byte) = [0, 0, 0, 0]" by (simp add: numeral_eq_Suc)
  have high: "\<not> bit i m" if "32 \<le> m" for m using that bit_imp_le_length [of i m] by auto
  have "replicate 4 0 @ PutUint32_BE i = PutUint64_BE (ucast i)"
    unfolding PutUint64_BE_bytes PutUint32_BE_bytes four
    by (auto intro!: bit_word_eqI simp: bit_simps high)
  then show ?thesis by simp
qed

lemma count_fs_id: "fs_id count_sha root n i = ucast i mod n"
proof -
  have "take 8 (sha_Digest count_sha (root @ PutUint32_BE i)) = replicate 4 0 @ PutUint32_BE i"
    by (simp add: count_sha_def codec_simps)
  then show ?thesis by (simp add: fs_id_def go_defs Let_def Uint64_BE_counter)
qed

lemma count_sha_returns: "selection_returns count_sha T"
  unfolding selection_returns_def
proof (intro allI impI)
  fix root and n :: u64
  assume n: "ucast T \<le> n"
  have "inj_on (fs_id count_sha root n) (of_nat ` {..<150})"
  proof (rule inj_onI)
    fix x y :: u32 assume "x \<in> of_nat ` {..<150}" "y \<in> of_nat ` {..<150}"
    then have xy: "unat x < 150" "unat y < 150" by (auto simp: unat_of_nat)
    have u: "unat (ucast z :: u64) = unat z" for z :: u32
    proof -
      have "unat z < 4294967296" using unsigned_less [of z] by simp
      then show ?thesis by (simp add: unsigned_ucast_eq take_bit_nat_eq_self)
    qed
    have "150 \<le> unat n" using n by (simp add: T_def word_le_nat_alt)
    with xy u have "ucast x mod n = ucast x" "ucast y mod n = (ucast y :: u64)"
      by (simp_all add: word_unat_eq_iff unat_mod)
    moreover assume "fs_id count_sha root n x = fs_id count_sha root n y"
    ultimately have "(ucast x :: u64) = ucast y" by (simp add: count_fs_id)
    then show "x = y" using u by (metis word_unat_eq_iff)
  qed
  then have "card (fs_id count_sha root n ` of_nat ` {..<150}) = card ((of_nat :: nat \<Rightarrow> u32) ` {..<150})"
    by (rule card_image)
  also have "\<dots> = 150" by (subst card_image) (auto intro!: inj_onI simp: word_unat_eq_iff unat_of_nat)
  finally have "150 \<le> card (range (fs_id count_sha root n))"
    by (metis (no_types, lifting) card_mono finite_imageI finite_code image_mono subset_UNIV)
  then show "FiatShamir count_sha root n T \<noteq> None"
    using FiatShamir_returns_iff [OF n, of count_sha root] by (simp add: T_def)
qed

lemma ref_merkle_undisturbed: "library_undisturbed (ref_merkle h)"
  by (simp add: library_undisturbed_def ref_merkle_def)

type_synonym demo_world = "os_world \<times> layer_world"

definition demo_wlibs :: "roundState list \<Rightarrow>
    (demo_world, string, bytes list, bytes list, layer_factory, unit) wk_libs" where
  "demo_wlibs vs = \<lparr>wl_os = lift_os ref_os, wl_xdr = table_codec vs, wl_sha = demo_sha True,
     wl_mk = ref_merkle (\<lambda>l r. l), wl_rec = lift_rec ref_recovery, wl_order = demo_order\<rparr>"

definition demo_wround :: wround where
  "demo_wround = (freshRound ''/r'' 3)\<lparr>wr_executionStarted := 77,
     wr_execution := \<lparr>ex_SecurityParam = T, ex_Statement = [8, 8], ex_NumLeaves = 500, ex_NIP = None\<rparr>\<rparr>"

definition demo_files :: demo_world where
  "demo_files = (empty_world, demo_layers ''x'' [])"

theorem round_survives_restart_witness:
  "\<exists>w1 w2. round_saveState (demo_wlibs [persistedOf demo_wround]) demo_files demo_wround = (w1, None) \<and>
     NewRound (demo_wlibs [persistedOf demo_wround]) w1 ''/r'' 3 [WithMembershipRoot [1]] = Ret (w2, Inr demo_wround)"
proof -
  let ?L = "demo_wlibs [persistedOf demo_wround]"
  obtain w1 where s: "round_saveState ?L demo_files demo_wround = (w1, None)"
    by (simp add: round_saveState_def Persist_def demo_wlibs_def table_codec_def lift_os_def ref_os_def)
  obtain w2 where m: "os_MkdirAll (wl_os ?L) w1 (wr_datadir demo_wround) = (w2, None)"
    by (cases w1) (simp add: demo_wlibs_def lift_os_def ref_os_def)
  have "NewRound ?L w1 ''/r'' (wr_epoch demo_wround) (map WithMembershipRoot [[1]]) = Ret (w2, Inr demo_wround)"
  proof (rule round_survives_restart [OF _ _ _ s m])
    show "os_contract (wl_os ?L) (\<lambda>w. ow_file (fst w))"
      by (simp add: demo_wlibs_def lift_os_contract ref_os_contract)
    show "codec_ok (wl_xdr ?L)" by (simp add: demo_wlibs_def table_codec_ok)
    show "round_ok ''/r'' demo_wround" by (simp add: round_ok_def demo_wround_def freshRound_def)
    show "readable (wl_os ?L) w2 (stateFile demo_wround)" by (simp add: demo_wlibs_def)
  qed
  with s show ?thesis by (auto simp: demo_wround_def freshRound_def)
qed

end
