(* ===== verification/Worker.thy ===== *)
theory Worker
  imports Worker_Round Transport
begin

text \<open>
  The worker service (\<open>service/service.go\<close>, \<open>service/config.go\<close>, \<open>service/disabled_service.go\<close>): it
  recovers its rounds at start-up, then executes the closed rounds it receives and publishes their
  proofs. Each handler is one step; \<open>worker_step\<close> is the loop. Logging is left out.
\<close>

section \<open>Configuration\<close>

record service_Config =
  EstimatedLeavesPerSecond :: uint
  MemoryLayers :: uint
  TreeFileBufferSize :: uint

definition service_DefaultConfig :: service_Config where
  "service_DefaultConfig = \<lparr>EstimatedLeavesPerSecond = 78000, MemoryLayers = 26, TreeFileBufferSize = 4096\<rparr>"

record Service =
  sv_genesis :: gotime
  sv_cfg :: service_Config
  sv_roundCfg :: RoundConfig
  sv_datadir :: string
  sv_minMemoryLayer :: uint

text \<open>
  \<open>seconds\<close> is \<open>uint64(d.Seconds())\<close>, whose result Go leaves to the implementation for negative
  durations, and \<open>rootHeight\<close> the function \<open>RootHeightFromWidth\<close> of the \<open>merkle-tree\<close> package.
\<close>

definition WithConfig :: "service_Config \<Rightarrow> service_Config \<Rightarrow> service_Config" where
  "WithConfig cfg old = cfg"

definition service_New ::
  "(duration \<Rightarrow> u64) \<Rightarrow> (u64 \<Rightarrow> uint) \<Rightarrow> gotime \<Rightarrow> string \<Rightarrow> RoundConfig \<Rightarrow> (service_Config \<Rightarrow> service_Config) list \<Rightarrow> Service" where
  "service_New seconds rootHeight genesis datadir roundCfg opts =
     (let cfg = foldl (\<lambda>c opt. opt c) service_DefaultConfig opts;
          estimatedLeaves = seconds (RoundDuration roundCfg) * EstimatedLeavesPerSecond cfg;
          totalLayers = rootHeight estimatedLeaves;
          minMemoryLayer = (if totalLayers > MemoryLayers cfg then totalLayers - MemoryLayers cfg else 0)
      in \<lparr>sv_genesis = genesis, sv_cfg = cfg, sv_roundCfg = roundCfg, sv_datadir = datadir,
          sv_minMemoryLayer = minMemoryLayer\<rparr>)"

section \<open>The environment of the service\<close>

text \<open>
  \<open>en_publish\<close> is the registration service's \<open>NewProof\<close> on the state \<open>'q\<close> of the transport, \<open>en_tid\<close>
  writes the file with the thread id (its failure is only logged), \<open>en_sel\<close> and \<open>en_ctxErr\<close> are what
  executions find in their \<open>select\<close> statements.
\<close>

record ('w, 'q) wk_env =
  en_publish :: "'q \<Rightarrow> NIP \<Rightarrow> 'q \<times> goerr option"
  en_tid :: "'w \<Rightarrow> string \<Rightarrow> 'w"
  en_sel :: "gotime \<Rightarrow> nat \<Rightarrow> tick"
  en_ctxErr :: goerr

section \<open>Handlers\<close>

definition nipOf :: "uint \<Rightarrow> u64 \<Rightarrow> MerkleProof \<Rightarrow> NIP" where
  "nipOf epoch leaves p = \<lparr>Root = Root p, ProvenLeaves = ProvenLeaves p, ProofNodes = ProofNodes p,
     Epoch = epoch, Leaves = leaves\<rparr>"

text \<open>An error of \<open>NewProof\<close> is only logged; \<open>*execution.NIP\<close> panics without a proof.\<close>

definition service_onNewProof :: "('w, 'q) wk_env \<Rightarrow> 'q \<Rightarrow> uint \<Rightarrow> executionState \<Rightarrow> 'q outcome" where
  "service_onNewProof E q epoch execution =
     (case ex_NIP execution of
        None \<Rightarrow> Panic
      | Some nip \<Rightarrow> Ret (fst (en_publish E q (nipOf epoch (ex_NumLeaves execution) nip))))"

definition lockOSThread :: "('w, 'q) wk_env \<Rightarrow> 'w \<Rightarrow> Service \<Rightarrow> 'w" where
  "lockOSThread E w s = en_tid E w (filepath_Join [sv_datadir s, ''round.tid''])"

datatype loopStep = Go | Stop "goerr option"

definition resumeRound ::
  "('w, 'q) wk_env \<Rightarrow> ('w, 'l, 't, 'rd, 'cw, 'ly) wk_libs \<Rightarrow> Service \<Rightarrow> 'w \<Rightarrow> 'q \<Rightarrow> wround \<Rightarrow>
   ('w \<times> 'q \<times> loopStep) outcome option" where
  "resumeRound E L s w q r =
     (let endTime = RoundEnd (sv_roundCfg s) (sv_genesis s) (wr_epoch r) in
      (case RecoverExecution L (en_sel E) (en_ctxErr E) (lockOSThread E w s) r endTime (TreeFileBufferSize (sv_cfg s)) of
         None \<Rightarrow> None
       | Some Panic \<Rightarrow> Some Panic
       | Some (Ret (w, r, None)) \<Rightarrow>
           (case service_onNewProof E q (wr_epoch r) (wr_execution r) of
              Panic \<Rightarrow> Some Panic
            | Ret q \<Rightarrow> Some (Ret (fst (Teardown L w r True), q, Go)))
       | Some (Ret (w, r, Some err)) \<Rightarrow>
           Some (Ret (fst (Teardown L w r False), q, Stop (if errors_Is err ErrCanceled then None else Some err)))))"

text \<open>
  \<open>now\<close> is the time of the check, \<open>started\<close> the time at which the execution starts. The teardown runs
  in its own goroutine; it only touches the directory of its round and is taken as part of the step.
\<close>

definition handleClosedRound ::
  "('w, 'q) wk_env \<Rightarrow> ('w, 'l, 't, 'rd, 'cw, 'ly) wk_libs \<Rightarrow> Service \<Rightarrow> gotime \<Rightarrow> gotime \<Rightarrow> 'w \<Rightarrow> 'q \<Rightarrow> ClosedRound \<Rightarrow>
   ('w \<times> 'q \<times> loopStep) outcome option" where
  "handleClosedRound E L s now started w q closedRound =
     (let endTime = RoundEnd (sv_roundCfg s) (sv_genesis s) (cr_Epoch closedRound) in
      if endTime < now then Some (Ret (w, q, Go))
      else (case NewRound L w (filepath_Join [sv_datadir s, ''rounds'']) (cr_Epoch closedRound)
                   [WithMembershipRoot (cr_MembershipRoot closedRound)] of
          Panic \<Rightarrow> Some Panic
        | Ret (w, Inl err) \<Rightarrow> Some (Ret (w, q, Stop (Some (Wrap ''failed to create a new round'' err))))
        | Ret (w, Inr r) \<Rightarrow>
            (case Execute L (en_sel E) (en_ctxErr E) started (lockOSThread E w s) r endTime (sv_minMemoryLayer s)
                    (TreeFileBufferSize (sv_cfg s)) of
               None \<Rightarrow> None
             | Some (w, r, Some err) \<Rightarrow> Some (Ret (fst (Teardown L w r False), q, Go))
             | Some (w, r, None) \<Rightarrow>
                 (case service_onNewProof E q (wr_epoch r) (wr_execution r) of
                    Panic \<Rightarrow> Some Panic
                  | Ret q \<Rightarrow> Some (Ret (fst (Teardown L w r True), q, Go))))))"

section \<open>Recovery at start-up\<close>

definition recoverEntry ::
  "('w, 'q) wk_env \<Rightarrow> ('w, 'l, 't, 'rd, 'cw, 'ly) wk_libs \<Rightarrow> string \<Rightarrow> 'w \<Rightarrow> 'q \<Rightarrow> wround option \<Rightarrow> dir_entry \<Rightarrow>
   ('w \<times> 'q \<times> (goerr + wround option)) outcome" where
  "recoverEntry E L roundsDir w q executing entry =
     (if \<not> snd entry then Ret (w, q, Inr executing)
      else (case ParseUint (fst entry) 32 of
          None \<Rightarrow> Ret (w, q, Inl (Opaque ''entry is not an uint32''))
        | Some epoch \<Rightarrow>
            (case NewRound L w roundsDir (of_nat epoch) [] of
               Panic \<Rightarrow> Panic
             | Ret (w, Inl err) \<Rightarrow> Ret (w, q, Inl (Wrap ''failed to create round'' err))
             | Ret (w, Inr r) \<Rightarrow>
                 if IsFinished r
                 then (case service_onNewProof E q (wr_epoch r) (wr_execution r) of
                     Panic \<Rightarrow> Panic
                   | Ret q \<Rightarrow> Ret (fst (Teardown L w r True), q, Inr executing))
                 else if wr_executionStarted r = zeroTime
                 then Ret (fst (Teardown L w r True), q, Inr executing)
                 else Ret (w, q, Inr (Some r)))))"

fun recoverEntries ::
  "('w, 'q) wk_env \<Rightarrow> ('w, 'l, 't, 'rd, 'cw, 'ly) wk_libs \<Rightarrow> string \<Rightarrow> 'w \<Rightarrow> 'q \<Rightarrow> wround option \<Rightarrow> dir_entry list \<Rightarrow>
   ('w \<times> 'q \<times> (goerr + wround option)) outcome" where
  "recoverEntries E L roundsDir w q executing [] = Ret (w, q, Inr executing)"
| "recoverEntries E L roundsDir w q executing (entry # entries) =
     (case recoverEntry E L roundsDir w q executing entry of
        Panic \<Rightarrow> Panic
      | Ret (w, q, Inl err) \<Rightarrow> Ret (w, q, Inl err)
      | Ret (w, q, Inr executing) \<Rightarrow> recoverEntries E L roundsDir w q executing entries)"

definition service_recover ::
  "('w, 'q) wk_env \<Rightarrow> ('w, 'l, 't, 'rd, 'cw, 'ly) wk_libs \<Rightarrow> Service \<Rightarrow> 'w \<Rightarrow> 'q \<Rightarrow>
   ('w \<times> 'q \<times> (goerr + wround option)) outcome" where
  "service_recover E L s w q =
     (let roundsDir = filepath_Join [sv_datadir s, ''rounds''] in
      (case os_ReadDir (wl_os L) w roundsDir of
         Inl err \<Rightarrow> Ret (w, q, if errors_Is err ErrNotExist then Inr None else Inl err)
       | Inr entries \<Rightarrow> recoverEntries E L roundsDir w q None entries))"

section \<open>The loop\<close>

text \<open>
  \<open>Run\<close>: recovery, then the recovered round if there is one, then closed rounds in the order in which
  they are received (\<open>recv\<close>), until the context is cancelled.
\<close>

datatype phase = Starting | Resuming "wround option" | Serving | Ended "goerr option"

inductive worker_step ::
  "('w, 'q) wk_env \<Rightarrow> ('w, 'l, 't, 'rd, 'cw, 'ly) wk_libs \<Rightarrow> Service \<Rightarrow> ('q \<Rightarrow> ('q \<times> ClosedRound) set) \<Rightarrow>
   'w \<times> 'q \<times> phase \<Rightarrow> 'w \<times> 'q \<times> phase \<Rightarrow> bool"
  for E L s recv where
  step_recovered: "service_recover E L s w q = Ret (w', q', Inr executing) \<Longrightarrow>
     worker_step E L s recv (w, q, Starting) (w', q', Resuming executing)"
| step_unrecovered: "service_recover E L s w q = Ret (w', q', Inl err) \<Longrightarrow>
     worker_step E L s recv (w, q, Starting) (w', q', Ended (Some (Opaque ''failed to recover'')))"
| step_nothing_to_resume: "worker_step E L s recv (w, q, Resuming None) (w, q, Serving)"
| step_resumed: "resumeRound E L s w q r = Some (Ret (w', q', Go)) \<Longrightarrow>
     worker_step E L s recv (w, q, Resuming (Some r)) (w', q', Serving)"
| step_not_resumed: "resumeRound E L s w q r = Some (Ret (w', q', Stop err)) \<Longrightarrow>
     worker_step E L s recv (w, q, Resuming (Some r)) (w', q', Ended err)"
| step_round: "(q1, cr) \<in> recv q \<Longrightarrow> handleClosedRound E L s now started w q1 cr = Some (Ret (w', q', Go)) \<Longrightarrow>
     worker_step E L s recv (w, q, Serving) (w', q', Serving)"
| step_round_failed: "(q1, cr) \<in> recv q \<Longrightarrow> handleClosedRound E L s now started w q1 cr = Some (Ret (w', q', Stop err)) \<Longrightarrow>
     worker_step E L s recv (w, q, Serving) (w', q', Ended err)"
| step_shutdown: "worker_step E L s recv (w, q, Serving) (w, q, Ended None)"

inductive_cases worker_step_ended: "worker_step E L s recv (w, q, Ended e) st"

section \<open>The disabled worker\<close>

definition disabledService_handle :: "('w, 'q) wk_env \<Rightarrow> 'q \<Rightarrow> ClosedRound \<Rightarrow> 'q" where
  "disabledService_handle E q closedRound =
     fst (en_publish E q \<lparr>Root = [], ProvenLeaves = [], ProofNodes = [], Epoch = cr_Epoch closedRound, Leaves = 0\<rparr>)"

section \<open>Lemmas\<close>

abbreviation roundsDir :: "Service \<Rightarrow> string" where
  "roundsDir s \<equiv> filepath_Join [sv_datadir s, ''rounds'']"

text \<open>
  What the worker relies on to stop when its context is cancelled: a saved state names its execution,
  and reading back an interrupted round ends.
\<close>

definition stops_ok ::
  "('w, 'l, 't, 'rd, 'cw, 'ly) wk_libs \<Rightarrow> ('w \<Rightarrow> string \<Rightarrow> bytes list) \<Rightarrow> ('w \<Rightarrow> 'l \<Rightarrow> string \<times> nat) \<Rightarrow> bool" where
  "stops_ok L nodes at \<longleftrightarrow> (\<forall>w f s. Load (wl_os L) (wl_xdr L) w f = Inr s \<longrightarrow> rs_Execution s \<noteq> None) \<and>
     layer_read_ok (wl_rec L) nodes at \<and> (\<forall>t. mk_GetParkedNodes (wl_mk L) t \<noteq> [])"

lemma NewRound_returns:
  assumes "stops_ok L nodes at"
  shows "\<exists>w' res. NewRound L w datadir epoch opts = Ret (w', res)"
proof -
  have "\<exists>r' err. round_loadState L w r = Ret (r', err)" for w r
  proof (cases "Load (wl_os L) (wl_xdr L) w (stateFile r)")
    case (Inr s)
    with assms obtain e where "rs_Execution s = Some e" unfolding stops_ok_def by blast
    with Inr show ?thesis by (simp add: round_loadState_def)
  qed (simp add: round_loadState_def)
  then have "round_loadState L w r \<noteq> Panic" for w r by (metis outcome.distinct(1))
  then show ?thesis by (auto simp: NewRound_def Let_def split: prod.split option.split outcome.split)
qed

text \<open>Under a cancelled context every handler of the worker returns.\<close>

lemma cancelled_Execute:
  assumes "sel endTime 0 = Cancelled"
  shows "\<exists>w' r' err. Execute L sel e now w r endTime mml bs = Some (w', r', Some err)"
proof -
  let ?r = "r\<lparr>wr_executionStarted := now\<rparr>"
  obtain w1 res where s: "round_saveState L w ?r = (w1, res)" by fastforce
  let ?mh = "merkleHashFuncOf (wl_sha L) (ex_Statement (wr_execution r))"
    and ?tc = "\<lparr>MinMemoryLayer = mml, Datadir = wr_datadir r, FileWriterBufSize = bs\<rparr>"
    and ?dir = "os_ReadDir (wl_os L) w1 (wr_datadir r)"
  show ?thesis
  proof (cases "makeProofTree (wl_mk L) ?tc ?mh ?dir")
    case (Inr tree)
    obtain t' w' r' err n where "generateProof (wl_sha L) (wl_mk L) (labelHashFuncOf (wl_sha L) (ex_Statement (wr_execution r)))
        (sel endTime) e (ex_SecurityParam (wr_execution r)) (persistExecution L) tree (w1, ?r) 0 = Some (t', (w', r'), Inl (err, n))"
      using cancelled_generateProof [of "sel endTime" "wl_sha L" "wl_mk L" "labelHashFuncOf (wl_sha L) (ex_Statement (wr_execution r))"
        e "ex_SecurityParam (wr_execution r)" "persistExecution L" tree "(w1, ?r)" 0] assms by auto
    with Inr s show ?thesis by (cases res) (simp_all add: Execute_def GenerateProof_def)
  next
    case (Inl err)
    with s show ?thesis by (cases res) (simp_all add: Execute_def GenerateProof_def)
  qed
qed

lemma cancelled_resumeRound:
  assumes "stops_ok L nodes at" and "\<forall>t. en_sel E t 0 = Cancelled"
  shows "\<exists>w' err. resumeRound E L s w q r = Some (Ret (w', q, Stop err))"
proof -
  let ?w = "lockOSThread E w s" and ?end_ = "RoundEnd (sv_roundCfg s) (sv_genesis s) (wr_epoch r)" and ?st = "ex_Statement (wr_execution r)"
  have ok: "layer_read_ok (wl_rec L) nodes at" "\<forall>t. mk_GetParkedNodes (wl_mk L) t \<noteq> []" "en_sel E ?end_ 0 = Cancelled"
    using assms by (simp_all add: stops_ok_def)
  obtain w' r' err k where "GenerateProofRecovery (wl_rec L) (wl_sha L) (wl_mk L)
      \<lparr>MinMemoryLayer = 0, Datadir = wr_datadir r, FileWriterBufSize = TreeFileBufferSize (sv_cfg s)\<rparr>
      (os_ReadDir (wl_os L) ?w (wr_datadir r)) (wl_order L) (labelHashFuncOf (wl_sha L) ?st) (merkleHashFuncOf (wl_sha L) ?st)
      (en_sel E ?end_) (en_ctxErr E) (ex_SecurityParam (wr_execution r)) (ex_NumLeaves (wr_execution r)) (persistExecution L) ?w r
      = Some (Ret ((w', r'), Inl (err, k)))"
    using cancelled_recovery_returns [where sel = "en_sel E ?end_" and e = "en_ctxErr E", OF ok, of "wl_sha L"
      "\<lparr>MinMemoryLayer = 0, Datadir = wr_datadir r, FileWriterBufSize = TreeFileBufferSize (sv_cfg s)\<rparr>"
      "os_ReadDir (wl_os L) ?w (wr_datadir r)" "wl_order L" "labelHashFuncOf (wl_sha L) ?st" "merkleHashFuncOf (wl_sha L) ?st"
      "ex_SecurityParam (wr_execution r)" "ex_NumLeaves (wr_execution r)" "persistExecution L" ?w r] by auto
  then show ?thesis by (simp add: resumeRound_def RecoverExecution_def Let_def)
qed

lemma cancelled_handleClosedRound:
  assumes "stops_ok L nodes at" and "\<forall>t. en_sel E t 0 = Cancelled"
  shows "\<exists>w' res. handleClosedRound E L s now started w q cr = Some (Ret (w', q, res))"
proof -
  obtain w1 res where n: "NewRound L w (roundsDir s) (cr_Epoch cr) [WithMembershipRoot (cr_MembershipRoot cr)] = Ret (w1, res)"
    using NewRound_returns [OF assms(1)] by blast
  let ?end_ = "RoundEnd (sv_roundCfg s) (sv_genesis s) (cr_Epoch cr)"
  show ?thesis
  proof (cases res)
    case (Inr r)
    obtain w' r' err where "Execute L (en_sel E) (en_ctxErr E) started (lockOSThread E w1 s) r ?end_ (sv_minMemoryLayer s)
        (TreeFileBufferSize (sv_cfg s)) = Some (w', r', Some err)"
      using cancelled_Execute [of "en_sel E" ?end_ L "en_ctxErr E" started "lockOSThread E w1 s" r] assms(2) by blast
    with n Inr show ?thesis by (simp add: handleClosedRound_def Let_def)
  qed (simp add: handleClosedRound_def n Let_def)
qed

lemma recoverEntry_returns:
  assumes "stops_ok L nodes at" and "\<forall>nip. \<exists>e. en_publish E q nip = (q, e)"
  shows "\<exists>w' res. recoverEntry E L dir w q ex entry = Ret (w', q, res)"
proof -
  have "NewRound L w dir e [] \<noteq> Panic" for e
    using NewRound_returns [OF assms(1), of w dir e "[]"] by auto
  moreover have "service_onNewProof E q e x = Ret q" if nip: "ex_NIP x \<noteq> None" for e x
  proof -
    obtain nip where nip: "ex_NIP x = Some nip" using nip by blast
    obtain err where "en_publish E q (nipOf e (ex_NumLeaves x) nip) = (q, err)" using assms(2) by blast
    with nip show ?thesis by (simp add: service_onNewProof_def)
  qed
  ultimately show ?thesis
    by (auto simp: recoverEntry_def IsFinished_def split: option.split sum.split outcome.split)
qed

lemma NewRound_fresh:
  assumes "os_contract (wl_os L) file" and "file w (stateFile (freshRound datadir epoch)) = None"
    and "NewRound L w datadir epoch [WithMembershipRoot root] = Ret (w', Inr r)"
  shows "r = WithMembershipRoot root (freshRound datadir epoch)"
proof -
  let ?r = "WithMembershipRoot root (freshRound datadir epoch)"
  from assms(1) have o: "os_open_ok (wl_os L) file" and d: "os_dirs_ok (wl_os L) file" by (simp_all add: os_contract_def)
  obtain w1 where m: "os_MkdirAll (wl_os L) w (filepath_Join [datadir, FormatUint epoch]) = (w1, None)"
    using assms(3) by (auto simp: NewRound_def split: prod.splits option.splits)
  have "file w1 = file w" using d m unfolding os_dirs_ok_def by blast
  then have f: "file w1 (stateFile ?r) = None"
    using assms(2) by (simp add: stateFile_def WithMembershipRoot_def)
  have "\<exists>err. round_loadState L w1 ?r = Ret (?r, Some err)"
  proof (cases "os_Open (wl_os L) w1 (stateFile ?r)")
    case (Inl e)
    then show ?thesis by (simp add: round_loadState_def Load_def)
  next
    case (Inr x)
    with o f show ?thesis unfolding os_open_ok_def by blast
  qed
  with assms(3) m show ?thesis
    by (auto simp: NewRound_def Let_def split: if_splits prod.splits option.splits)
qed

lemma handleClosedRound_cases:
  assumes "handleClosedRound E L s now started w q cr = Some (Ret (w', q', st))"
  obtains (untouched) "q' = q"
    | (executed) w1 r w2 r2 nip where
      "NewRound L w (roundsDir s) (cr_Epoch cr) [WithMembershipRoot (cr_MembershipRoot cr)] = Ret (w1, Inr r)"
      "Execute L (en_sel E) (en_ctxErr E) started (lockOSThread E w1 s) r
         (RoundEnd (sv_roundCfg s) (sv_genesis s) (cr_Epoch cr)) (sv_minMemoryLayer s) (TreeFileBufferSize (sv_cfg s))
         = Some (w2, r2, None)"
      "ex_NIP (wr_execution r2) = Some nip"
      "q' = fst (en_publish E q (nipOf (wr_epoch r2) (ex_NumLeaves (wr_execution r2)) nip))"
      "w' = fst (Teardown L w2 r2 True)" "st = Go"
  using assms
  by (auto simp: handleClosedRound_def service_onNewProof_def Let_def
      split: if_splits outcome.splits prod.splits sum.splits option.splits)

lemma handleClosedRound_returns:
  assumes "now \<le> RoundEnd (sv_roundCfg s) (sv_genesis s) (cr_Epoch cr)"
    and "NewRound L w (roundsDir s) (cr_Epoch cr) [WithMembershipRoot (cr_MembershipRoot cr)] = Ret (w1, Inr r)"
    and "\<forall>w r. snd (round_saveState L w r) = None" and "library_undisturbed (wl_mk L)"
    and "selection_returns (wl_sha L) (ex_SecurityParam (wr_execution r))"
    and "getLayersFiles (os_ReadDir (wl_os L) (fst (round_saveState L (lockOSThread E w1 s) (r\<lparr>wr_executionStarted := started\<rparr>)))
      (wr_datadir r)) = Inr Map.empty"
    and "\<forall>t k. en_sel E t k \<noteq> Cancelled" and "\<forall>t. \<forall>k \<ge> deadline. en_sel E t k = Stopped"
  shows "\<exists>w' numLeaves nip. handleClosedRound E L s now started w q cr
    = Some (Ret (w', fst (en_publish E q (nipOf (wr_epoch r) numLeaves nip)), Go))"
proof -
  let ?fin = "RoundEnd (sv_roundCfg s) (sv_genesis s) (cr_Epoch cr)"
  obtain w' r' nip where "Execute L (en_sel E) (en_ctxErr E) started (lockOSThread E w1 s) r ?fin
      (sv_minMemoryLayer s) (TreeFileBufferSize (sv_cfg s)) = Some (w', r', None)"
    and "ex_NIP (wr_execution r') = Some nip" "wr_epoch r' = wr_epoch r"
    using Execute_returns [OF assms(3,4,5,6), of "en_sel E" ?fin deadline] assms(7,8) by blast
  with assms(1,2) show ?thesis
    by (auto simp: handleClosedRound_def service_onNewProof_def Let_def not_less)
qed

lemma handleClosedRound_executed:
  assumes "now \<le> RoundEnd (sv_roundCfg s) (sv_genesis s) (cr_Epoch cr)"
    and "NewRound L w (roundsDir s) (cr_Epoch cr) [WithMembershipRoot (cr_MembershipRoot cr)] = Ret (w1, Inr r)"
    and "Execute L (en_sel E) (en_ctxErr E) started (lockOSThread E w1 s) r
      (RoundEnd (sv_roundCfg s) (sv_genesis s) (cr_Epoch cr)) (sv_minMemoryLayer s) (TreeFileBufferSize (sv_cfg s))
      = Some (w2, r2, None)"
    and "ex_NIP (wr_execution r2) = Some nip"
    and "en_publish E q (nipOf (wr_epoch r2) (ex_NumLeaves (wr_execution r2)) nip) = (q', err)"
    and "os_RemoveAll (wl_os L) w2 (wr_datadir r2) = (w3, e)"
  shows "handleClosedRound E L s now started w q cr = Some (Ret (w3, q', Go))"
  using assms by (auto simp: handleClosedRound_def service_onNewProof_def Teardown_def Let_def not_less)

text \<open>Whatever the history of the worker, a round that it resumes is well formed, started and unfinished.\<close>

lemma round_loadState_ok:
  assumes "round_loadState L w r = Ret (r', e)" and "round_ok dir r"
  shows "round_ok dir r'"
  using assms by (auto simp: round_loadState_def round_ok_def split: sum.splits option.splits if_splits)

lemma NewRound_ok: "NewRound L w dir epoch [] = Ret (w', Inr r) \<Longrightarrow> round_ok dir r"
proof -
  assume "NewRound L w dir epoch [] = Ret (w', Inr r)"
  then obtain w1 e where "round_loadState L w1 (freshRound dir epoch) = Ret (r, e)"
    by (auto simp: NewRound_def Let_def split: prod.splits option.splits outcome.splits if_splits)
  moreover have "round_ok dir (freshRound dir epoch)" by (simp add: round_ok_def freshRound_def)
  ultimately show ?thesis by (rule round_loadState_ok)
qed

definition resumes :: "string \<Rightarrow> wround \<Rightarrow> bool" where
  "resumes dir r \<longleftrightarrow> round_ok dir r \<and> \<not> IsFinished r \<and> wr_executionStarted r \<noteq> zeroTime"

lemma recoverEntry_resumes:
  assumes "recoverEntry E L dir w q ex e = Ret (w', q', Inr ex')" and "pred_option (resumes dir) ex"
  shows "pred_option (resumes dir) ex'"
proof (cases "ex' = ex")
  case False
  with assms(1) obtain w1 epoch r where "NewRound L w dir epoch [] = Ret (w1, Inr r)" and r: "ex' = Some r"
    "\<not> IsFinished r" "wr_executionStarted r \<noteq> zeroTime"
    by (auto simp: recoverEntry_def split: if_splits option.splits outcome.splits sum.splits)
  then show ?thesis by (simp add: resumes_def NewRound_ok)
qed (use assms(2) in simp)

lemma recoverEntries_resumes:
  "recoverEntries E L dir w q ex es = Ret (w', q', Inr ex') \<Longrightarrow> pred_option (resumes dir) ex \<Longrightarrow>
     pred_option (resumes dir) ex'"
proof (induction es arbitrary: w q ex)
  case (Cons e es)
  obtain w1 q1 ex1 where e: "recoverEntry E L dir w q ex e = Ret (w1, q1, Inr ex1)"
    and es: "recoverEntries E L dir w1 q1 ex1 es = Ret (w', q', Inr ex')"
    using Cons.prems(1) by (auto split: outcome.splits sum.splits)
  show ?case by (rule Cons.IH [OF es recoverEntry_resumes [OF e Cons.prems(2)]])
qed simp

definition worker_inv :: "Service \<Rightarrow> 'w \<times> 'q \<times> phase \<Rightarrow> bool" where
  "worker_inv s st \<longleftrightarrow> (case st of (_, _, Resuming ex) \<Rightarrow> pred_option (resumes (roundsDir s)) ex | _ \<Rightarrow> True)"

interpretation worker: step_system "worker_step E L s recv" "worker_inv s" for E L s recv
proof
  fix st st'
  assume "worker_step E L s recv st st'"
  then show "worker_inv s st'"
    by cases (auto simp: worker_inv_def service_recover_def Let_def dest: recoverEntries_resumes split: sum.splits if_splits)
qed

lemma resumed_round_ok:
  assumes "(worker_step E L s recv)\<^sup>*\<^sup>* (w0, q0, Starting) (w, q, Resuming (Some r))"
  shows "resumes (roundsDir s) r"
  using worker.reachable_inv [OF assms] by (simp add: worker_inv_def)

section \<open>A concrete worker\<close>

definition any_codec :: "roundState xdr_codec" where
  "any_codec = \<lparr>xc_Marshal = (\<lambda>_. Inr [0]), xc_Unmarshal = (\<lambda>_. Inl ErrEOF)\<rparr>"

definition demo_worker :: "bytes \<Rightarrow> (demo_world, string, bytes list, bytes list, layer_factory, unit) wk_libs" where
  "demo_worker root = \<lparr>wl_os = lift_os ref_os, wl_xdr = any_codec, wl_sha = count_sha,
     wl_mk = ref_merkle (merkleHashFuncOf count_sha root), wl_rec = lift_rec ref_recovery, wl_order = demo_order\<rparr>"

definition demo_env :: "('q \<Rightarrow> NIP \<Rightarrow> 'q \<times> goerr option) \<Rightarrow> (demo_world, 'q) wk_env" where
  "demo_env pub = \<lparr>en_publish = pub, en_tid = (\<lambda>w p. w), en_sel = (\<lambda>_ _. Stopped), en_ctxErr = ErrCanceled\<rparr>"

definition demo_service :: Service where
  "demo_service = service_New (\<lambda>d. 20) (\<lambda>n. 21) 0 ''/d'' DefaultRoundConfig []"

definition demo_round7 :: "bytes \<Rightarrow> wround" where
  "demo_round7 root = WithMembershipRoot root (freshRound (roundsDir demo_service) 7)"

lemma demo_worker_paths:
  "roundsDir demo_service = ''/d/rounds''" "wr_datadir (demo_round7 root) = ''/d/rounds/7''"
  "stateFile (demo_round7 root) = ''/d/rounds/7/state.bin''"
proof -
  have a: "filepath_Join [''/d'', ''rounds''] = ''/d/rounds''" by code_simp
  have b: "filepath_Join [''/d/rounds'', FormatUint 7] = ''/d/rounds/7''" by code_simp
  have c: "filepath_Join [''/d/rounds/7'', ''state.bin''] = ''/d/rounds/7/state.bin''" by code_simp
  show r: "roundsDir demo_service = ''/d/rounds''" using a by (simp add: demo_service_def service_New_def Let_def)
  show d: "wr_datadir (demo_round7 root) = ''/d/rounds/7''"
    using b r by (simp add: demo_round7_def WithMembershipRoot_def freshRound_def)
  show "stateFile (demo_round7 root) = ''/d/rounds/7/state.bin''"
    using c d by (simp add: stateFile_def roundStateFileBaseName_def)
qed

lemma demo_worker_save:
  assumes "stateFile r = ''/d/rounds/7/state.bin''"
  shows "round_saveState (demo_worker root) w r
    = (((fst w)\<lparr>ow_files := (''/d/rounds/7/state.bin'', [0])
         # filter (\<lambda>f. fst f \<noteq> ''/d/rounds/7/state.bin'') (ow_files (fst w))\<rparr>, snd w), None)"
  using assms by (simp add: round_saveState_def Persist_def demo_worker_def any_codec_def lift_os_def ref_os_def)

lemma demo_all_saves: "snd (round_saveState (demo_worker root) w r) = None"
  by (simp add: round_saveState_def Persist_def demo_worker_def any_codec_def lift_os_def ref_os_def)

lemma demo_NewRound:
  "NewRound (demo_worker root) demo_files (roundsDir demo_service) 7 [WithMembershipRoot root]
     = Ret ((\<lparr>ow_files = [(''/d/rounds/7/state.bin'', [0])], ow_dirs = [''/d/rounds/7'']\<rparr>, snd demo_files),
            Inr (demo_round7 root))"
proof -
  have m: "os_MkdirAll (wl_os (demo_worker root)) demo_files (filepath_Join [roundsDir demo_service, FormatUint 7])
      = ((\<lparr>ow_files = [], ow_dirs = [''/d/rounds/7'']\<rparr>, snd demo_files), None)"
    using demo_worker_paths(2) [of root]
    by (simp add: demo_worker_def lift_os_def ref_os_def demo_files_def empty_world_def demo_round7_def
        WithMembershipRoot_def freshRound_def)
  have l: "round_loadState (demo_worker root) (\<lparr>ow_files = [], ow_dirs = [''/d/rounds/7'']\<rparr>, snd demo_files) (demo_round7 root)
      = Ret (demo_round7 root, Some (Wrap ''loading state'' (Wrap ''loading file'' ErrNotExist)))"
    by (simp add: round_loadState_def Load_def demo_worker_def lift_os_def ref_os_def)
  show ?thesis
    unfolding NewRound_def m
    by (simp add: l [unfolded demo_round7_def] demo_worker_save demo_worker_paths(3) [unfolded demo_round7_def] Let_def)
      (simp add: demo_round7_def)
qed

lemma demo_no_layers:
  assumes "stateFile r = ''/d/rounds/7/state.bin''"
  shows "getLayersFiles (os_ReadDir (wl_os (demo_worker root)) (fst (round_saveState (demo_worker root)
      (\<lparr>ow_files = [(''/d/rounds/7/state.bin'', [0])], ow_dirs = [''/d/rounds/7'']\<rparr>, l) r)) ''/d/rounds/7'') = Inr Map.empty"
proof -
  have "childName ''/d/rounds/7'' ''/d/rounds/7/state.bin'' = Some ''state.bin''" "childName ''/d/rounds/7'' ''/d/rounds/7'' = None"
    by code_simp+
  then show ?thesis
    by (simp add: demo_worker_save [OF assms]) (simp add: demo_worker_def lift_os_def ref_os_def getLayersFiles_def
        List.map_filter_def layerPrefix_def)
qed

lemma demo_time: "0 \<le> RoundEnd (sv_roundCfg demo_service) (sv_genesis demo_service) 7"
  by code_simp

lemma demo_executes:
  "\<exists>w' r' nip. Execute (demo_worker root) (en_sel (demo_env pub)) ErrCanceled 5
       (\<lparr>ow_files = [(''/d/rounds/7/state.bin'', [0])], ow_dirs = [''/d/rounds/7'']\<rparr>, snd demo_files) (demo_round7 root)
       endTime minMem buf = Some (w', r', None) \<and>
     ex_NIP (wr_execution r') = Some nip \<and> wr_epoch r' = wr_epoch (demo_round7 root)"
proof (rule Execute_returns [where K = 0])
  let ?r = "(demo_round7 root)\<lparr>wr_executionStarted := 5\<rparr>"
  show "\<forall>w r. snd (round_saveState (demo_worker root) w r) = None" by (simp add: demo_all_saves)
  show "library_undisturbed (wl_mk (demo_worker root))" by (simp add: demo_worker_def ref_merkle_undisturbed)
  show "selection_returns (wl_sha (demo_worker root)) (ex_SecurityParam (wr_execution (demo_round7 root)))"
    using count_sha_returns by (simp add: demo_worker_def demo_round7_def WithMembershipRoot_def freshRound_def)
  have "stateFile ?r = ''/d/rounds/7/state.bin''" using demo_worker_paths(3) [of root] by (simp add: stateFile_def)
  from demo_no_layers [OF this, of root "snd demo_files"]
  show "getLayersFiles (os_ReadDir (wl_os (demo_worker root)) (fst (round_saveState (demo_worker root)
      (\<lparr>ow_files = [(''/d/rounds/7/state.bin'', [0])], ow_dirs = [''/d/rounds/7'']\<rparr>, snd demo_files) ?r))
      (wr_datadir (demo_round7 root))) = Inr Map.empty"
    by (simp only: demo_worker_paths(2))
qed (simp_all add: demo_env_def)

lemma handleClosedRound_publishes_valid:
  assumes "os_contract (wl_os L) file"
    and "file w (stateFile (freshRound (roundsDir s) (cr_Epoch cr))) = None"
    and "merkle_contract (wl_mk L) (merkleHashFuncOf (wl_sha L) (cr_MembershipRoot cr)) leaves rleaves park"
    and "handleClosedRound E L s now started w q cr = Some (Ret (w', q', st))"
  shows "q' = q \<or> (\<exists>nip numLeaves. q' = fst (en_publish E q (nipOf (cr_Epoch cr) numLeaves nip)) \<and>
    Validate (wl_sha L) (wl_mk L) nip (labelHashFuncOf (wl_sha L) (cr_MembershipRoot cr))
      (merkleHashFuncOf (wl_sha L) (cr_MembershipRoot cr)) numLeaves T = Some (Ret None))"
proof (rule handleClosedRound_cases [OF assms(4)])
  fix w1 r w2 r2 nip
  assume n: "NewRound L w (roundsDir s) (cr_Epoch cr) [WithMembershipRoot (cr_MembershipRoot cr)] = Ret (w1, Inr r)"
    and x: "Execute L (en_sel E) (en_ctxErr E) started (lockOSThread E w1 s) r
         (RoundEnd (sv_roundCfg s) (sv_genesis s) (cr_Epoch cr)) (sv_minMemoryLayer s) (TreeFileBufferSize (sv_cfg s))
         = Some (w2, r2, None)"
    and nip: "ex_NIP (wr_execution r2) = Some nip"
    and q': "q' = fst (en_publish E q (nipOf (wr_epoch r2) (ex_NumLeaves (wr_execution r2)) nip))"
  have r: "r = WithMembershipRoot (cr_MembershipRoot cr) (freshRound (roundsDir s) (cr_Epoch cr))"
    by (rule NewRound_fresh [OF assms(1,2) n])
  then have "ex_Statement (wr_execution r) = cr_MembershipRoot cr" "ex_SecurityParam (wr_execution r) = T"
    "wr_epoch r = cr_Epoch cr" "0 < ex_SecurityParam (wr_execution r)"
    by (simp_all add: WithMembershipRoot_def freshRound_def T_def)
  with Execute_success(1) [OF _ _ x] assms(3) have "finished_from L r r2" by simp
  with nip \<open>wr_epoch r = cr_Epoch cr\<close> \<open>ex_Statement (wr_execution r) = cr_MembershipRoot cr\<close>
    \<open>ex_SecurityParam (wr_execution r) = T\<close> q'
  show ?thesis unfolding finished_from_def proof_valid_def by auto
qed simp

section \<open>Properties\<close>

text \<open>
  C27: What the worker publishes is a valid proof of the round it was asked to execute. If no state of
  that round is left from before, handling a closed round either publishes nothing or publishes one
  proof, for the epoch of the closed round, which \<open>Validate\<close> accepts for the hash functions derived
  from the closed round's membership root, the published leaf count and the security parameter \<open>T\<close>.
\<close>

theorem published_proof_is_valid:
  assumes "os_contract (wl_os L) file"
    and "file w (stateFile (freshRound (roundsDir s) (cr_Epoch cr))) = None"
    and "merkle_contract (wl_mk L) (merkleHashFuncOf (wl_sha L) (cr_MembershipRoot cr)) leaves rleaves park"
    and "handleClosedRound E L s now started w q cr = Some (Ret (w', q', st))"
  shows "q' = q \<or> (\<exists>nip numLeaves. q' = fst (en_publish E q (nipOf (cr_Epoch cr) numLeaves nip)) \<and>
    Validate (wl_sha L) (wl_mk L) nip (labelHashFuncOf (wl_sha L) (cr_MembershipRoot cr))
      (merkleHashFuncOf (wl_sha L) (cr_MembershipRoot cr)) numLeaves T = Some (Ret None))"
  by (rule handleClosedRound_publishes_valid [OF assms])

theorem published_proof_is_valid_witness:
  "\<exists>w' numLeaves nip. handleClosedRound (demo_env (\<lambda>q n. (q @ [n], None))) (demo_worker [9]) demo_service 0 5 demo_files []
       \<lparr>cr_Epoch = 7, cr_MembershipRoot = [9]\<rparr> = Some (Ret (w', [nipOf 7 numLeaves nip], Go)) \<and>
     Validate count_sha (ref_merkle (merkleHashFuncOf count_sha [9])) nip (labelHashFuncOf count_sha [9])
       (merkleHashFuncOf count_sha [9]) numLeaves T = Some (Ret None)"
proof -
  let ?E = "demo_env (\<lambda>q n. (q @ [n], None))" and ?cr = "\<lparr>cr_Epoch = 7, cr_MembershipRoot = [9]\<rparr>"
  let ?w = "(\<lparr>ow_files = [(''/d/rounds/7/state.bin'', [0])], ow_dirs = [''/d/rounds/7'']\<rparr>, snd demo_files)"
  obtain w2 r2 nip where x: "Execute (demo_worker [9]) (en_sel ?E) (en_ctxErr ?E) 5 (lockOSThread ?E ?w demo_service)
      (demo_round7 [9]) (RoundEnd (sv_roundCfg demo_service) (sv_genesis demo_service) (cr_Epoch ?cr))
      (sv_minMemoryLayer demo_service) (TreeFileBufferSize (sv_cfg demo_service)) = Some (w2, r2, None)"
    and nip: "ex_NIP (wr_execution r2) = Some nip"
    using demo_executes [of "[9]"] by (force simp: lockOSThread_def demo_env_def)
  obtain w3 e where rm: "os_RemoveAll (wl_os (demo_worker [9])) w2 (wr_datadir r2) = (w3, e)" by fastforce
  have h: "handleClosedRound ?E (demo_worker [9]) demo_service 0 5 demo_files [] ?cr
      = Some (Ret (w3, [nipOf (wr_epoch r2) (ex_NumLeaves (wr_execution r2)) nip], Go))"
    using demo_time demo_NewRound [of "[9]"]
    by (intro handleClosedRound_executed [OF _ _ x nip _ rm]) (simp_all add: demo_env_def)
  have "ow_file (fst demo_files) (stateFile (freshRound (roundsDir demo_service) (cr_Epoch ?cr))) = None"
    by (simp add: ow_file_def demo_files_def empty_world_def)
  then obtain n pf where "[nipOf (wr_epoch r2) (ex_NumLeaves (wr_execution r2)) nip] = [nipOf 7 n pf]"
    and v: "Validate count_sha (ref_merkle (merkleHashFuncOf count_sha [9])) pf (labelHashFuncOf count_sha [9])
       (merkleHashFuncOf count_sha [9]) n T = Some (Ret None)"
    using published_proof_is_valid [OF _ _ _ h, of "\<lambda>w. ow_file (fst w)" "\<lambda>t. t" "\<lambda>r. r" "ref_park (merkleHashFuncOf count_sha [9])"]
      ref_merkle_contract [of "merkleHashFuncOf count_sha [9]"] lift_os_contract [OF ref_os_contract]
    by (auto simp: demo_worker_def demo_env_def)
  with h show ?thesis by metis
qed

text \<open>
  C28: Liveness of the worker. A closed round that is not past, whose directory holds no layer files,
  is executed and its proof is handed to the registration service, provided that saving the state and
  the Merkle library do not fail, the context is not cancelled, the deadline passes and the
  Fiat-Shamir selection finds enough indices.
\<close>

theorem undisturbed_round_is_published:
  assumes "now \<le> RoundEnd (sv_roundCfg s) (sv_genesis s) (cr_Epoch cr)"
    and "NewRound L w (roundsDir s) (cr_Epoch cr) [WithMembershipRoot (cr_MembershipRoot cr)] = Ret (w1, Inr r)"
    and "\<forall>w r. snd (round_saveState L w r) = None" and "library_undisturbed (wl_mk L)"
    and "selection_returns (wl_sha L) (ex_SecurityParam (wr_execution r))"
    and "getLayersFiles (os_ReadDir (wl_os L) (fst (round_saveState L (lockOSThread E w1 s) (r\<lparr>wr_executionStarted := started\<rparr>)))
      (wr_datadir r)) = Inr Map.empty"
    and "\<forall>t k. en_sel E t k \<noteq> Cancelled" and "\<forall>t. \<forall>k \<ge> deadline. en_sel E t k = Stopped"
  shows "\<exists>w' numLeaves nip. handleClosedRound E L s now started w q cr
    = Some (Ret (w', fst (en_publish E q (nipOf (wr_epoch r) numLeaves nip)), Go))"
  by (rule handleClosedRound_returns [OF assms])

theorem undisturbed_round_is_published_witness:
  "\<exists>w' numLeaves nip. handleClosedRound (demo_env (\<lambda>q n. (q @ [n], None))) (demo_worker [9]) demo_service 0 5 demo_files []
       \<lparr>cr_Epoch = 7, cr_MembershipRoot = [9]\<rparr> = Some (Ret (w', [nipOf 7 numLeaves nip], Go))"
proof -
  let ?E = "demo_env (\<lambda>q n. (q @ [n], None))" and ?r = "(demo_round7 [9])\<lparr>wr_executionStarted := 5\<rparr>"
  let ?w = "(\<lparr>ow_files = [(''/d/rounds/7/state.bin'', [0])], ow_dirs = [''/d/rounds/7'']\<rparr>, snd demo_files)"
  have sf: "stateFile ?r = ''/d/rounds/7/state.bin''" using demo_worker_paths(3) [of "[9]"] by (simp add: stateFile_def)
  have "\<exists>w' n nip. handleClosedRound ?E (demo_worker [9]) demo_service 0 5 demo_files [] \<lparr>cr_Epoch = 7, cr_MembershipRoot = [9]\<rparr>
      = Some (Ret (w', fst (en_publish ?E [] (nipOf (wr_epoch (demo_round7 [9])) n nip)), Go))"
  proof (rule undisturbed_round_is_published [where deadline = 0])
    show "NewRound (demo_worker [9]) demo_files (roundsDir demo_service) (cr_Epoch \<lparr>cr_Epoch = 7, cr_MembershipRoot = [9]\<rparr>)
        [WithMembershipRoot (cr_MembershipRoot \<lparr>cr_Epoch = 7, cr_MembershipRoot = [9]\<rparr>)] = Ret (?w, Inr (demo_round7 [9]))"
      using demo_NewRound [of "[9]"] by simp
    show "library_undisturbed (wl_mk (demo_worker [9]))" by (simp add: demo_worker_def ref_merkle_undisturbed)
    show "selection_returns (wl_sha (demo_worker [9])) (ex_SecurityParam (wr_execution (demo_round7 [9])))"
      using count_sha_returns by (simp add: demo_worker_def demo_round7_def WithMembershipRoot_def freshRound_def)
    show "getLayersFiles (os_ReadDir (wl_os (demo_worker [9])) (fst (round_saveState (demo_worker [9])
        (lockOSThread ?E ?w demo_service) ?r)) (wr_datadir (demo_round7 [9]))) = Inr Map.empty"
      using demo_no_layers [OF sf] by (simp add: demo_worker_paths(2) lockOSThread_def demo_env_def)
  qed (use demo_time in \<open>simp_all add: demo_all_saves demo_env_def\<close>)
  then show ?thesis by (simp add: demo_env_def demo_round7_def WithMembershipRoot_def freshRound_def)
qed

text \<open>
  C29: A proof that could not be handed over is lost. When publishing fails (the error is only
  logged), the worker still removes the data of the round: its state file, with the proof in it, is
  gone, and nothing is left from which the next start could publish the proof.
\<close>

theorem unpublished_proof_is_deleted:
  assumes "os_contract (wl_os L) file"
    and "now \<le> RoundEnd (sv_roundCfg s) (sv_genesis s) (cr_Epoch cr)"
    and "NewRound L w (roundsDir s) (cr_Epoch cr) [WithMembershipRoot (cr_MembershipRoot cr)] = Ret (w1, Inr r)"
    and "Execute L (en_sel E) (en_ctxErr E) started (lockOSThread E w1 s) r
      (RoundEnd (sv_roundCfg s) (sv_genesis s) (cr_Epoch cr)) (sv_minMemoryLayer s) (TreeFileBufferSize (sv_cfg s))
      = Some (w2, r2, None)"
    and "ex_NIP (wr_execution r2) = Some nip"
    and "en_publish E q (nipOf (wr_epoch r2) (ex_NumLeaves (wr_execution r2)) nip) = (q, Some err)"
    and "os_RemoveAll (wl_os L) w2 (wr_datadir r2) = (w3, None)"
  shows "handleClosedRound E L s now started w q cr = Some (Ret (w3, q, Go)) \<and> file w3 (stateFile r2) = None"
proof
  show "handleClosedRound E L s now started w q cr = Some (Ret (w3, q, Go))"
    by (rule handleClosedRound_executed [OF assms(2-7)])
  have "plain_name roundStateFileBaseName" by (simp add: plain_name_def roundStateFileBaseName_def)
  with assms(1,7) show "file w3 (stateFile r2) = None"
    unfolding os_contract_def os_dirs_ok_def stateFile_def by blast
qed

theorem unpublished_proof_is_deleted_witness:
  "\<exists>w3. handleClosedRound (demo_env (\<lambda>(q :: NIP list) n. (q, Some ErrCanceled))) (demo_worker [9]) demo_service 0 5 demo_files []
       \<lparr>cr_Epoch = 7, cr_MembershipRoot = [9]\<rparr> = Some (Ret (w3, [], Go))"
proof -
  let ?E = "demo_env (\<lambda>(q :: NIP list) n. (q, Some ErrCanceled))" and ?cr = "\<lparr>cr_Epoch = 7, cr_MembershipRoot = [9]\<rparr>"
  let ?w = "(\<lparr>ow_files = [(''/d/rounds/7/state.bin'', [0])], ow_dirs = [''/d/rounds/7'']\<rparr>, snd demo_files)"
  obtain w2 r2 nip where x: "Execute (demo_worker [9]) (en_sel ?E) (en_ctxErr ?E) 5 (lockOSThread ?E ?w demo_service)
      (demo_round7 [9]) (RoundEnd (sv_roundCfg demo_service) (sv_genesis demo_service) (cr_Epoch ?cr))
      (sv_minMemoryLayer demo_service) (TreeFileBufferSize (sv_cfg demo_service)) = Some (w2, r2, None)"
    and nip: "ex_NIP (wr_execution r2) = Some nip"
    using demo_executes [of "[9]"] by (force simp: lockOSThread_def demo_env_def)
  obtain w3 where rm: "os_RemoveAll (wl_os (demo_worker [9])) w2 (wr_datadir r2) = (w3, None)"
    by (simp add: demo_worker_def lift_os_def ref_os_def)
  have c: "os_contract (wl_os (demo_worker [9])) (\<lambda>w. ow_file (fst w))"
    by (simp add: demo_worker_def lift_os_contract ref_os_contract)
  have "handleClosedRound ?E (demo_worker [9]) demo_service 0 5 demo_files [] ?cr = Some (Ret (w3, [], Go)) \<and>
      ow_file (fst w3) (stateFile r2) = None"
    using demo_time demo_NewRound [of "[9]"]
    by (intro unpublished_proof_is_deleted [OF c _ _ x nip _ rm]) (simp_all add: demo_env_def)
  then show ?thesis by blast
qed

text \<open>
  A finished round that was not torn down before a restart is published at the next start: the
  entry of its directory is recognised, its proof is handed over with its own epoch and leaf count,
  and no round is resumed for it.
\<close>

lemma restart_publishes_finished_round:
  assumes "os_contract (wl_os L) file" and "codec_ok (wl_xdr L)" and "round_ok dir r"
    and "round_saveState L w r = (w1, None)" and "ex_NIP (wr_execution r) = Some nip" and "unat (wr_epoch r) < 2 ^ 32"
    and "os_MkdirAll (wl_os L) w1 (wr_datadir r) = (w2, None)" and "readable (wl_os L) w2 (stateFile r)"
  shows "recoverEntry E L dir w1 q executing (wr_ID r, True)
    = Ret (fst (os_RemoveAll (wl_os L) w2 (wr_datadir r)),
        fst (en_publish E q (nipOf (wr_epoch r) (ex_NumLeaves (wr_execution r)) nip)), Inr executing)"
proof -
  have "NewRound L w1 dir (wr_epoch r) [] = Ret (w2, Inr r)"
    using NewRound_saved [OF assms(1-4,7,8), of "[]"] by simp
  moreover have "ParseUint (wr_ID r) 32 = Some (unat (wr_epoch r))"
    using assms(3,6) by (simp add: round_ok_def ParseUint_FormatUint)
  ultimately show ?thesis
    using assms(5) by (simp add: recoverEntry_def IsFinished_def service_onNewProof_def Teardown_def)
qed

end
