(* ===== verification/Config.thy ===== *)
theory Config
  imports Reg_Service Worker
begin

text \<open>
  The configuration of the server (\<open>server/config.go\<close>): default values, reading the configuration file
  and adjusting the directories to the poet directory. The \<open>go-flags\<close> package is a parameter.
\<close>

record server_Config =
  Genesis :: gotime
  PoetDir :: string
  ConfigFile :: string
  DataDir :: string
  DbDir :: string
  LogDir :: string
  DebugLog :: bool
  JSONLog :: bool
  MaxLogFiles :: int
  MaxLogFileSize :: int
  ConfigRPCListener :: string
  RawRPCListener :: string
  RawRESTListener :: string
  MetricsPort :: "16 word option"
  MaxGrpcRespSize :: int
  CPUProfile :: string
  Profile :: string
  cfg_Round :: RoundConfig
  cfg_Registration :: reg_Config
  cfg_Service :: service_Config
  DisableWorker :: bool

definition defaultDbDirName :: string where
  "defaultDbDirName = ''db''"

definition defaultDataDirname :: string where
  "defaultDataDirname = ''data''"

definition defaultLogDirname :: string where
  "defaultLogDirname = ''logs''"

text \<open>\<open>cacheDir\<close> is the result of \<open>os.UserCacheDir\<close> and \<open>now\<close> the current time.\<close>

definition defaultPoetDir :: "goerr + string \<Rightarrow> string" where
  "defaultPoetDir cacheDir = (case cacheDir of Inl _ \<Rightarrow> ''./poet'' | Inr dir \<Rightarrow> filepath_Join [dir, ''poet''])"

definition server_DefaultConfig :: "goerr + string \<Rightarrow> gotime \<Rightarrow> server_Config" where
  "server_DefaultConfig cacheDir now =
     (let poetDir = defaultPoetDir cacheDir in
      \<lparr>Genesis = now, PoetDir = poetDir, ConfigFile = [],
       DataDir = filepath_Join [poetDir, defaultDataDirname],
       DbDir = filepath_Join [poetDir, defaultDbDirName],
       LogDir = filepath_Join [poetDir, defaultLogDirname],
       DebugLog = False, JSONLog = False, MaxLogFiles = 3, MaxLogFileSize = 10,
       ConfigRPCListener = ''localhost:50001'', RawRPCListener = ''localhost:50002'',
       RawRESTListener = ''localhost:8080'', MetricsPort = None, MaxGrpcRespSize = 8 * 1024 * 1024,
       CPUProfile = [], Profile = [], cfg_Round = DefaultRoundConfig, cfg_Registration = reg_DefaultConfig,
       cfg_Service = service_DefaultConfig, DisableWorker = False\<rparr>)"

text \<open>The flags package at work: it overwrites the given configuration or fails.\<close>

definition ParseFlags :: "(server_Config \<Rightarrow> string list \<Rightarrow> goerr + server_Config) \<Rightarrow> server_Config \<Rightarrow> string list \<Rightarrow> goerr + server_Config" where
  "ParseFlags parseArgs preCfg args = parseArgs preCfg args"

definition ReadConfigFile :: "(string \<Rightarrow> server_Config \<Rightarrow> goerr + server_Config) \<Rightarrow> server_Config \<Rightarrow> goerr + server_Config" where
  "ReadConfigFile iniParse cfg =
     (if ConfigFile cfg = [] then Inr cfg
      else (case iniParse (ConfigFile cfg) cfg of
          Inl err \<Rightarrow> Inl (Wrap ''failed to read config'' err)
        | Inr cfg \<Rightarrow> Inr cfg))"

definition SetupConfig :: "goerr + string \<Rightarrow> gotime \<Rightarrow> server_Config \<Rightarrow> server_Config" where
  "SetupConfig cacheDir now cfg =
     (let defaultCfg = server_DefaultConfig cacheDir now in
      if PoetDir cfg \<noteq> DataDir defaultCfg then
        let cfg = (if DataDir cfg = DataDir defaultCfg
                   then cfg\<lparr>DataDir := filepath_Join [PoetDir cfg, defaultDataDirname]\<rparr> else cfg);
            cfg = (if LogDir cfg = LogDir defaultCfg
                   then cfg\<lparr>LogDir := filepath_Join [PoetDir cfg, defaultLogDirname]\<rparr> else cfg);
            cfg = (if DbDir cfg = DbDir defaultCfg
                   then cfg\<lparr>DbDir := filepath_Join [PoetDir cfg, defaultDbDirName]\<rparr> else cfg)
        in cfg
      else cfg)"

section \<open>Property\<close>

text \<open>
  Adjusting a configuration in which only the poet directory was chosen puts the data, log and
  database directories into the chosen directory, with one exception: when the chosen directory
  happens to be the default data directory, nothing is adjusted and the directories stay in the
  default poet directory.
\<close>

lemma poetdir_relocates_all_directories_but_one:
  "SetupConfig cacheDir now ((server_DefaultConfig cacheDir now')\<lparr>PoetDir := dir\<rparr>)
     = (let cfg = (server_DefaultConfig cacheDir now')\<lparr>PoetDir := dir\<rparr> in
        if dir = DataDir (server_DefaultConfig cacheDir now') then cfg
        else cfg\<lparr>DataDir := filepath_Join [dir, ''data''], LogDir := filepath_Join [dir, ''logs''],
                 DbDir := filepath_Join [dir, ''db'']\<rparr>)"
  by (simp add: SetupConfig_def server_DefaultConfig_def defaultDataDirname_def defaultLogDirname_def
      defaultDbDirName_def Let_def)

section \<open>The certifier key on the command line\<close>

text \<open>
  The key of the certifier is given in base64; \<open>UnmarshalFlag\<close> leaves the old value when decoding fails.
\<close>

definition Base64Enc_UnmarshalFlag :: "bytes \<Rightarrow> string \<Rightarrow> bytes \<times> goerr option" where
  "Base64Enc_UnmarshalFlag k value =
     (case DecodeString value of Inl err \<Rightarrow> (k, Some err) | Inr b \<Rightarrow> (b, None))"

text \<open>
  C37: A certifier key of the wrong length is found out by a crash. Keys in the directory of trusted
  keys are checked for their length, the configured key is not: a base64 value of at least four bytes
  but not 32 is accepted as a flag and when the service is created, and then the first submission with
  a certificate and without a key hint panics, whoever sends it and whatever the certificate contains.
\<close>

theorem unchecked_certifier_key_crashes:
  assumes "DecodeString flag = Inr key" and "4 \<le> length key" and "length key \<noteq> 32"
    and "Certifier (reg_cfg r) = Some cc" and "cc_PubKey cc = Some key"
  shows "Base64Enc_UnmarshalFlag old flag = (key, None) \<and> certifierKeys (Certifier (reg_cfg r)) \<noteq> Panic \<and>
    reg_Submit libs now await w r challenge nodeID nonce powParams None (Some cert) deadline = Panic"
proof -
  have "VerifyCertificate (rl_scale libs) (rl_newdec libs) (rl_ed25519 libs) now cert key nodeID = Panic"
    using assms(3) by (simp add: VerifyCertificate_def ed25519_Verify_def ed25519_PublicKeySize_def)
  moreover have "key \<noteq> []" using assms(2) by auto
  ultimately show ?thesis
    using assms(1,2,4,5)
    by (simp add: Base64Enc_UnmarshalFlag_def certifierKeys_def pubKeyMap_def CertKeyHintOf_def reg_Submit_def authorise_def verifyCert_def Let_def)
qed

definition short_key_reg :: "nat Registration" where
  "short_key_reg = demo_reg demo_round3\<lparr>reg_cfg := reg_DefaultConfig\<lparr>Certifier :=
     Some \<lparr>cc_URL = [], cc_PubKey = Some [0, 0, 0, 0, 0], cc_TrustedKeysDirPath = []\<rparr>\<rparr>\<rparr>"

lemma short_key_flag: "DecodeString ''AAAAAAA='' = Inr [0, 0, 0, 0, 0]"
  by code_simp

theorem unchecked_certifier_key_crashes_witness:
  "Base64Enc_UnmarshalFlag [] ''AAAAAAA='' = ([0, 0, 0, 0, 0], None) \<and> certifierKeys (Certifier (reg_cfg short_key_reg)) \<noteq> Panic \<and>
   reg_Submit demo_libs 0 (\<lambda>rnd ch. Delivered None) (demo_world [] []) short_key_reg [1] [2] 0 \<lparr>Challenge = [], Difficulty = 0\<rparr> None
     (Some \<lparr>cert_Data = [], cert_Signature = []\<rparr>) 0 = Panic"
  using unchecked_certifier_key_crashes [OF short_key_flag, of short_key_reg _ "[]" demo_libs 0 "\<lambda>rnd ch. Delivered None" "demo_world [] []"
      "[1]" "[2]" 0 "\<lparr>Challenge = [], Difficulty = 0\<rparr>" "\<lparr>cert_Data = [], cert_Signature = []\<rparr>" 0]
  by (simp add: short_key_reg_def)

end
