(* ===== verification/Migrate.thy ===== *)
theory Migrate
  imports Config
begin

text \<open>
  Moving the databases to their own directory (\<open>db/migrate.go\<close>, \<open>migrations/\<close>): at every start the
  databases found in the data directory are copied to the database directory and then removed.
\<close>

section \<open>Copying one database\<close>

text \<open>
  \<open>fs_OpenNew\<close> is \<open>leveldb.OpenFile\<close> with the option \<open>ErrorIfExist\<close>. \<open>os.IsNotExist\<close> does not look
  into wrapped errors.
\<close>

record ('w, 'h) mig_fs =
  fs_OpenNew :: "'w \<Rightarrow> string \<Rightarrow> 'w \<times> (goerr + 'h)"
  fs_RemoveAll :: "'w \<Rightarrow> string \<Rightarrow> 'w \<times> goerr option"
  fs_Stat :: "'w \<Rightarrow> string \<Rightarrow> goerr option"
  fs_ReadDir :: "'w \<Rightarrow> string \<Rightarrow> goerr + dir_entry list"

definition os_IsNotExist :: "goerr \<Rightarrow> bool" where
  "os_IsNotExist err \<longleftrightarrow> err = ErrNotExist"

fun copyItems :: "('w, 'h) leveldb_api \<Rightarrow> 'w \<Rightarrow> 'h \<Rightarrow> kvs \<Rightarrow> 'w \<times> goerr option" where
  "copyItems L w tx [] = (w, None)"
| "copyItems L w tx ((k, v) # items) =
     (case ldb_TxPut L w tx k v of
        (w, Some err) \<Rightarrow> (ldb_TxDiscard L w tx, Some (Wrap ''migrating key'' err))
      | (w, None) \<Rightarrow> copyItems L w tx items)"

text \<open>The parts of \<open>Migrate\<close> after the items are copied and after both databases are open.\<close>

definition commitAndRemove ::
  "('w, 'h) leveldb_api \<Rightarrow> ('w, 'h) mig_fs \<Rightarrow> 'w \<Rightarrow> 'h \<Rightarrow> 'h \<Rightarrow> string \<Rightarrow> 'w \<times> goerr option" where
  "commitAndRemove L F w targetDb oldDb oldDbDir =
     (case ldb_TxCommit L w targetDb of
        (w, Some err) \<Rightarrow> (w, Some (Wrap ''committing DB transaction'' err))
      | (w, None) \<Rightarrow>
          (case ldb_Close L w oldDb of
             (w, Some err) \<Rightarrow> (w, Some (Wrap ''closing old DB'' err))
           | (w, None) \<Rightarrow>
               (case fs_RemoveAll F w oldDbDir of
                  (w, Some err) \<Rightarrow> (w, Some (Wrap ''removing old DB'' err))
                | (w, None) \<Rightarrow> (w, None))))"

definition migrateInto ::
  "('w, 'h) leveldb_api \<Rightarrow> ('w, 'h) mig_fs \<Rightarrow> 'w \<Rightarrow> 'h \<Rightarrow> 'h \<Rightarrow> string \<Rightarrow> 'w \<times> goerr option" where
  "migrateInto L F w targetDb oldDb oldDbDir =
     (case ldb_OpenTransaction L w targetDb of
        (w, Some err) \<Rightarrow> (w, Some (Wrap ''opening new DB transaction'' err))
      | (w, None) \<Rightarrow>
          (case copyItems L w targetDb (fst (ldb_Items L w oldDb)) of
             (w, Some err) \<Rightarrow> (w, Some err)
           | (w, None) \<Rightarrow> commitAndRemove L F w targetDb oldDb oldDbDir))"

definition closeDb :: "('w, 'h) leveldb_api \<Rightarrow> 'w \<Rightarrow> 'h \<Rightarrow> 'w" where
  "closeDb L w h = fst (ldb_Close L w h)"

definition db_Migrate ::
  "('w, 'h) leveldb_api \<Rightarrow> ('w, 'h) mig_fs \<Rightarrow> 'w \<Rightarrow> string \<Rightarrow> string \<Rightarrow> 'w \<times> goerr option" where
  "db_Migrate L F w targetDbDir oldDbDir =
     (if oldDbDir = targetDbDir then (w, None)
      else case ldb_OpenFile L w oldDbDir True of
        (w, Inl err) \<Rightarrow>
          if os_IsNotExist err then (w, None) else (w, Some (Wrap ''opening old DB'' err))
      | (w, Inr oldDb) \<Rightarrow>
          (case fs_OpenNew F w targetDbDir of
             (w, Inl err) \<Rightarrow> (closeDb L w oldDb, Some (Wrap ''opening target DB'' err))
           | (w, Inr targetDb) \<Rightarrow>
               (case migrateInto L F w targetDb oldDb oldDbDir of
                  (w, err) \<Rightarrow> (closeDb L (closeDb L w targetDb) oldDb, err))))"

section \<open>All databases of a server\<close>

definition migrateProofsDb ::
  "('w, 'h) leveldb_api \<Rightarrow> ('w, 'h) mig_fs \<Rightarrow> 'w \<Rightarrow> server_Config \<Rightarrow> 'w \<times> goerr option" where
  "migrateProofsDb L F w cfg =
     (let proofsDbPath = filepath_Join [DbDir cfg, ''proofs''];
          oldProofsDbPath = filepath_Join [DataDir cfg, ''proofs'']
      in case db_Migrate L F w proofsDbPath oldProofsDbPath of
           (w, Some err) \<Rightarrow> (w, Some (Wrap ''migrating proofs DB'' err))
         | (w, None) \<Rightarrow> (w, None))"

definition roundDbDir :: "server_Config \<Rightarrow> string \<Rightarrow> string" where
  "roundDbDir cfg name = filepath_Join [DbDir cfg, ''rounds'', name]"

definition oldRoundDbDir :: "server_Config \<Rightarrow> string \<Rightarrow> string" where
  "oldRoundDbDir cfg name = filepath_Join [filepath_Join [DataDir cfg, ''rounds''], name, ''challengesDb'']"

fun migrateRounds ::
  "('w, 'h) leveldb_api \<Rightarrow> ('w, 'h) mig_fs \<Rightarrow> 'w \<Rightarrow> server_Config \<Rightarrow> dir_entry list \<Rightarrow> 'w \<times> goerr option" where
  "migrateRounds L F w cfg [] = (w, None)"
| "migrateRounds L F w cfg ((name, isDir) # entries) =
     (if \<not> isDir then migrateRounds L F w cfg entries
      else if ParseUint name 32 = None then (w, Some (Opaque ''entry is not a uint32''))
      else (case db_Migrate L F w (roundDbDir cfg name) (oldRoundDbDir cfg name) of
              (w, Some err) \<Rightarrow> (w, Some (Wrap ''migrating round DB'' err))
            | (w, None) \<Rightarrow> migrateRounds L F w cfg entries))"

definition migrateRoundsDbs ::
  "('w, 'h) leveldb_api \<Rightarrow> ('w, 'h) mig_fs \<Rightarrow> 'w \<Rightarrow> server_Config \<Rightarrow> 'w \<times> goerr option" where
  "migrateRoundsDbs L F w cfg =
     (let roundsDataDir = filepath_Join [DataDir cfg, ''rounds''] in
      if (case fs_Stat F w roundsDataDir of None \<Rightarrow> False | Some err \<Rightarrow> os_IsNotExist err) then (w, None)
      else (case fs_ReadDir F w roundsDataDir of
              Inl err \<Rightarrow> (w, Some err)
            | Inr entries \<Rightarrow> migrateRounds L F w cfg entries))"

definition migrateDbDir ::
  "('w, 'h) leveldb_api \<Rightarrow> ('w, 'h) mig_fs \<Rightarrow> 'w \<Rightarrow> server_Config \<Rightarrow> 'w \<times> goerr option" where
  "migrateDbDir L F w cfg =
     (case migrateProofsDb L F w cfg of
        (w, Some err) \<Rightarrow> (w, Some (Wrap ''migrating proofs DB'' err))
      | (w, None) \<Rightarrow>
          (case migrateRoundsDbs L F w cfg of
             (w, Some err) \<Rightarrow> (w, Some (Wrap ''migrating rounds DBs'' err))
           | (w, None) \<Rightarrow> (w, None)))"

definition migrations_Migrate ::
  "('w, 'h) leveldb_api \<Rightarrow> ('w, 'h) mig_fs \<Rightarrow> 'w \<Rightarrow> server_Config \<Rightarrow> 'w \<times> goerr option" where
  "migrations_Migrate L F w cfg =
     (case migrateDbDir L F w cfg of (w, Some err) \<Rightarrow> (w, Some err) | (w, None) \<Rightarrow> (w, None))"

section \<open>What the code relies on\<close>

text \<open>
  A new database is empty and its path was free. Removing a directory removes the databases in it (when
  no error is reported) and touches no other.
\<close>

definition inside :: "string \<Rightarrow> string \<Rightarrow> bool" where
  "inside d p \<longleftrightarrow> p = d \<or> take (length d + 1) p = d @ ''/''"

definition open_new_ok :: "('w, 'h) mig_fs \<Rightarrow> 'w ldb_cont \<Rightarrow> ('w, 'h) ldb_path \<Rightarrow> bool" where
  "open_new_ok F cont path \<longleftrightarrow> (\<forall>w p w' r. fs_OpenNew F w p = (w', r) \<longrightarrow>
     (case r of
        Inl e \<Rightarrow> cont w' = cont w \<and> path w' = path w
      | Inr h \<Rightarrow> path w h = None \<and> path w' = (path w)(h \<mapsto> p) \<and> cont w p = None \<and> cont w' = (cont w)(p \<mapsto> Map.empty)))"

definition remove_ok :: "('w, 'h) mig_fs \<Rightarrow> 'w ldb_cont \<Rightarrow> ('w, 'h) ldb_path \<Rightarrow> bool" where
  "remove_ok F cont path \<longleftrightarrow> (\<forall>w p w' r. fs_RemoveAll F w p = (w', r) \<longrightarrow>
     path w' = path w \<and> (\<forall>q. \<not> inside p q \<longrightarrow> cont w' q = cont w q) \<and>
     (r = None \<longrightarrow> (\<forall>q. inside p q \<longrightarrow> cont w' q = None)))"

definition mig_contract ::
  "('w, 'h) leveldb_api \<Rightarrow> ('w, 'h) mig_fs \<Rightarrow> 'w ldb_cont \<Rightarrow> ('w, 'h) ldb_path \<Rightarrow> ('w, 'h) ldb_tview \<Rightarrow> bool" where
  "mig_contract L F cont path tview \<longleftrightarrow> leveldb_contract L cont path \<and> ldb_tx_contract L cont path tview \<and>
     open_new_ok F cont path \<and> remove_ok F cont path"

section \<open>Lemmas\<close>

lemma inside_self [simp]: "inside d d"
  by (simp add: inside_def)

lemma closeDb_cont [simp]:
  assumes "leveldb_contract L cont path"
  shows "cont (closeDb L w h) = cont w"
proof (cases "path w h")
  case None
  from contract_closed(2) [OF assms this] show ?thesis by (simp add: closeDb_def)
next
  case (Some p)
  obtain w' r where "ldb_Close L w h = (w', r)" by (cases "ldb_Close L w h")
  from contract_close(1) [OF assms Some this] this show ?thesis by (simp add: closeDb_def)
qed

lemma apply_batch_Cons: "apply_batch m ((k, v) # b) = apply_batch (m(k \<mapsto> v)) b"
  by (auto simp: apply_batch_def fun_eq_iff map_add_def split: option.split)

lemma copyItems_view:
  assumes "ldb_tx_contract L cont path tview" and "path w h = Some p" and "copyItems L w h its = (w', r)"
  shows "cont w' = cont w \<and> path w' = path w \<and> (r = None \<longrightarrow> tview w' h = apply_batch (tview w h) its)"
  using assms(2,3)
proof (induction its arbitrary: w)
  case (Cons kv its)
  obtain k v where kv: "kv = (k, v)" by (cases kv)
  obtain w1 e where put: "ldb_TxPut L w h k v = (w1, e)" by (cases "ldb_TxPut L w h k v")
  note tp = tx_put [OF assms(1) Cons.prems(1) put]
  show ?case
  proof (cases e)
    case None
    then have c: "copyItems L w1 h its = (w', r)" using Cons.prems(2) kv put by simp
    have "path w1 h = Some p" using tp Cons.prems(1) by simp
    from Cons.IH [OF this c] show ?thesis using tp None kv
      by (simp add: apply_batch_Cons fun_upd_def)
  next
    case (Some err)
    have "cont (ldb_TxDiscard L w1 h) = cont w1 \<and> path (ldb_TxDiscard L w1 h) = path w1"
      using assms(1) unfolding ldb_tx_contract_def ldb_tx_end_ok_def by blast
    with Some Cons.prems(2) kv put tp show ?thesis by auto
  qed
qed simp


text \<open>What an iteration over the old database read, with the error that was left unread.\<close>

definition was_read ::
  "('w, 'h) leveldb_api \<Rightarrow> 'w ldb_cont \<Rightarrow> ('w, 'h) ldb_path \<Rightarrow> string \<Rightarrow> (bytes \<rightharpoonup> bytes) \<Rightarrow> kvs \<Rightarrow> goerr option \<Rightarrow> bool" where
  "was_read L cont path p m its e \<longleftrightarrow> (\<exists>w h. path w h = Some p \<and> cont w p = Some m \<and> ldb_Items L w h = (its, e))"

lemma was_read_all:
  assumes "leveldb_contract L cont path" and "was_read L cont path p m its None"
  shows "apply_batch Map.empty its = m"
proof -
  from assms(2) obtain w h where "path w h = Some p" "cont w p = Some m" "ldb_Items L w h = (its, None)"
    unfolding was_read_def by blast
  note c = contract_items [OF assms(1) this]
  have "map_of (rev its) = map_of its"
    using c(2) by (subst map_of_inject_set) (simp_all add: rev_map [symmetric])
  with c show ?thesis by (simp add: apply_batch_def)
qed

text \<open>
  Before and after: the old database is complete or the target holds what was read; without an error
  the target holds it and the old database is gone; everything else is untouched.
\<close>

definition moved ::
  "'w ldb_cont \<Rightarrow> 'w \<Rightarrow> 'w \<Rightarrow> goerr option \<Rightarrow> string \<Rightarrow> string \<Rightarrow> (bytes \<rightharpoonup> bytes) \<Rightarrow> (bytes \<rightharpoonup> bytes) \<Rightarrow> bool" where
  "moved cont w w' r target old m n \<longleftrightarrow>
     (cont w' old = Some m \<or> cont w' target = Some n) \<and>
     (r = None \<longrightarrow> cont w' target = Some n \<and> cont w' old = None) \<and>
     (\<forall>q. q \<noteq> target \<longrightarrow> \<not> inside old q \<longrightarrow> cont w' q = cont w q)"

lemma commitAndRemove_result:
  assumes C: "mig_contract L F cont path tview" and t: "path w t = Some target" and od: "path w od = Some old"
    and co: "cont w old = Some m" and ne: "\<not> inside old target"
    and run: "commitAndRemove L F w t od old = (w', r)"
  shows "moved cont w w' r target old m (tview w t)"
proof -
  from C have L: "leveldb_contract L cont path" and X: "ldb_tx_contract L cont path tview" and R: "remove_ok F cont path"
    by (simp_all add: mig_contract_def)
  have netp: "target \<noteq> old" using ne by auto
  obtain w3 e3 where s3: "ldb_TxCommit L w t = (w3, e3)" by (cases "ldb_TxCommit L w t")
  have p3: "path w3 = path w" "cont w3 = (cont w)(target \<mapsto> tview w t) \<or> e3 \<noteq> None \<and> cont w3 = cont w"
    using X t s3 unfolding ldb_tx_contract_def ldb_tx_end_ok_def by blast+
  obtain w4 e4 where s4: "ldb_Close L w3 od = (w4, e4)" by (cases "ldb_Close L w3 od")
  have od3: "path w3 od = Some old" using p3 od by simp
  note p4 = contract_close [OF L od3 s4]
  obtain w5 e5 where s5: "fs_RemoveAll F w4 old = (w5, e5)" by (cases "fs_RemoveAll F w4 old")
  from R [unfolded remove_ok_def, rule_format, OF s5]
  have p5: "\<And>q. \<not> inside old q \<Longrightarrow> cont w5 q = cont w4 q" "e5 = None \<Longrightarrow> cont w5 old = None" by auto
  consider (uncommitted) err where "e3 = Some err" "w' = w3" "r \<noteq> None"
    | (unclosed) err where "e3 = None" "e4 = Some err" "w' = w4" "r \<noteq> None"
    | (removed) "e3 = None" "w' = w5" "r = None \<longleftrightarrow> e5 = None"
    using run s3 s4 s5 by (cases e3; cases e4; cases e5) (auto simp: commitAndRemove_def)
  then show ?thesis
    by cases (use p3 p4 p5 co ne netp in \<open>auto simp: moved_def\<close>)
qed

lemma migrateInto_result:
  assumes C: "mig_contract L F cont path tview" and t: "path w t = Some target" and od: "path w od = Some old"
    and ct: "cont w target = Some Map.empty" and co: "cont w old = Some m" and ne: "\<not> inside old target"
    and run: "migrateInto L F w t od old = (w', r)"
  shows "\<exists>its e. was_read L cont path old m its e \<and> moved cont w w' r target old m (apply_batch Map.empty its)"
proof -
  from C have X: "ldb_tx_contract L cont path tview" by (simp add: mig_contract_def)
  obtain w1 e1 where s1: "ldb_OpenTransaction L w t = (w1, e1)" by (cases "ldb_OpenTransaction L w t")
  have p1: "cont w1 = cont w" "path w1 = path w"
    using X t ct s1 unfolding ldb_tx_contract_def ldb_tx_open_ok_def by blast+
  obtain its e where its: "ldb_Items L w1 od = (its, e)" by (cases "ldb_Items L w1 od")
  have read: "was_read L cont path old m its e"
    unfolding was_read_def using p1 od co its by metis
  obtain w2 e2 where s2: "copyItems L w1 t its = (w2, e2)" by (cases "copyItems L w1 t its")
  have t1: "path w1 t = Some target" using t p1 by simp
  note p2 = copyItems_view [OF X t1 s2]
  have "moved cont w w' r target old m (apply_batch Map.empty its)"
  proof (cases "e1 = None \<and> e2 = None")
    case True
    then have c: "commitAndRemove L F w2 t od old = (w', r)" using run s1 s2 its by (simp add: migrateInto_def)
    have v: "tview w2 t = apply_batch Map.empty its" using tx_open(3) [OF X t ct] s1 p2 True by simp
    have "path w2 t = Some target" "path w2 od = Some old" "cont w2 old = Some m" using p1 p2 t od co by simp_all
    from commitAndRemove_result [OF C this ne c] show ?thesis using p1 p2 by (simp add: v moved_def)
  next
    case False
    then have "r \<noteq> None" "w' = w1 \<or> w' = w2"
      using run s1 s2 its by (cases e1; cases e2; auto simp: migrateInto_def)+
    with p1 p2 co show ?thesis by (auto simp: moved_def)
  qed
  with read show ?thesis by blast
qed


text \<open>The two ways in which a migration of an existing database ends.\<close>

definition untouched :: "'w ldb_cont \<Rightarrow> 'w \<Rightarrow> 'w \<Rightarrow> goerr option \<Rightarrow> bool" where
  "untouched cont w w' r \<longleftrightarrow> r \<noteq> None \<and> cont w' = cont w"

lemma db_Migrate_result:
  assumes C: "mig_contract L F cont path tview" and co: "cont w old = Some m" and ne: "\<not> inside old target"
    and run: "db_Migrate L F w target old = (w', r)"
  shows "untouched cont w w' r \<or>
    (\<exists>its e. was_read L cont path old m its e \<and> moved cont w w' r target old m (apply_batch Map.empty its))"
proof -
  from C have L: "leveldb_contract L cont path" and N: "open_new_ok F cont path" by (simp_all add: mig_contract_def)
  have netp: "old \<noteq> target" using ne by auto
  obtain w1 r1 where s1: "ldb_OpenFile L w old True = (w1, r1)" by (cases "ldb_OpenFile L w old True")
  from L have "ldb_open_ok L cont path" by (simp add: leveldb_contract_def)
  note o1 = this [unfolded ldb_open_ok_def, rule_format, OF s1]
  show ?thesis
  proof (cases r1)
    case (Inl e)
    then have "\<not> os_IsNotExist e" "cont w1 = cont w" using o1 co by (auto simp: os_IsNotExist_def)
    then have "untouched cont w w' r" using run s1 Inl netp by (auto simp: db_Migrate_def untouched_def)
    then show ?thesis ..
  next
    case (Inr od)
    then have p1: "path w1 od = Some old" "cont w1 = cont w" using o1 co by auto
    obtain w2 r2 where s2: "fs_OpenNew F w1 target = (w2, r2)" by (cases "fs_OpenNew F w1 target")
    note o2 = N [unfolded open_new_ok_def, rule_format, OF s2]
    show ?thesis
    proof (cases r2)
      case (Inl e)
      then have "cont w' = cont w2" "r \<noteq> None" using run s1 s2 Inr netp closeDb_cont [OF L] by (auto simp: db_Migrate_def)
      then have "untouched cont w w' r" using o2 p1 Inl by (simp add: untouched_def)
      then show ?thesis ..
    next
      case (Inr t)
      then have p2: "path w2 t = Some target" "path w2 od = Some old" "cont w2 target = Some Map.empty" "cont w2 old = Some m"
        and frame: "\<And>q. q \<noteq> target \<Longrightarrow> cont w2 q = cont w q"
        using o2 p1 co netp by auto
      obtain w3 where s3: "migrateInto L F w2 t od old = (w3, r)" and "cont w' = cont w3"
        using run s1 s2 \<open>r1 = Inr od\<close> Inr netp closeDb_cont [OF L] by (auto simp: db_Migrate_def split: prod.splits)
      with migrateInto_result [OF C p2 ne s3] frame show ?thesis by (auto simp: moved_def)
    qed
  qed
qed

text \<open>Without an old database nothing happens.\<close>

lemma db_Migrate_missing:
  assumes C: "mig_contract L F cont path tview" and co: "cont w old = None"
    and run: "db_Migrate L F w target old = (w', r)"
  shows "cont w' = cont w"
proof -
  from C have L: "leveldb_contract L cont path" by (simp add: mig_contract_def)
  obtain w1 r1 where s1: "ldb_OpenFile L w old True = (w1, r1)" by (cases "ldb_OpenFile L w old True")
  from L have "ldb_open_ok L cont path" by (simp add: leveldb_contract_def)
  note o1 = this [unfolded ldb_open_ok_def, rule_format, OF s1]
  with co obtain e where "r1 = Inl e" by (cases r1) auto
  with o1 run s1 show ?thesis by (auto simp: db_Migrate_def split: if_splits)
qed

text \<open>With complete iterations the target gets everything.\<close>

lemma db_Migrate_complete:
  assumes C: "mig_contract L F cont path tview" and I: "iter_ok L path" and co: "cont w old = Some m"
    and ne: "\<not> inside old target" and run: "db_Migrate L F w target old = (w', r)"
  shows "moved cont w w' r target old m m"
proof -
  from C have L: "leveldb_contract L cont path" by (simp add: mig_contract_def)
  have all: "apply_batch Map.empty its = m" if "was_read L cont path old m its e" for its e
  proof -
    have "e = None" using that I by (fastforce simp: was_read_def iter_ok_def)
    with that was_read_all [OF L] show ?thesis by blast
  qed
  from db_Migrate_result [OF C co ne run] show ?thesis
  proof
    assume "untouched cont w w' r"
    then show ?thesis using co by (auto simp: untouched_def moved_def)
  qed (use all in blast)
qed

section \<open>Properties\<close>

text \<open>
  C34: A database that can be read to its end is not lost by moving it. Let the iteration over the old
  database be complete (it can end early, with the consequence stated by \<open>read_error_loses_entries\<close>) and
  let the target not be inside the directory that is removed. Whichever of the other operations fails,
  afterwards the old database still has its contents or the new one has all of them; when no error is
  reported the new one has them and the old one is gone; and no other database is touched.
\<close>

theorem migration_loses_nothing:
  assumes "mig_contract L F cont path tview" and "iter_ok L path" and "cont w old = Some m"
    and "\<not> inside old target" and "db_Migrate L F w target old = (w', r)"
  shows "(cont w' old = Some m \<or> cont w' target = Some m) \<and>
    (r = None \<longrightarrow> cont w' target = Some m \<and> cont w' old = None) \<and>
    (\<forall>q. q \<noteq> target \<longrightarrow> \<not> inside old q \<longrightarrow> cont w' q = cont w q)"
  using db_Migrate_complete [OF assms] by (simp add: moved_def)

text \<open>The directories of different rounds do not meet.\<close>

definition apart :: "server_Config \<Rightarrow> string set \<Rightarrow> bool" where
  "apart cfg names \<longleftrightarrow> (\<forall>a \<in> names. \<forall>b \<in> names. \<not> inside (oldRoundDbDir cfg a) (roundDbDir cfg b) \<and>
     (a \<noteq> b \<longrightarrow> \<not> inside (oldRoundDbDir cfg a) (oldRoundDbDir cfg b) \<and> oldRoundDbDir cfg a \<noteq> roundDbDir cfg b \<and>
        roundDbDir cfg a \<noteq> roundDbDir cfg b))"

lemma apart_mono: "apart cfg names \<Longrightarrow> names' \<subseteq> names \<Longrightarrow> apart cfg names'"
  unfolding apart_def by (meson subsetD)

lemma apart_away:
  assumes "apart cfg names" "a \<in> names" "b \<in> names" "a \<noteq> b" "q = roundDbDir cfg a \<or> q = oldRoundDbDir cfg a"
  shows "q \<noteq> roundDbDir cfg b \<and> \<not> inside (oldRoundDbDir cfg b) q"
  using assms unfolding apart_def by metis

abbreviation dirNames :: "dir_entry list \<Rightarrow> string list" where
  "dirNames entries \<equiv> map fst (filter snd entries)"

lemma db_Migrate_frame:
  assumes "mig_contract L F cont path tview" and "iter_ok L path" and "\<not> inside old target"
    and "db_Migrate L F w target old = (w', r)" and "q \<noteq> target" and "\<not> inside old q"
  shows "cont w' q = cont w q"
  using assms db_Migrate_missing [OF assms(1) _ assms(4)] db_Migrate_complete [OF assms(1,2) _ assms(3,4)]
  by (cases "cont w old") (auto simp: moved_def)

lemma migrateRounds_frame:
  assumes C: "mig_contract L F cont path tview" and I: "iter_ok L path"
    and "migrateRounds L F w cfg entries = (w', r)" and "apart cfg (set (dirNames entries))"
    and "\<forall>n \<in> set (dirNames entries). q \<noteq> roundDbDir cfg n \<and> \<not> inside (oldRoundDbDir cfg n) q"
  shows "cont w' q = cont w q"
  using assms(3-5)
proof (induction entries arbitrary: w)
  case (Cons e entries)
  obtain name isDir where e: "e = (name, isDir)" by (cases e)
  have sub: "apart cfg (set (dirNames entries))" by (rule apart_mono [OF Cons.prems(2)]) auto
  show ?case
  proof (cases "isDir \<and> ParseUint name 32 \<noteq> None")
    case True
    obtain w1 r1 where m: "db_Migrate L F w (roundDbDir cfg name) (oldRoundDbDir cfg name) = (w1, r1)"
      by (cases "db_Migrate L F w (roundDbDir cfg name) (oldRoundDbDir cfg name)")
    have "\<not> inside (oldRoundDbDir cfg name) (roundDbDir cfg name)" using Cons.prems(2) e True by (simp add: apart_def)
    from db_Migrate_frame [OF C I this m, of q] have "cont w1 q = cont w q" using Cons.prems(3) e True by simp
    moreover have "w' = w1 \<or> migrateRounds L F w1 cfg entries = (w', r)"
      using Cons.prems(1) e True m by (auto split: option.splits)
    ultimately show ?thesis using Cons.IH [of w1] Cons.prems(3) sub e by auto
  qed (use Cons e sub in \<open>auto split: if_splits\<close>)
qed simp

lemma migrateRounds_moves:
  assumes C: "mig_contract L F cont path tview" and I: "iter_ok L path"
    and "migrateRounds L F w cfg entries = (w', None)" and "apart cfg (set (dirNames entries))"
    and "distinct (dirNames entries)" and "name \<in> set (dirNames entries)" and "cont w (oldRoundDbDir cfg name) = Some m"
  shows "cont w' (roundDbDir cfg name) = Some m \<and> cont w' (oldRoundDbDir cfg name) = None"
  using assms(3-7)
proof (induction entries arbitrary: w)
  case (Cons e entries)
  obtain n isDir where e: "e = (n, isDir)" by (cases e)
  have sub: "apart cfg (set (dirNames entries))" by (rule apart_mono [OF Cons.prems(2)]) auto
  show ?case
  proof (cases isDir)
    case False
    then show ?thesis using Cons.IH [of w] Cons.prems sub e by simp
  next
    case True
    then obtain w1 where m1: "db_Migrate L F w (roundDbDir cfg n) (oldRoundDbDir cfg n) = (w1, None)"
      and rest: "migrateRounds L F w1 cfg entries = (w', None)"
      using Cons.prems(1) e by (auto split: if_splits prod.splits option.splits)
    have ne: "\<not> inside (oldRoundDbDir cfg n) (roundDbDir cfg n)" using Cons.prems(2) e True by (simp add: apart_def)
    show ?thesis
    proof (cases "n = name")
      case True
      have new: "cont w1 (roundDbDir cfg name) = Some m \<and> cont w1 (oldRoundDbDir cfg name) = None"
        using db_Migrate_complete [OF C I Cons.prems(5) ne [unfolded True] m1 [unfolded True]] by (simp add: moved_def)
      have away: "name \<notin> set (dirNames entries)" using Cons.prems(3) e \<open>isDir\<close> True by simp
      have "cont w' q = cont w1 q" if "q = roundDbDir cfg name \<or> q = oldRoundDbDir cfg name" for q
      proof (rule migrateRounds_frame [OF C I rest sub], rule ballI)
        fix b assume b: "b \<in> set (dirNames entries)"
        with away have "name \<noteq> b" by metis
        moreover have "name \<in> set (dirNames (e # entries))" "b \<in> set (dirNames (e # entries))"
          using e b \<open>isDir\<close> True by simp_all
        ultimately show "q \<noteq> roundDbDir cfg b \<and> \<not> inside (oldRoundDbDir cfg b) q"
          using apart_away [OF Cons.prems(2)] that by blast
      qed
      with new show ?thesis by simp
    next
      case False
      then have mem: "name \<in> set (dirNames entries)" using Cons.prems(4) e \<open>isDir\<close> by simp
      have "n \<in> set (dirNames (e # entries))" using e \<open>isDir\<close> by simp
      from apart_away [OF Cons.prems(2,4) this, of "oldRoundDbDir cfg name"] False
      have "oldRoundDbDir cfg name \<noteq> roundDbDir cfg n" "\<not> inside (oldRoundDbDir cfg n) (oldRoundDbDir cfg name)" by auto
      from db_Migrate_frame [OF C I ne m1 this]
      have "cont w1 (oldRoundDbDir cfg name) = cont w (oldRoundDbDir cfg name)" .
      with Cons.IH [OF rest sub _ mem] Cons.prems(3,5) e \<open>isDir\<close> show ?thesis by simp
    qed
  qed
qed simp

text \<open>
  Every round is found again after the move. When the migration of the rounds succeeds, the members
  of each round that had a database in the old place are in the database at the path under which the
  registration service opens that round, and the old database is gone.
\<close>

lemma every_round_is_migrated:
  assumes "mig_contract L F cont path tview" and "iter_ok L path"
    and "fs_Stat F w (filepath_Join [DataDir cfg, ''rounds'']) = None"
    and "fs_ReadDir F w (filepath_Join [DataDir cfg, ''rounds'']) = Inr entries"
    and "apart cfg (set (dirNames entries))" and "distinct (dirNames entries)"
    and "migrateRoundsDbs L F w cfg = (w', None)"
    and "(epochToRoundId epoch, True) \<in> set entries"
    and "cont w (oldRoundDbDir cfg (epochToRoundId epoch)) = Some m"
  shows "cont w' (roundPath (DbDir cfg) epoch) = Some m \<and> cont w' (oldRoundDbDir cfg (epochToRoundId epoch)) = None"
proof -
  have "migrateRounds L F w cfg entries = (w', None)"
    using assms(3,4,7) by (simp add: migrateRoundsDbs_def Let_def)
  moreover have "epochToRoundId epoch \<in> set (dirNames entries)" using assms(8) by force
  ultimately show ?thesis
    using migrateRounds_moves [OF assms(1,2) _ assms(5,6) _ assms(9)] by (simp add: roundPath_def roundDbDir_def)
qed


text \<open>
  C35: An unreadable database is deleted. The loop over the old database does not ask the iterator for
  its error. When reading ends early with an error and everything else works, the migration reports
  success, the new database has only what was read before the error, and the old one is removed.
\<close>

theorem read_error_loses_entries:
  assumes "mig_contract L F cont path tview" and "cont w old = Some m" and "\<not> inside old target"
    and "\<forall>w h. path w h = Some old \<longrightarrow> ldb_Items L w h = (its, Some err)"
    and "db_Migrate L F w target old = (w', None)"
  shows "cont w' target = Some (apply_batch Map.empty its) \<and> cont w' old = None"
proof -
  have "its' = its" if "was_read L cont path old m its' e" for its' e
    using that assms(4) by (auto simp: was_read_def)
  with db_Migrate_result [OF assms(1-3,5)] show ?thesis by (auto simp: untouched_def moved_def)
qed

section \<open>A concrete file system\<close>

text \<open>A directory with one round, whose database has one member.\<close>

definition ref_fs :: "(ldb_world, nat) mig_fs" where
  "ref_fs = \<lparr>fs_OpenNew = (\<lambda>w p. if map_of (stored w) p \<noteq> None then (w, Inl (Opaque ''file already exists'')) else ref_open w p False),
     fs_RemoveAll = (\<lambda>w p. (w\<lparr>stored := filter (\<lambda>s. \<not> inside p (fst s)) (stored w)\<rparr>, None)),
     fs_Stat = (\<lambda>w p. None), fs_ReadDir = (\<lambda>w p. Inr [(''LOCK'', False), (''7'', True)])\<rparr>"

lemma ref_fs_open: "open_new_ok ref_fs ref_cont ref_path"
  unfolding open_new_ok_def
proof (intro allI impI)
  fix w p w' and r :: "goerr + nat"
  assume "fs_OpenNew ref_fs w p = (w', r)"
  then consider "map_of (stored w) p \<noteq> None" "w' = w" "\<exists>e. r = Inl e"
    | "map_of (stored w) p = None" "ldb_OpenFile ref_ldb w p False = (w', r)"
    by (auto simp: ref_fs_def ref_ldb_def split: if_splits)
  then show "case r of Inl e \<Rightarrow> ref_cont w' = ref_cont w \<and> ref_path w' = ref_path w
     | Inr h \<Rightarrow> ref_path w h = None \<and> ref_path w' = (ref_path w)(h \<mapsto> p) \<and> ref_cont w p = None \<and>
         ref_cont w' = (ref_cont w)(p \<mapsto> Map.empty)"
  proof cases
    case 2
    then have "ref_cont w p = None" by (simp add: ref_cont_def)
    with 2(2) ref_ldb_open [unfolded ldb_open_ok_def, rule_format, OF 2(2)] show ?thesis
      by (auto split: sum.splits)
  qed auto
qed

lemma ref_fs_remove: "remove_ok ref_fs ref_cont ref_path"
  by (auto simp: remove_ok_def ref_fs_def ref_cont_def map_of_filter_key [of "\<lambda>k. \<not> inside _ k"])

lemma ref_mig_contract: "mig_contract ref_ldb ref_fs ref_cont ref_path ref_tview"
  by (simp add: mig_contract_def ref_leveldb_contract ref_ldb_tx ref_fs_open ref_fs_remove)

definition mig_cfg :: server_Config where
  "mig_cfg = (server_DefaultConfig (Inr ''/c'') 0)\<lparr>DataDir := ''d'', DbDir := ''n''\<rparr>"

abbreviation demo_old :: string where
  "demo_old \<equiv> ''d/rounds/7/challengesDb''"

lemma demo_dirs:
  "oldRoundDbDir mig_cfg ''7'' = demo_old" "roundDbDir mig_cfg ''7'' = ''n/rounds/7''"
  "roundPath (DbDir mig_cfg) 7 = ''n/rounds/7''" "epochToRoundId 7 = ''7''"
  by code_simp+

definition demo_mig :: ldb_world where
  "demo_mig = \<lparr>stored = [(demo_old, [([1], [2])])], opened = [], txns = [], diskFull = False\<rparr>"

lemma demo_inside: "\<not> inside demo_old ''n/rounds/7''" "inside demo_old demo_old"
  by (simp_all add: inside_def)

lemma demo_migrate: "snd (db_Migrate ref_ldb ref_fs demo_mig ''n/rounds/7'' demo_old) = None"
  by code_simp

lemma demo_mig_contents: "ref_cont demo_mig demo_old = Some [[1] \<mapsto> [2]]"
  by (simp add: ref_cont_def demo_mig_def)

theorem migration_loses_nothing_witness:
  "\<exists>w'. db_Migrate ref_ldb ref_fs demo_mig ''n/rounds/7'' demo_old = (w', None) \<and>
     ref_cont w' ''n/rounds/7'' = Some [[1] \<mapsto> [2]] \<and> ref_cont w' demo_old = None"
proof -
  obtain w' where w': "db_Migrate ref_ldb ref_fs demo_mig ''n/rounds/7'' demo_old = (w', None)"
    using demo_migrate by (metis prod.collapse)
  from migration_loses_nothing [OF ref_mig_contract ref_iter_ok demo_mig_contents demo_inside(1) w'] w' show ?thesis by blast
qed

text \<open>A database on a damaged disk: every iteration ends at once with an error.\<close>

definition damaged_ldb :: "(ldb_world, nat) leveldb_api" where
  "damaged_ldb = ref_ldb\<lparr>ldb_Items := (\<lambda>w h. ([], Some (if ref_path w h = None then ErrDbClosed else Opaque ''corrupted block'')))\<rparr>"

lemma damaged_fields:
  "ldb_OpenFile damaged_ldb = ldb_OpenFile ref_ldb" "ldb_Get damaged_ldb = ldb_Get ref_ldb"
  "ldb_Write damaged_ldb = ldb_Write ref_ldb" "ldb_Close damaged_ldb = ldb_Close ref_ldb"
  "ldb_OpenTransaction damaged_ldb = ldb_OpenTransaction ref_ldb" "ldb_TxGet damaged_ldb = ldb_TxGet ref_ldb"
  "ldb_TxPut damaged_ldb = ldb_TxPut ref_ldb" "ldb_TxCommit damaged_ldb = ldb_TxCommit ref_ldb"
  "ldb_TxDiscard damaged_ldb = ldb_TxDiscard ref_ldb"
  by (simp_all add: damaged_ldb_def)

lemma damaged_contract: "mig_contract damaged_ldb ref_fs ref_cont ref_path ref_tview"
proof -
  have "ldb_items_ok damaged_ldb ref_cont ref_path" by (simp add: ldb_items_ok_def damaged_ldb_def)
  moreover have "ldb_closed_ok damaged_ldb ref_path"
    unfolding ldb_closed_ok_def damaged_fields
    using ref_ldb_closed by (simp add: ldb_closed_ok_def damaged_ldb_def)
  moreover have "ldb_get_ok damaged_ldb ref_cont ref_path" "ldb_write_ok damaged_ldb ref_cont ref_path"
      "ldb_close_ok damaged_ldb ref_cont ref_path" "ldb_open_ok damaged_ldb ref_cont ref_path"
    using ref_ldb_get ref_ldb_write ref_ldb_close ref_ldb_open
    unfolding ldb_get_ok_def ldb_write_ok_def ldb_close_ok_def ldb_open_ok_def damaged_fields by blast+
  moreover have "ldb_tx_contract damaged_ldb ref_cont ref_path ref_tview"
    using ref_ldb_tx
    unfolding ldb_tx_contract_def ldb_tx_open_ok_def ldb_tx_get_ok_def ldb_tx_put_ok_def ldb_tx_end_ok_def damaged_fields .
  ultimately show ?thesis by (simp add: mig_contract_def leveldb_contract_def ref_fs_open ref_fs_remove)
qed

lemma damaged_migrate: "snd (db_Migrate damaged_ldb ref_fs demo_mig ''n/rounds/7'' demo_old) = None"
  by code_simp

theorem read_error_loses_entries_witness:
  "ref_cont demo_mig demo_old = Some [[1] \<mapsto> [2]] \<and>
   (\<exists>w'. db_Migrate damaged_ldb ref_fs demo_mig ''n/rounds/7'' demo_old = (w', None) \<and>
      ref_cont w' ''n/rounds/7'' = Some Map.empty \<and> ref_cont w' demo_old = None)"
proof -
  obtain w' where w': "db_Migrate damaged_ldb ref_fs demo_mig ''n/rounds/7'' demo_old = (w', None)"
    using damaged_migrate by (metis prod.collapse)
  have "\<forall>w h. ref_path w h = Some demo_old \<longrightarrow> ldb_Items damaged_ldb w h = ([], Some (Opaque ''corrupted block''))"
    by (simp add: damaged_ldb_def)
  from read_error_loses_entries [OF damaged_contract demo_mig_contents demo_inside(1) this w'] w'
  show ?thesis by (simp add: demo_mig_contents)
qed

end
