(* ===== verification/Rpc.thy ===== *)
theory Rpc
  imports Reg_Service
begin

text \<open>
  The gRPC front end (\<open>rpc/rpcserver.go\<close>): every request is checked, handed to the registration
  service, and the error of the service is translated into a status code. The conversions of the
  protobuf package are parameters.
\<close>

section \<open>Messages\<close>

text \<open>
  The message types of the generated package \<open>api\<close>, reduced to what the server reads and writes. A
  pointer or an optional byte string that is \<open>nil\<close> is \<open>None\<close>; \<open>'ts\<close> and \<open>'d\<close> are the timestamps and
  durations of protobuf.
\<close>

record api_PowParams =
  ap_Challenge :: bytes
  ap_Difficulty :: u32

record api_Certificate =
  ac_Data :: bytes
  ac_Signature :: bytes

record 'ts SubmitRequest =
  in_Nonce :: u64
  in_Prefix :: bytes
  in_Challenge :: bytes
  in_Pubkey :: bytes
  in_Signature :: bytes
  in_PowParams :: "api_PowParams option"
  in_Deadline :: "'ts option"
  in_Certificate :: "api_Certificate option"
  in_CertificatePubkeyHint :: "bytes option"

record 'd SubmitResponse =
  out_RoundId :: string
  out_RoundEnd :: 'd

record api_Cerifier =
  ci_Url :: string
  ci_Pubkey :: "bytes option"

record 'd InfoResponse =
  info_ServicePubkey :: bytes
  info_PhaseShift :: 'd
  info_CycleGap :: 'd
  info_Certifier :: "api_Cerifier option"

record ProofResponse =
  presp_Proof :: MerkleProof
  presp_Members :: "bytes list"
  presp_Leaves :: u64
  presp_Pubkey :: bytes

text \<open>The getters of the generated package return the zero value for a missing message.\<close>

definition GetChallenge :: "api_PowParams option \<Rightarrow> bytes" where
  "GetChallenge p = (case p of None \<Rightarrow> [] | Some p \<Rightarrow> ap_Challenge p)"

definition GetDifficulty :: "api_PowParams option \<Rightarrow> u32" where
  "GetDifficulty p = (case p of None \<Rightarrow> 0 | Some p \<Rightarrow> ap_Difficulty p)"

section \<open>Status codes\<close>

text \<open>
  The codes of \<open>google.golang.org/grpc/codes\<close> that the server uses; the message is a literal or the
  text of an error. \<open>PlainError\<close> is an error returned as it is.
\<close>

datatype code = InvalidArgument | Unauthenticated | ResourceExhausted | AlreadyExists
  | FailedPrecondition | Canceled | Internal | NotFound

datatype status_msg = Msg string | ErrorText goerr

datatype rpc_error = Status code status_msg | PlainError goerr

section \<open>The server\<close>

record 'h rpcServer =
  rs_registration :: "'h Registration"
  rs_phaseShift :: duration
  rs_cycleGap :: duration

definition rpc_NewServer :: "'h Registration \<Rightarrow> duration \<Rightarrow> duration \<Rightarrow> 'h rpcServer" where
  "rpc_NewServer registration phaseShift cycleGap =
     \<lparr>rs_registration = registration, rs_phaseShift = phaseShift, rs_cycleGap = cycleGap\<rparr>"

definition rpc_PowParams :: "'h rpcServer \<Rightarrow> api_PowParams" where
  "rpc_PowParams s =
     (let params = reg_PowParams (rs_registration s)
      in \<lparr>ap_Challenge = Challenge params, ap_Difficulty = ucast (Difficulty params)\<rparr>)"

text \<open>The switch on the error of the registration service.\<close>

definition submitStatus :: "goerr \<Rightarrow> rpc_error" where
  "submitStatus err =
     (if errors_Is err ErrInvalidPow \<or> errors_Is err ErrInvalidPowParams then Status InvalidArgument (ErrorText err)
      else if errors_Is err ErrInvalidCertificate then Status Unauthenticated (ErrorText err)
      else if errors_Is err ErrMaxMembersReached then Status ResourceExhausted (ErrorText err)
      else if errors_Is err ErrConflictingRegistration then Status AlreadyExists (ErrorText err)
      else if errors_Is err ErrTooLateToRegister then Status FailedPrecondition (ErrorText err)
      else if errors_Is err ErrCanceled then Status Canceled (ErrorText err)
      else Status Internal (Msg ''unknown error submitting challenge''))"

text \<open>
  \<open>asTime\<close> and \<open>newDuration\<close> are the conversions of protobuf; \<open>now\<close> is the time at which certificates
  are checked and \<open>later\<close> the time at which the response is made.
\<close>

definition rpc_Submit ::
  "('w, 'h, 't, 'sw, 'sr) reg_libs \<Rightarrow> ('ts \<Rightarrow> gotime) \<Rightarrow> (duration \<Rightarrow> 'd) \<Rightarrow> gotime \<Rightarrow> gotime \<Rightarrow>
   ('h round \<Rightarrow> nat \<Rightarrow> waitResult) \<Rightarrow> 'w \<Rightarrow> 'h rpcServer \<Rightarrow> 'ts SubmitRequest \<Rightarrow>
   ('w \<times> 'h rpcServer \<times> (rpc_error + 'd SubmitResponse)) outcome" where
  "rpc_Submit libs asTime newDuration now later await w s req =
     (if length (in_Challenge req) \<noteq> NodeSize then
        Ret (w, s, Inl (Status InvalidArgument (Msg ''invalid challenge'')))
      else if length (in_Pubkey req) \<noteq> ed25519_PublicKeySize then
        Ret (w, s, Inl (Status InvalidArgument (Msg ''invalid public key'')))
      else case ed25519_Verify (rl_ed25519 libs) (in_Pubkey req) (in_Prefix req @ in_Challenge req) (in_Signature req) of
        Panic \<Rightarrow> Panic
      | Ret False \<Rightarrow> Ret (w, s, Inl (Status InvalidArgument (Msg ''invalid signature'')))
      | Ret True \<Rightarrow>
          let powParams = \<lparr>Challenge = GetChallenge (in_PowParams req),
                           Difficulty = ucast (GetDifficulty (in_PowParams req))\<rparr>;
              deadline = (case in_Deadline req of None \<Rightarrow> zeroTime | Some ts \<Rightarrow> asTime ts);
              certificate = map_option (\<lambda>c. \<lparr>cert_Data = ac_Data c, cert_Signature = ac_Signature c\<rparr>) (in_Certificate req)
          in if (case in_CertificatePubkeyHint req of None \<Rightarrow> False | Some hint \<Rightarrow> length hint \<noteq> 4) then
               Ret (w, s, Inl (Status InvalidArgument (Msg ''invalid certificate public key hint'')))
             else (case reg_Submit libs now await w (rs_registration s) (in_Challenge req) (in_Pubkey req)
                          (in_Nonce req) powParams (in_CertificatePubkeyHint req) certificate deadline of
                 Panic \<Rightarrow> Panic
               | Ret (w, r, epoch, endTime, err) \<Rightarrow>
                   Ret (w, s\<lparr>rs_registration := r\<rparr>,
                     (case err of
                        Some err \<Rightarrow> Inl (submitStatus err)
                      | None \<Rightarrow> Inr \<lparr>out_RoundId = FormatUint epoch,
                                     out_RoundEnd = newDuration (Time_Sub endTime later)\<rparr>))))"

definition rpc_Info :: "(duration \<Rightarrow> 'd) \<Rightarrow> 'h rpcServer \<Rightarrow> 'd InfoResponse" where
  "rpc_Info newDuration s =
     \<lparr>info_ServicePubkey = reg_Pubkey (rs_registration s),
      info_PhaseShift = newDuration (rs_phaseShift s),
      info_CycleGap = newDuration (rs_cycleGap s),
      info_Certifier =
        (case CertifierInfo (rs_registration s) of
           None \<Rightarrow> None
         | Some cc \<Rightarrow> if 0 < length (cc_URL cc) then Some \<lparr>ci_Url = cc_URL cc, ci_Pubkey = cc_PubKey cc\<rparr> else None)\<rparr>"

definition rpc_Proof ::
  "('w, 'h, 't, 'sw, 'sr) reg_libs \<Rightarrow> 'w \<Rightarrow> 'h rpcServer \<Rightarrow> string \<Rightarrow> rpc_error + ProofResponse" where
  "rpc_Proof libs w s roundId =
     (case reg_Proof libs w (rs_registration s) roundId of
        Inl err \<Rightarrow>
          if errors_Is err ErrNotFound then Inl (Status NotFound (Msg ''proof not found''))
          else Inl (Status Internal (ErrorText err))
      | Inr msg \<Rightarrow>
          let p = pd_Proof msg
          in Inr \<lparr>presp_Proof = \<lparr>Root = Root p, ProvenLeaves = ProvenLeaves p, ProofNodes = ProofNodes p\<rparr>,
                  presp_Members = pr_Members p, presp_Leaves = pr_NumLeaves p,
                  presp_Pubkey = pd_ServicePubKey msg\<rparr>)"

definition rpc_ReloadTrustedKeys ::
  "walkEntry list \<Rightarrow> 'h rpcServer \<Rightarrow> ('h rpcServer \<times> rpc_error option) outcome" where
  "rpc_ReloadTrustedKeys walk s =
     (case LoadTrustedPublicKeys walk (rs_registration s) of
        Panic \<Rightarrow> Panic
      | Ret (r, err) \<Rightarrow> Ret (s\<lparr>rs_registration := r\<rparr>, map_option PlainError err))"

section \<open>Lemmas\<close>

text \<open>What \<open>rpc_Submit\<close> hands to the registration service.\<close>

definition powParamsOf :: "'ts SubmitRequest \<Rightarrow> PowParams" where
  "powParamsOf req = \<lparr>Challenge = GetChallenge (in_PowParams req), Difficulty = ucast (GetDifficulty (in_PowParams req))\<rparr>"

definition deadlineOf :: "('ts \<Rightarrow> gotime) \<Rightarrow> 'ts SubmitRequest \<Rightarrow> gotime" where
  "deadlineOf asTime req = (case in_Deadline req of None \<Rightarrow> zeroTime | Some ts \<Rightarrow> asTime ts)"

definition certificateOf :: "'ts SubmitRequest \<Rightarrow> OpaqueCert option" where
  "certificateOf req = map_option (\<lambda>c. \<lparr>cert_Data = ac_Data c, cert_Signature = ac_Signature c\<rparr>) (in_Certificate req)"

text \<open>The checks that a request passes before the registration service sees it.\<close>

definition well_formed :: "('w, 'h, 't, 'sw, 'sr) reg_libs \<Rightarrow> 'ts SubmitRequest \<Rightarrow> bool" where
  "well_formed libs req \<longleftrightarrow> length (in_Challenge req) = 32 \<and> length (in_Pubkey req) = 32 \<and>
     rl_ed25519 libs (in_Pubkey req) (in_Prefix req @ in_Challenge req) (in_Signature req) \<and>
     (\<forall>hint. in_CertificatePubkeyHint req = Some hint \<longrightarrow> length hint = 4)"

lemma rpc_Submit_malformed:
  assumes "\<not> well_formed libs req"
  shows "\<exists>msg. rpc_Submit libs asTime newDuration now later await w s req
    = Ret (w, s, Inl (Status InvalidArgument (Msg msg)))"
proof -
  consider "length (in_Challenge req) \<noteq> 32" | "length (in_Challenge req) = 32" "length (in_Pubkey req) \<noteq> 32"
    | "length (in_Challenge req) = 32" "length (in_Pubkey req) = 32"
      "\<not> rl_ed25519 libs (in_Pubkey req) (in_Prefix req @ in_Challenge req) (in_Signature req)"
    | hint where "length (in_Challenge req) = 32" "length (in_Pubkey req) = 32"
      "rl_ed25519 libs (in_Pubkey req) (in_Prefix req @ in_Challenge req) (in_Signature req)"
      "in_CertificatePubkeyHint req = Some hint" "length hint \<noteq> 4"
    using assms unfolding well_formed_def by blast
  then show ?thesis
    by cases (simp_all add: rpc_Submit_def ed25519_Verify_def ed25519_PublicKeySize_def Let_def)
qed

lemma rpc_Submit_well_formed:
  assumes "well_formed libs req"
  shows "rpc_Submit libs asTime newDuration now later await w s req =
    (case reg_Submit libs now await w (rs_registration s) (in_Challenge req) (in_Pubkey req) (in_Nonce req)
            (powParamsOf req) (in_CertificatePubkeyHint req) (certificateOf req) (deadlineOf asTime req) of
       Panic \<Rightarrow> Panic
     | Ret (w, r, epoch, endTime, err) \<Rightarrow>
         Ret (w, s\<lparr>rs_registration := r\<rparr>,
           (case err of
              Some err \<Rightarrow> Inl (submitStatus err)
            | None \<Rightarrow> Inr \<lparr>out_RoundId = FormatUint epoch, out_RoundEnd = newDuration (Time_Sub endTime later)\<rparr>)))"
  using assms
  by (auto simp: rpc_Submit_def well_formed_def ed25519_Verify_def ed25519_PublicKeySize_def Let_def powParamsOf_def
      deadlineOf_def certificateOf_def split: option.split)

section \<open>Properties\<close>

text \<open>The submissions with a channel of their own, after one more call of \<open>submit\<close>.\<close>

definition with_submission :: "'h round \<Rightarrow> 'h round \<Rightarrow> bytes \<times> bytes \<Rightarrow> kvs \<Rightarrow> kvs" where
  "with_submission r r' sub subs = (if length (r_chans r') = length (r_chans r) then subs else subs @ [sub])"

lemma submit_with_submission:
  assumes "leveldb_contract L cont path" and "round_core cont path dbp cap w r subs" and "timer_ok r"
    and "submit L w r key c = (w', r', Inr ch)"
  shows "with_submission r r' (key, c) subs = subs @ [(key, c)]"
  using submit_core(1) [OF assms] assms(2) by (auto simp: with_submission_def round_core_def chans_ok_def)

text \<open>
  C31: A client that gets a round id is registered. Let the open round be in any state it gets into after
  it was opened, let the request be answered in any later state of that round, with what its channel
  delivers there, and let a read error of the database not pose as one of the service's own errors. When
  \<open>Submit\<close> answers with a round, the request was well formed (a 32-byte challenge signed, behind the
  prefix, by the 32-byte key it names), the node was admitted by an unexpired certificate of a candidate
  key or, without certificate or certifier, by its proof of work, and the round named is the open one
  and ends within the requested deadline. Moreover the database of that round holds the challenge under
  the client's key when the answer is given; or the same challenge had been submitted under this key
  before, and was stored or waited to be written when the request came in.
\<close>

theorem rpc_submit_success_means_registered:
  assumes "rpc_Submit libs asTime newDuration now later await w s req = Ret (w', s', Inr resp)"
    and "r = rs_registration s" and "dbp = roundPath (reg_dbdir r) (OpenRound r)"
    and "leveldb_contract (rl_ldb libs) cont path"
    and "newRound (rl_ldb libs) w0 (OpenRound r) (reg_dbdir r) options = (w1, Inr r0)"
    and "snd (ldb_Items (rl_ldb libs) w1 (r_db r0)) = None"
    and "(round_step (rl_ldb libs) cont path dbp)\<^sup>*\<^sup>* (w1, r0, []) (w, reg_openRound r, subs)"
    and "\<forall>k e. ldb_Get (rl_ldb libs) w (r_db (reg_openRound r)) k = Inl e \<longrightarrow> \<not> errors_Is e ErrChallengeAlreadySubmitted"
    and "r1 = reg_openRound (rs_registration s')"
    and "(round_step (rl_ldb libs) cont path dbp)\<^sup>*\<^sup>*
      (w', r1, with_submission (reg_openRound r) r1 (in_Pubkey req, in_Challenge req) subs) (w2, r2, subs2)"
    and "\<forall>ch. await r1 ch \<in> waitDone (r_chans r2 ! ch)"
  shows "well_formed libs req \<and>
    (case (Certifier (reg_cfg r), certificateOf req) of
       (Some cc, Some cert) \<Rightarrow> \<exists>key \<in> candidate_keys r cc (in_CertificatePubkeyHint req).
          certified_by libs now cert (in_Pubkey req) key
     | _ \<Rightarrow> VerifyWithParams (rl_ripemd libs) (reg_powVerifiers r) (in_Challenge req)
          (in_Pubkey req) (in_Nonce req) (powParamsOf req) = Ret None) \<and>
    (\<exists>endTime. endTime = RoundEnd (reg_roundCfg r) (reg_genesis r) (OpenRound r) \<and>
       (deadlineOf asTime req = zeroTime \<or> endTime \<le> deadlineOf asTime req) \<and>
       resp = \<lparr>out_RoundId = epochToRoundId (OpenRound r), out_RoundEnd = newDuration (Time_Sub endTime later)\<rparr>) \<and>
    ((\<exists>m. cont w2 dbp = Some m \<and> m (in_Pubkey req) = Some (in_Challenge req)) \<or>
     (\<exists>m. cont w dbp = Some m \<and> m (in_Pubkey req) = Some (in_Challenge req)) \<or>
     (\<exists>p. map_of (r_pendingSubmits (reg_openRound r)) (in_Pubkey req) = Some p \<and> p_challenge p = in_Challenge req))"
proof -
  have wf: "well_formed libs req"
  proof (rule ccontr)
    assume "\<not> well_formed libs req"
    from rpc_Submit_malformed [OF this] assms(1) show False by (metis Pair_inject outcome.inject(1) sum.distinct(1))
  qed
  obtain r' epoch endTime where sub: "reg_Submit libs now await w r (in_Challenge req) (in_Pubkey req)
      (in_Nonce req) (powParamsOf req) (in_CertificatePubkeyHint req) (certificateOf req) (deadlineOf asTime req)
      = Ret (w', r', epoch, endTime, None)" and s': "rs_registration s' = r'"
    and resp: "resp = \<lparr>out_RoundId = FormatUint epoch, out_RoundEnd = newDuration (Time_Sub endTime later)\<rparr>"
    using assms(1,2) unfolding rpc_Submit_well_formed [OF wf] by (auto split: outcome.splits option.splits)
  note ok = reg_Submit_success [OF sub]
  note reach = assms(7) [unfolded assms(3)]
  note core = round_reachable [OF assms(4-6) reach]
  from ok obtain res where res: "submit (rl_ldb libs) w (reg_openRound r) (in_Pubkey req) (in_Challenge req) = (w', r1, res)"
    "case res of Inr ch \<Rightarrow> await r1 ch = Delivered None | Inl err \<Rightarrow> errors_Is err ErrChallengeAlreadySubmitted"
    using s' assms(9) by blast
  have stored: "(\<exists>m. cont w2 dbp = Some m \<and> m (in_Pubkey req) = Some (in_Challenge req)) \<or>
     (\<exists>m. cont w dbp = Some m \<and> m (in_Pubkey req) = Some (in_Challenge req)) \<or>
     (\<exists>p. map_of (r_pendingSubmits (reg_openRound r)) (in_Pubkey req) = Some p \<and> p_challenge p = in_Challenge req)"
  proof (cases res)
    case (Inr ch)
    note sb = res(1) [unfolded Inr]
    note run = assms(10) [unfolded submit_with_submission [OF assms(4) core sb] assms(3)]
    have "Delivered None \<in> waitDone (r_chans r2 ! ch)" using assms(11) res(2) Inr by (metis sum.simps(6))
    from delivered_is_stored [OF assms(4-6) reach sb run this] show ?thesis unfolding assms(3) by blast
  next
    case (Inl err)
    have "errors_Is err ErrChallengeAlreadySubmitted" using res(2) Inl by simp
    from repeated_is_known [OF assms(4) core(1) res(1) [unfolded Inl] this] assms(8) show ?thesis unfolding assms(3) by blast
  qed
  from ok wf resp stored show ?thesis by (auto simp: epochToRoundId_def OpenRound_def)
qed

definition blames_request :: "goerr \<Rightarrow> bool" where
  "blames_request e \<longleftrightarrow> (\<exists>c msg. submitStatus e = Status c msg \<and>
     c \<in> {InvalidArgument, Unauthenticated, ResourceExhausted, AlreadyExists, FailedPrecondition})"

lemma reg_Submit_refused:
  assumes "reg_Submit libs now await w r challenge nodeID nonce powParams hint certificate deadline
    = Ret (w', r', epoch, endTime, Some err)"
    and "\<forall>rnd ch e. await rnd ch = CtxDone e \<or> await rnd ch = Delivered (Some e) \<longrightarrow> \<not> blames_request e"
    and "blames_request err"
  shows "w' = w \<and> r' = r"
proof (cases "authorise libs now r challenge nodeID nonce powParams hint certificate")
  case (Ret res)
  have keep: "r\<lparr>reg_openRound := reg_openRound r\<rparr> = r" by simp
  obtain w1 rnd out where s: "submit (rl_ldb libs) w (reg_openRound r) nodeID challenge = (w1, rnd, out)"
    by (metis prod_cases3)
  show ?thesis
  proof (cases res)
    case None
    with Ret s assms show ?thesis using submit_rejected_unchanged [of "rl_ldb libs" w "reg_openRound r" nodeID challenge w1 rnd]
      by (cases out) (auto simp: reg_Submit_def Let_def split: if_splits waitResult.splits option.splits)
  qed (use Ret assms(1) in \<open>simp add: reg_Submit_def\<close>)
qed (use assms(1) in \<open>simp add: reg_Submit_def\<close>)

text \<open>
  C32: A refused request leaves no trace. When \<open>Submit\<close> answers with one of the codes that blame the
  request (invalid argument, unauthenticated, resource exhausted, already exists, failed precondition),
  neither the databases nor the registration service have changed; waiting for the result of an
  accepted submission ends with other errors only (the context's, or those of the database).
\<close>

theorem refused_request_has_no_effect:
  assumes "rpc_Submit libs asTime newDuration now later await w s req = Ret (w', s', Inl (Status c msg))"
    and "c \<in> {InvalidArgument, Unauthenticated, ResourceExhausted, AlreadyExists, FailedPrecondition}"
    and "\<forall>rnd ch e. await rnd ch = CtxDone e \<or> await rnd ch = Delivered (Some e) \<longrightarrow> \<not> blames_request e"
  shows "w' = w \<and> s' = s"
proof (cases "well_formed libs req")
  case True
  obtain r' epoch endTime err where sub: "reg_Submit libs now await w (rs_registration s) (in_Challenge req) (in_Pubkey req)
      (in_Nonce req) (powParamsOf req) (in_CertificatePubkeyHint req) (certificateOf req) (deadlineOf asTime req)
      = Ret (w', r', epoch, endTime, Some err)"
    and s': "s' = s\<lparr>rs_registration := r'\<rparr>" and "submitStatus err = Status c msg"
    using assms(1) unfolding rpc_Submit_well_formed [OF True] by (auto split: outcome.splits option.splits)
  with assms(2) have "blames_request err" by (auto simp: blames_request_def)
  from reg_Submit_refused [OF sub assms(3) this] s' show ?thesis by simp
next
  case False
  from rpc_Submit_malformed [OF this] assms(1) show ?thesis by (metis Pair_inject outcome.inject(1))
qed

text \<open>
  A stored proof is served to every client. After a proof was saved for a round, \<open>Proof\<close> answers a
  request for the id of that round with exactly the Merkle proof, leaf count, members and service key
  that were saved, unless reading the database fails.
\<close>

lemma rpc_proof_serves_saved_proof:
  assumes "ldb_put_ok (rl_ldb libs) cont path" and "ldb_get_ok (rl_ldb libs) cont path" and "xdr_ok (rl_xdr libs)"
    and "path w (db_db (reg_db (rs_registration s))) = Some p" and "cont w p = Some m"
    and "SaveProof (rl_ldb libs) (rl_xdr libs) w (reg_db (rs_registration s)) nip members = (w', None)"
    and "\<forall>k e. ldb_Get (rl_ldb libs) w' (db_db (reg_db (rs_registration s))) k = Inl e \<longrightarrow> errors_Is e ErrNotFound"
  shows "rpc_Proof libs w' s (epochToRoundId (Epoch nip)) =
    Inr \<lparr>presp_Proof = \<lparr>Root = Root nip, ProvenLeaves = ProvenLeaves nip, ProofNodes = ProofNodes nip\<rparr>,
         presp_Members = members, presp_Leaves = Leaves nip,
         presp_Pubkey = db_pubkey (reg_db (rs_registration s))\<rparr>"
  using SaveProof_GetProof [OF assms] by (simp add: rpc_Proof_def reg_Proof_def proofOf_def Let_def)

section \<open>A concrete server\<close>

definition demo_req :: "gotime SubmitRequest" where
  "demo_req = \<lparr>in_Nonce = 5, in_Prefix = [], in_Challenge = replicate 32 70, in_Pubkey = demo_node,
     in_Signature = replicate 32 70, in_PowParams = Some \<lparr>ap_Challenge = [4], ap_Difficulty = 0\<rparr>, in_Deadline = None,
     in_Certificate = None, in_CertificatePubkeyHint = None\<rparr>"

abbreviation demo_pending :: "bytes \<Rightarrow> nat round" where
  "demo_pending c \<equiv> demo_round 0 [open_chan] [(demo_node, \<lparr>p_done = 0, p_challenge = c\<rparr>)]"

abbreviation demo_w1 :: ldb_world where
  "demo_w1 \<equiv> demo_world [Some ''db/rounds/1''] [(''db/rounds/1'', [])]"

lemma demo_authorise:
  "authorise demo_libs 0 (demo_reg rnd) c demo_node 5 (NewPowParams [4] 0) None None = Ret None"
  by (simp add: authorise_def demo_reg_def reg_DefaultConfig_def demo_libs_def VerifyWithParams_def
      powVerifier_Params_def NewPowVerifier_def powVerifier_Verify_def NewPowParams_def CheckLeadingZeroBits_def
      powHasher_Hash_def NewPowHasher_def Let_def hash_Sum_def checkZeroBytes.simps [of "[0]" 0 0])

lemma demo_submit_success:
  "reg_Submit demo_libs 0 (\<lambda>rnd ch. if ch = 0 then Delivered None else CtxDone ErrCanceled) demo_w1 (demo_reg (demo_round 0 [] [])) c demo_node 5
     (NewPowParams [4] 0) None None zeroTime
   = Ret (demo_w1, demo_reg (demo_pending c), 1, RoundEnd DefaultRoundConfig 0 1, None)"
proof -
  have "submit (rl_ldb demo_libs) demo_w1 (demo_round 0 [] []) demo_node c = (demo_w1, demo_pending c, Inr 0)"
    by (simp add: demo_libs_def submit_def enqueue_def demo_round_def demo_world_def ref_ldb_def ref_path_def ref_kvs_def
        ref_lookup_def open_chan_def Let_def)
  then show ?thesis
    using demo_authorise [of "demo_round 0 [] []" c] by (simp add: reg_Submit_def demo_reg_def Let_def demo_round_def)
qed


definition demo_server :: "nat Registration \<Rightarrow> nat rpcServer" where
  "demo_server r = rpc_NewServer r (PhaseShift DefaultRoundConfig) (CycleGap DefaultRoundConfig)"

abbreviation demo_await :: "nat round \<Rightarrow> nat \<Rightarrow> waitResult" where
  "demo_await \<equiv> \<lambda>rnd ch. Delivered None"

lemma demo_well_formed: "well_formed demo_libs demo_req"
  by (simp add: well_formed_def demo_req_def demo_libs_def)

text \<open>The flush timer of the round fires while the client waits.\<close>

abbreviation demo_w2 :: ldb_world where
  "demo_w2 \<equiv> demo_world [Some ''db/rounds/1''] [(''db/rounds/1'', [(demo_node, replicate 32 70)]), (''db/rounds/1'', [])]"

lemma demo_answered:
  "(round_step ref_ldb ref_cont ref_path (roundPath ''db'' 1))\<^sup>*\<^sup>*
     (demo_w1, demo_pending (replicate 32 70), [(demo_node, replicate 32 70)])
     (demo_w2, demo_round 1 [settled_chan None] [], [(demo_node, replicate 32 70)])"
proof -
  have "timedFlushPendingSubmits ref_ldb demo_w1 (demo_pending (replicate 32 70)) = (demo_w2, demo_round 1 [settled_chan None] [])"
    by (simp add: timedFlushPendingSubmits_def flushPendingSubmitsLocked_def demo_round_def demo_world_def ref_ldb_def
        ref_append_def ref_path_def ref_kvs_def chan_deliver_def open_chan_def settled_chan_def)
  then show ?thesis by (intro r_into_rtranclp step_timer)
qed

abbreviation first_await :: "nat round \<Rightarrow> nat \<Rightarrow> waitResult" where
  "first_await \<equiv> \<lambda>rnd ch. if ch = 0 then Delivered None else CtxDone ErrCanceled"

theorem rpc_submit_success_means_registered_witness:
  "\<exists>resp m. rpc_Submit demo_libs (\<lambda>t. t) (\<lambda>d. d) 0 0 first_await demo_w1 (demo_server (demo_reg (demo_round 0 [] []))) demo_req
     = Ret (demo_w1, demo_server (demo_reg (demo_pending (replicate 32 70))), Inr resp) \<and> out_RoundId resp = ''1'' \<and>
     VerifyWithParams (rl_ripemd demo_libs) (reg_powVerifiers (demo_reg (demo_round 0 [] []))) (in_Challenge demo_req)
       (in_Pubkey demo_req) (in_Nonce demo_req) (powParamsOf demo_req) = Ret None \<and>
     ref_cont demo_w1 ''db/rounds/1'' = Some Map.empty \<and>
     ref_cont demo_w2 ''db/rounds/1'' = Some m \<and> m (in_Pubkey demo_req) = Some (in_Challenge demo_req)"
proof -
  let ?s = "demo_server (demo_reg (demo_round 0 [] []))" and ?rnd = "demo_pending (replicate 32 70)"
  let ?s' = "demo_server (demo_reg ?rnd)"
  have args: "powParamsOf demo_req = NewPowParams [4] 0" "certificateOf demo_req = None" "deadlineOf (\<lambda>t. t) demo_req = zeroTime"
    by (simp_all add: powParamsOf_def certificateOf_def deadlineOf_def demo_req_def GetChallenge_def GetDifficulty_def NewPowParams_def)
  have req: "in_Challenge demo_req = replicate 32 70" "in_Pubkey demo_req = demo_node" "in_Nonce demo_req = 5"
      "in_CertificatePubkeyHint demo_req = None"
    by (simp_all add: demo_req_def)
  have regs: "rs_registration (demo_server x) = x" for x by (simp add: demo_server_def rpc_NewServer_def)
  have open1: "OpenRound (demo_reg (demo_round 0 [] [])) = 1" "reg_dbdir (demo_reg x) = ''db''" "reg_openRound (demo_reg x) = x"
    "rl_ldb demo_libs = ref_ldb" for x
    by (simp_all add: OpenRound_def demo_reg_def demo_round_def demo_libs_def)
  obtain resp where c: "rpc_Submit demo_libs (\<lambda>t. t) (\<lambda>d. d) 0 0 first_await demo_w1 ?s demo_req = Ret (demo_w1, ?s', Inr resp)"
    unfolding rpc_Submit_well_formed [OF demo_well_formed] args req regs demo_submit_success
    by (simp add: demo_server_def rpc_NewServer_def)
  have subs: "with_submission (demo_round 0 [] []) ?rnd (demo_node, replicate 32 70) [] = [(demo_node, replicate 32 70)]"
    by (simp add: with_submission_def demo_round_def)
  have get: "\<forall>k e. ldb_Get ref_ldb demo_w1 (r_db (demo_round 0 [] [])) k = Inl e \<longrightarrow> \<not> errors_Is e ErrChallengeAlreadySubmitted"
    by (simp add: ref_ldb_def ref_path_def ref_kvs_def ref_lookup_def demo_world_def demo_round_def)
  have aw: "\<forall>ch. first_await ?rnd ch \<in> waitDone (r_chans (demo_round 1 [settled_chan None] []) ! ch)"
    by (simp add: waitDone_def demo_round_def settled_chan_def)
  have "epochToRoundId 1 = ''1''" by code_simp
  moreover have "ref_cont demo_w1 ''db/rounds/1'' = Some Map.empty" by (simp add: ref_cont_def demo_world_def)
  ultimately show ?thesis
    using rpc_submit_success_means_registered [OF c refl refl, of ref_cont ref_path, unfolded regs open1 req,
      OF ref_leveldb_contract demo_open demo_items rtranclp.rtrancl_refl get refl, unfolded subs, OF demo_answered aw] c
    by (auto simp: demo_path req demo_round_def demo_reg_def reg_DefaultConfig_def args)
qed

text \<open>A request whose signature does not fit.\<close>

theorem refused_request_has_no_effect_witness:
  "\<exists>msg. rpc_Submit demo_libs (\<lambda>t. t) (\<lambda>d. d) 0 0 demo_await demo_w1 (demo_server (demo_reg (demo_round 0 [] [])))
     (demo_req\<lparr>in_Signature := []\<rparr>)
   = Ret (demo_w1, demo_server (demo_reg (demo_round 0 [] [])), Inl (Status InvalidArgument (Msg msg)))"
proof -
  let ?call = "rpc_Submit demo_libs (\<lambda>t. t) (\<lambda>d. d) 0 0 demo_await demo_w1 (demo_server (demo_reg (demo_round 0 [] [])))
     (demo_req\<lparr>in_Signature := []\<rparr>)"
  have c: "\<exists>w' s' msg. ?call = Ret (w', s', Inl (Status InvalidArgument (Msg msg)))"
    by (simp add: rpc_Submit_def demo_req_def demo_libs_def ed25519_Verify_def ed25519_PublicKeySize_def)
  then obtain w' s' msg where r: "?call = Ret (w', s', Inl (Status InvalidArgument (Msg msg)))" by blast
  from refused_request_has_no_effect [OF r] r show ?thesis by simp
qed

end
