(* ===== verification/Reg_Run.thy ===== *)
theory Reg_Run
  imports Rpc
begin

text \<open>
  The running registration service: \<open>Registration.Run\<close>, the flush timer of the open round and the
  requests of clients as steps of one system. Each handler is one step; the order of the steps is
  arbitrary. A \<open>select\<close> of the worker's transport may have several outcomes, so \<open>execs\<close> is the set of
  outcomes of \<open>ExecuteRound\<close> and \<open>recv\<close> that of receiving a proof.
\<close>

section \<open>The loop\<close>

datatype run_phase = Recovering | Running | Finished "goerr option"

type_synonym ('w, 'q, 'h) srv_state = "'w \<times> 'q \<times> 'h rpcServer \<times> run_phase"

definition allowed_exec :: "('q \<Rightarrow> uint \<Rightarrow> bytes \<Rightarrow> ('q \<times> goerr option) set) \<Rightarrow> 'q exec_round \<Rightarrow> bool" where
  "allowed_exec execs exec \<longleftrightarrow> (\<forall>q epoch root. exec q epoch root \<in> execs q epoch root)"

text \<open>
  The timer of the loop is set to the time until the open round starts, so it fires at or after the
  start. An error of closing a round or of storing a proof is only logged.
\<close>

inductive run_step ::
  "('w, 'h, 't, 'sw, 'sr) reg_libs \<Rightarrow> ('q \<Rightarrow> uint \<Rightarrow> bytes \<Rightarrow> ('q \<times> goerr option) set) \<Rightarrow> ('q \<Rightarrow> ('q \<times> NIP) set) \<Rightarrow>
   ('w, 'q, 'h) srv_state \<Rightarrow> ('w, 'q, 'h) srv_state \<Rightarrow> bool"
  for libs execs recv where
  run_first_round: "OpenRound (rs_registration s) = 0 \<Longrightarrow>
     run_step libs execs recv (w, q, s, Recovering) (w, q, s, Running)"
| run_recovered: "OpenRound (rs_registration s) \<noteq> 0 \<Longrightarrow> allowed_exec execs exec \<Longrightarrow>
     recoverExecution libs exec w q (rs_registration s) (OpenRound (rs_registration s) - 1) = (w', q', None) \<Longrightarrow>
     run_step libs execs recv (w, q, s, Recovering) (w', q', s, Running)"
| run_unrecovered: "OpenRound (rs_registration s) \<noteq> 0 \<Longrightarrow> allowed_exec execs exec \<Longrightarrow>
     recoverExecution libs exec w q (rs_registration s) (OpenRound (rs_registration s) - 1) = (w', q', Some err) \<Longrightarrow>
     run_step libs execs recv (w, q, s, Recovering) (w', q', s, Finished (Some (Wrap ''recovering execution'' err)))"
| run_shutdown: "run_step libs execs recv (w, q, s, Running) (w, q, s, Finished None)"
| run_timer: "allowed_exec execs exec \<Longrightarrow> sint (scheduleRound now (rs_registration s) (OpenRound (rs_registration s))) \<le> 0 \<Longrightarrow>
     closeRound libs exec now w q (rs_registration s) = Ret (w', q', r', err) \<Longrightarrow>
     run_step libs execs recv (w, q, s, Running) (w', q', s\<lparr>rs_registration := r'\<rparr>, Running)"
| run_proof: "(q', nip) \<in> recv q \<Longrightarrow> reg_onNewProof libs w (rs_registration s) nip = (w', r', err) \<Longrightarrow>
     run_step libs execs recv (w, q, s, Running) (w', q', s\<lparr>rs_registration := r'\<rparr>, Running)"

inductive_cases run_step_finished: "run_step libs execs recv (w, q, s, Finished e) st"

text \<open>What happens beside the loop: requests of clients and administrators, and the flush timer.\<close>

datatype request = Submission | Reload | FlushTimer

inductive request_step ::
  "('w, 'h, 't, 'sw, 'sr) reg_libs \<Rightarrow> ('ts \<Rightarrow> gotime) \<Rightarrow> (duration \<Rightarrow> 'd) \<Rightarrow> request \<Rightarrow>
   'w \<times> 'h rpcServer \<Rightarrow> 'w \<times> 'h rpcServer \<Rightarrow> bool"
  for libs asTime newDuration where
  submit_request: "rpc_Submit libs asTime newDuration now later await w s req = Ret (w', s', res) \<Longrightarrow>
     request_step libs asTime newDuration Submission (w, s) (w', s')"
| reload_request: "rpc_ReloadTrustedKeys walk s = Ret (s', res) \<Longrightarrow>
     request_step libs asTime newDuration Reload (w, s) (w, s')"
| flush_timer: "timedFlushPendingSubmits (rl_ldb libs) w (reg_openRound (rs_registration s)) = (w', rnd) \<Longrightarrow>
     request_step libs asTime newDuration FlushTimer (w, s)
       (w', s\<lparr>rs_registration := (rs_registration s)\<lparr>reg_openRound := rnd\<rparr>\<rparr>)"

inductive server_step ::
  "('w, 'h, 't, 'sw, 'sr) reg_libs \<Rightarrow> ('ts \<Rightarrow> gotime) \<Rightarrow> (duration \<Rightarrow> 'd) \<Rightarrow> ('q \<Rightarrow> uint \<Rightarrow> bytes \<Rightarrow> ('q \<times> goerr option) set) \<Rightarrow> ('q \<Rightarrow> ('q \<times> NIP) set) \<Rightarrow>
   ('w, 'q, 'h) srv_state \<Rightarrow> ('w, 'q, 'h) srv_state \<Rightarrow> bool"
  for libs asTime newDuration execs recv where
  server_loop: "run_step libs execs recv st st' \<Longrightarrow> server_step libs asTime newDuration execs recv st st'"
| server_request: "request_step libs asTime newDuration kind (w, s) (w', s') \<Longrightarrow>
     server_step libs asTime newDuration execs recv (w, q, s, ph) (w', q, s', ph)"

section \<open>The invariant\<close>

text \<open>
  The configuration never changes, the trusted keys are well formed, and the PoW parameters that are
  honoured have the configured difficulty.
\<close>

definition pow_ok :: "uint \<Rightarrow> powVerifiers \<Rightarrow> bool" where
  "pow_ok difficulty v \<longleftrightarrow> Difficulty (pv_params (current v)) = difficulty \<and>
     (\<forall>p. previous v = Some p \<longrightarrow> Difficulty (pv_params p) = difficulty)"

definition reg_inv :: "reg_Config \<Rightarrow> ('h, 'z) reg_base_scheme \<Rightarrow> bool" where
  "reg_inv cfg r \<longleftrightarrow> reg_cfg r = cfg \<and> keys_ok (reg_trustedCertifierKeys r) \<and> pow_ok (PowDifficulty cfg) (reg_powVerifiers r)"

definition server_inv :: "reg_Config \<Rightarrow> ('w, 'q, 'h) srv_state \<Rightarrow> bool" where
  "server_inv cfg st \<longleftrightarrow> (case st of (w, q, s, ph) \<Rightarrow> reg_inv cfg (rs_registration s))"

text \<open>A configuration that the service can work with.\<close>

definition cfg_ok :: "reg_Config \<Rightarrow> bool" where
  "cfg_ok cfg \<longleftrightarrow> unat (PowDifficulty cfg) < 2 ^ 63 \<and>
     (\<forall>cc k. Certifier cfg = Some cc \<longrightarrow> cc_PubKey cc = Some k \<longrightarrow> length k = 32)"

lemma pow_ok_rotated: "pow_ok d v \<Longrightarrow> Difficulty params = d \<Longrightarrow> pow_ok d (powVerifiers_SetParams v params)"
  by (simp add: pow_ok_def powVerifiers_SetParams_def powVerifier_SetParams_def NewPowVerifier_def powVerifier_Params_def)

lemma pow_ok_no_panic:
  assumes "pow_ok d v" and "unat d < 2 ^ 63"
  shows "VerifyWithParams ripemd v challenge nodeID nonce params \<noteq> Panic"
proof -
  have "powVerifier_Verify ripemd p challenge nodeID nonce \<noteq> Panic" if "Difficulty (pv_params p) = d" for p
    using that assms(2) CheckLeadingZeroBits_total by (simp add: Verify_digest)
  with assms(1) show ?thesis by (auto simp: VerifyWithParams_def pow_ok_def split: option.splits)
qed

text \<open>No handler touches the configuration, and only two touch keys or PoW parameters.\<close>

lemma reg_inv_openRound [simp]: "reg_inv cfg (r\<lparr>reg_openRound := rnd\<rparr>) = reg_inv cfg r"
  by (simp add: reg_inv_def)

lemma keep_openRound: "\<exists>rnd. r = r\<lparr>reg_openRound := rnd\<rparr>"
  by (rule exI [of _ "reg_openRound r"]) simp

lemma reg_Submit_openRound:
  assumes "reg_Submit libs now await w r challenge nodeID nonce powParams hint certificate deadline
    = Ret (w', r', epoch, endTime, err)"
  shows "\<exists>rnd. r' = r\<lparr>reg_openRound := rnd\<rparr>"
proof -
  obtain w1 rnd out where "submit (rl_ldb libs) w (reg_openRound r) nodeID challenge = (w1, rnd, out)"
    by (metis prod_cases3)
  then show ?thesis
    using assms by (auto intro: keep_openRound simp: reg_Submit_def Let_def split: outcome.splits option.splits if_splits sum.splits waitResult.splits)
qed

lemma closeRound_openRound:
  assumes "closeRound libs exec now w q r = Ret (w', q', r', err)"
  shows "\<exists>rnd. r' = r\<lparr>reg_openRound := rnd\<rparr>"
  using assms by (auto simp: closeRound_def Let_def split: prod.splits sum.splits option.splits outcome.splits)

lemma reg_inv_onNewProof:
  assumes "reg_inv cfg r" and "reg_onNewProof libs w r nip = (w', r', err)"
  shows "reg_inv cfg r'"
proof -
  consider "r' = r" | "r' = r\<lparr>reg_powVerifiers := powVerifiers_SetParams (reg_powVerifiers r)
      ((powVerifiers_Params (reg_powVerifiers r))\<lparr>Challenge := Root nip\<rparr>)\<rparr>"
    using assms(2) by (auto simp: reg_onNewProof_def Let_def split: prod.splits sum.splits option.splits)
  then show ?thesis
    using assms(1) by cases (auto simp: reg_inv_def pow_ok_rotated pow_ok_def [of _ "reg_powVerifiers r"]
        powVerifiers_Params_def powVerifier_Params_def)
qed

lemma reg_inv_LoadTrustedPublicKeys:
  assumes "cfg_ok cfg" and "reg_inv cfg r" and "LoadTrustedPublicKeys walk r = Ret (r', err)"
  shows "reg_inv cfg r'"
proof -
  consider "r' = r" | cc m keys where "Certifier cfg = Some cc" "pubKeyMap (cc_PubKey cc) = Ret m"
      "walkKeys m walk = Inr keys" "r' = r\<lparr>reg_trustedCertifierKeys := keys\<rparr>"
    using assms(2,3)
    by (auto simp: LoadTrustedPublicKeys_def reg_inv_def split: option.splits if_splits outcome.splits sum.splits)
  then show ?thesis
  proof cases
    case 2
    have "keys_ok keys"
      by (rule walkKeys_keys_ok [OF 2(3) pubKeyMap_keys_ok [OF 2(2)]]) (use assms(1) 2(1) in \<open>auto simp: cfg_ok_def\<close>)
    with 2 assms(2) show ?thesis by (simp add: reg_inv_def)
  qed (simp add: assms(2))
qed

lemma LoadTrustedPublicKeys_no_panic:
  assumes "cfg_ok (reg_cfg r)"
  shows "LoadTrustedPublicKeys walk r \<noteq> Panic"
  using assms
  by (auto simp: LoadTrustedPublicKeys_def pubKeyMap_def CertKeyHintOf_def cfg_ok_def split: option.splits sum.splits)

lemma pow_ok_setup: "setupPowProviders L random w d cfg = (w', v) \<Longrightarrow> pow_ok (PowDifficulty cfg) v"
  by (auto simp: setupPowProviders_def pow_ok_def NewPowVerifier_def NewPowParams_def split: prod.splits sum.splits)

lemma reg_inv_newWithDatabase:
  assumes "cfg_ok cfg" and "reg_cfg r = cfg" and "pow_ok (PowDifficulty cfg) (reg_powVerifiers r)"
    and "newWithDatabase L walk now w r = Ret (w', Inr r')"
  shows "reg_inv cfg r'"
proof -
  obtain keys where k: "certifierKeys (Certifier cfg) = Ret keys"
    using assms(2,4) by (auto simp: newWithDatabase_def split: outcome.splits)
  have "keys_ok keys"
  proof (cases "Certifier cfg")
    case (Some cc)
    show ?thesis
      by (rule pubKeyMap_keys_ok [of "cc_PubKey cc"]) (use k Some assms(1) in \<open>auto simp: certifierKeys_def cfg_ok_def\<close>)
  qed (use k in \<open>auto simp: certifierKeys_def keys_ok_def\<close>)
  then have inv: "reg_inv cfg (r\<lparr>reg_trustedCertifierKeys := keys\<rparr>)" using assms(2,3) by (simp add: reg_inv_def)
  obtain r1 rnd where l: "loadIfConfigured walk (r\<lparr>reg_trustedCertifierKeys := keys\<rparr>) = Ret (r1, None)"
    and r': "r' = withOpenRound r1 rnd"
    using assms(2,4) k by (auto simp: newWithDatabase_def split: outcome.splits prod.splits option.splits sum.splits)
  have "reg_inv cfg r1"
    using l inv reg_inv_LoadTrustedPublicKeys [OF assms(1) inv]
    by (auto simp: loadIfConfigured_def split: option.splits if_splits)
  then show ?thesis by (simp add: r' reg_inv_def withOpenRound_def)
qed

lemma reg_inv_New:
  assumes "cfg_ok cfg" and "reg_New L now genKey random walk w genesis dbdir roundCfg cfg privKey None = Ret (w', Inr r)"
  shows "reg_inv cfg r"
proof -
  obtain w1 v pubkey d where v: "pow_ok (PowDifficulty cfg) v" and n: "newWithDatabase L walk now w1
      \<lparr>reg_genesis = genesis, reg_cfg = cfg, reg_roundCfg = roundCfg, reg_dbdir = dbdir, reg_pubkey = pubkey,
       reg_trustedCertifierKeys = Map.empty, reg_db = d, reg_powVerifiers = v\<rparr> = Ret (w', Inr r)"
    using assms(2) pow_ok_setup
    by (fastforce simp: reg_New_def split: sum.splits prod.splits option.splits)
  show ?thesis by (rule reg_inv_newWithDatabase [OF assms(1) _ _ n]) (simp_all add: v)
qed

lemma reg_inv_rpc_Submit:
  assumes "rpc_Submit libs asTime newDuration now later await w s req = Ret (w', s', res)"
  shows "reg_inv cfg (rs_registration s') = reg_inv cfg (rs_registration s)"
proof (cases "well_formed libs req")
  case True
  then show ?thesis
    using assms by (auto simp: rpc_Submit_well_formed dest!: reg_Submit_openRound split: outcome.splits)
next
  case False
  from rpc_Submit_malformed [OF this] assms show ?thesis by (metis Pair_inject outcome.inject(1))
qed

lemma run_step_inv:
  assumes "run_step libs execs recv st st'" and "server_inv cfg st"
  shows "server_inv cfg st'"
  using assms by cases (auto simp: server_inv_def dest: closeRound_openRound reg_inv_onNewProof)

lemma request_step_inv:
  assumes "request_step libs asTime newDuration kind (w, s) (w', s')" and "cfg_ok cfg" and "reg_inv cfg (rs_registration s)"
  shows "reg_inv cfg (rs_registration s')"
  using assms(1)
proof cases
  case (reload_request walk res)
  with assms(2,3) show ?thesis
    by (auto simp: rpc_ReloadTrustedKeys_def dest: reg_inv_LoadTrustedPublicKeys split: outcome.splits)
qed (use assms(3) in \<open>auto simp: reg_inv_rpc_Submit\<close>)

interpretation regserver: step_system "server_step libs asTime newDuration execs recv" "\<lambda>st. cfg_ok cfg \<and> server_inv cfg st" for libs asTime newDuration execs recv cfg
proof
  fix st st'
  assume inv: "cfg_ok cfg \<and> server_inv cfg st" and "server_step libs asTime newDuration execs recv st st'"
  from this(2) show "cfg_ok cfg \<and> server_inv cfg st'"
  proof cases
    case server_loop
    then show ?thesis using inv run_step_inv by blast
  next
    case (server_request kind w s w' s' q ph)
    then show ?thesis using inv request_step_inv [OF server_request(3)] by (auto simp: server_inv_def)
  qed
qed

lemma reg_Submit_no_panic:
  assumes "cfg_ok cfg" and "reg_inv cfg r"
  shows "reg_Submit libs now await w r challenge nodeID nonce powParams hint certificate deadline \<noteq> Panic"
proof -
  have "authorise libs now r challenge nodeID nonce powParams hint certificate \<noteq> Panic"
  proof (cases "\<exists>cc cert. Certifier (reg_cfg r) = Some cc \<and> certificate = Some cert")
    case True
    then obtain cc cert where c: "Certifier (reg_cfg r) = Some cc" "certificate = Some cert" by blast
    have "verifyCert libs now r cc cert hint nodeID \<noteq> Panic"
      by (rule verifyCert_no_panic) (use assms c in \<open>auto simp: reg_inv_def cfg_ok_def\<close>)
    with c show ?thesis by (auto simp: authorise_def split: outcome.splits option.splits)
  next
    case False
    have "VerifyWithParams (rl_ripemd libs) (reg_powVerifiers r) challenge nodeID nonce powParams \<noteq> Panic"
      by (rule pow_ok_no_panic) (use assms in \<open>auto simp: reg_inv_def cfg_ok_def\<close>)
    with False show ?thesis by (auto simp: authorise_def split: option.splits)
  qed
  then show ?thesis
    by (auto simp: reg_Submit_def Let_def split: outcome.splits option.splits prod.splits sum.splits waitResult.splits)
qed

lemma requests_no_panic:
  assumes "cfg_ok cfg" and "reg_inv cfg (rs_registration s)"
  shows "rpc_Submit libs asTime newDuration now later await w s req \<noteq> Panic" and "rpc_ReloadTrustedKeys walk s \<noteq> Panic"
proof -
  show "rpc_Submit libs asTime newDuration now later await w s req \<noteq> Panic"
  proof (cases "well_formed libs req")
    case True
    show ?thesis
      by (auto simp: rpc_Submit_well_formed [OF True] reg_Submit_no_panic [OF assms] split: outcome.splits)
  next
    case False
    show ?thesis using rpc_Submit_malformed [OF False, of asTime newDuration now later await w s] by auto
  qed
  show "rpc_ReloadTrustedKeys walk s \<noteq> Panic"
    using LoadTrustedPublicKeys_no_panic [of "rs_registration s" walk] assms
    by (auto simp: rpc_ReloadTrustedKeys_def reg_inv_def split: outcome.splits)
qed

section \<open>Properties\<close>

text \<open>
  No request brings the service down. Let the configured certifier key (if any) have 32 bytes and
  the configured difficulty fit into a signed integer. Then in every state that a constructed service
  reaches, through any sequence of requests, key reloads, flushes, closed rounds and proofs, neither a
  submission, whatever it contains, nor a reload of the trusted keys panics.
\<close>

lemma no_request_panics:
  assumes "cfg_ok cfg"
    and "reg_New L now genKey random walk w0 genesis dbdir roundCfg cfg privKey None = Ret (w1, Inr r)"
    and "(server_step libs asTime newDuration execs recv)\<^sup>*\<^sup>* (w1, q, rpc_NewServer r phaseShift cycleGap, Recovering) (w, q', s, ph)"
  shows "rpc_Submit libs asTime newDuration now' later await w s req \<noteq> Panic \<and> rpc_ReloadTrustedKeys walk' s \<noteq> Panic"
proof -
  have "server_inv cfg (w1, q, rpc_NewServer r phaseShift cycleGap, Recovering)"
    using reg_inv_New [OF assms(1,2)] by (simp add: server_inv_def rpc_NewServer_def)
  with regserver.reachable_inv [OF assms(3)] assms(1) have "reg_inv cfg (rs_registration s)"
    by (auto simp: server_inv_def)
  then show ?thesis by (simp add: requests_no_panic [OF assms(1)])
qed

text \<open>
  C33: A restart works on the same members. When the service starts again after a round was closed, it
  reads that round's database and hands the worker, for the same epoch, exactly the root of the stored
  challenges in the order of their keys (the root that closing the round computes), and leaves the
  database as it was.
\<close>

theorem restart_reexecutes_stored_members:
  assumes "leveldb_contract (rl_ldb libs) cont path" and "iter_ok (rl_ldb libs) path"
    and "mtree_ok (rl_mtree libs) (HashMembershipTreeNode (rl_blake3 libs)) leaves rootf"
    and "cont w (roundPath (reg_dbdir r) epoch) = Some m"
    and "recoverExecution libs exec w q r epoch = (w', q', None)"
  shows "exec q epoch (rootf (ordered_members m)) = (q', None) \<and> cont w' (roundPath (reg_dbdir r) epoch) = Some m"
proof -
  let ?L = "rl_ldb libs" and ?p = "roundPath (reg_dbdir r) epoch"
  let ?opts = "newRoundOpts (reg_cfg r) @ [failIfNotExists]"
  obtain w1 rnd where n: "newRound ?L w epoch (reg_dbdir r) ?opts = (w1, Inr rnd)"
  proof (cases "newRound ?L w epoch (reg_dbdir r) ?opts")
    case (Pair w1 res)
    then show ?thesis
    proof (cases res)
      case (Inl err)
      with Pair assms(5) have "errors_Is err ErrNotExist" by (auto simp: recoverExecution_def split: if_splits)
      with newRound_missing [OF assms(1) Pair [unfolded Inl]] assms(4) show ?thesis by simp
    qed (use Pair that in blast)
  qed
  note o = newRound_opened [OF assms(1) n]
  have m1: "cont w1 ?p = Some m" by (rule newRound_keeps [OF assms(1) n assms(4)])
  obtain w2 rnd2 root where c: "calcMembershipRoot ?L (rl_mtree libs) (rl_blake3 libs) w1 rnd = (w2, rnd2, Inr root)"
    and x: "exec q (r_epoch rnd2) root = (q', None)" and w': "w' = fst (round_Close ?L w2 rnd2)"
    using assms(5) n by (auto simp: recoverExecution_def split: prod.splits sum.splits option.splits)
  note f = calcMembershipRoot_ok [OF assms(3) c]
  have idle: "w2 = w1" "rnd2 = rnd\<lparr>r_pendingFlush := None\<rparr>"
    using f(1) o(4,5) by (auto simp: flushPendingSubmitsLocked_def)
  have op: "path w2 (r_db rnd2) = Some ?p" using o(2) idle by simp
  have root: "root = rootf (ordered_members m)"
    using f(2) items_members [OF assms(1) op] m1 assms(2) op idle by (simp add: iter_ok_def)
  obtain w3 rnd3 err where cl: "round_Close ?L w2 rnd2 = (w3, rnd3, err)" by (metis prod_cases3)
  have "cont w3 = cont w2" by (rule round_Close_idle(1) [OF assms(1) op _ cl]) (simp add: idle o(5))
  with x root w' cl m1 idle o(6) show ?thesis by simp
qed

section \<open>Concrete runs\<close>

lemma demo_recover:
  "snd (recoverExecution demo_libs (\<lambda>q e root. (q @ [(e, root)], None)) (demo_world [] [(''db/rounds/1'', [([2], [71]), ([1], [70])])]) []
     (demo_reg demo_round3) 1) = ([(1, [70, 71])], None)"
  by code_simp

theorem restart_reexecutes_stored_members_witness:
  "\<exists>w'. recoverExecution demo_libs (\<lambda>q e root. (q @ [(e, root)], None)) (demo_world [] [(''db/rounds/1'', [([2], [71]), ([1], [70])])]) []
     (demo_reg demo_round3) 1 = (w', [(1, [70, 71])], None) \<and> ref_cont w' ''db/rounds/1'' = Some [[2] \<mapsto> [71], [1] \<mapsto> [70]]"
proof -
  let ?w = "demo_world [] [(''db/rounds/1'', [([2], [71]), ([1], [70])])]" and ?m = "[[2] \<mapsto> [71], [1] \<mapsto> [70]] :: bytes \<rightharpoonup> bytes"
  obtain w' where w': "recoverExecution demo_libs (\<lambda>q e root. (q @ [(e, root)], None)) ?w [] (demo_reg demo_round3) 1 = (w', [(1, [70, 71])], None)"
    using demo_recover by (metis prod.collapse)
  have libs: "leveldb_contract (rl_ldb demo_libs) ref_cont ref_path" "iter_ok (rl_ldb demo_libs) ref_path"
      "mtree_ok (rl_mtree demo_libs) (HashMembershipTreeNode (rl_blake3 demo_libs)) (\<lambda>t. t) concat"
    by (simp_all add: demo_libs_def ref_leveldb_contract ref_iter_ok ref_mtree_ok)
  have dir: "roundPath (reg_dbdir (demo_reg demo_round3)) 1 = ''db/rounds/1''" by (simp add: demo_reg_def demo_paths)
  have "ref_cont ?w (roundPath (reg_dbdir (demo_reg demo_round3)) 1) = Some ?m"
    unfolding dir by (auto simp: ref_cont_def demo_world_def fun_eq_iff)
  from restart_reexecutes_stored_members [OF libs this w'] w' show ?thesis unfolding dir by blast
qed

end
