(* ===== verification/Server.thy ===== *)
theory Server
  imports Migrate Reg_Run
begin

text \<open>
  Putting the server together (\<open>server/server.go\<close>, and the start-up in \<open>poet.go\<close>): listeners, the
  private key of the server, the transport, the worker and the registration service. The state of the
  files in the data directory and that of the databases are two arguments.
\<close>

section \<open>Configuration at start-up\<close>

text \<open>Command line, configuration file, directories, and the command line again so that it wins.\<close>

definition startupConfig ::
  "(server_Config \<Rightarrow> string list \<Rightarrow> goerr + server_Config) \<Rightarrow> (string \<Rightarrow> server_Config \<Rightarrow> goerr + server_Config) \<Rightarrow>
   goerr + string \<Rightarrow> gotime \<Rightarrow> string list \<Rightarrow> goerr + server_Config" where
  "startupConfig parseArgs iniParse cacheDir now args =
     (case ParseFlags parseArgs (server_DefaultConfig cacheDir now) args of
        Inl err \<Rightarrow> Inl err
      | Inr cfg \<Rightarrow>
          (case ReadConfigFile iniParse cfg of
             Inl err \<Rightarrow> Inl err
           | Inr cfg \<Rightarrow> ParseFlags parseArgs (SetupConfig cacheDir now cfg) args))"

section \<open>The server\<close>

datatype svc = DisabledWorker | PoSWWorker Service

record ('h, 'l) Server =
  srv_worker :: svc
  srv_reg :: "'h Registration"
  srv_cfg :: server_Config
  srv_privateKey :: bytes
  srv_configRpcListener :: 'l
  srv_rpcListener :: 'l
  srv_restListener :: 'l

text \<open>The packages and functions that \<open>New\<close> calls; \<open>se_stat\<close> is \<open>os.Stat\<close>.\<close>

record ('fw, 'w, 'h, 'l) server_libs =
  se_resolve :: "string \<Rightarrow> goerr + string"
  se_listen :: "string \<Rightarrow> goerr + 'l"
  se_os :: "'fw os_api"
  se_stat :: "'fw \<Rightarrow> string \<Rightarrow> goerr option"
  se_codec :: "serverState xdr_codec"
  se_ldb :: "('w, 'h) leveldb_api"
  se_seconds :: "duration \<Rightarrow> u64"
  se_rootHeight :: "u64 \<Rightarrow> uint"

text \<open>What a start finds: the time, the environment variable with the key, and random values.\<close>

record server_env =
  sn_now :: gotime
  sn_envKey :: string
  sn_genKey :: "goerr + bytes"
  sn_random :: bytes
  sn_walk :: "walkEntry list"

definition openListener :: "('fw, 'w, 'h, 'l) server_libs \<Rightarrow> string \<Rightarrow> goerr + 'l" where
  "openListener S raw =
     (case se_resolve S raw of
        Inl err \<Rightarrow> Inl err
      | Inr addr \<Rightarrow>
          (case se_listen S addr of Inl err \<Rightarrow> Inl (Opaque ''failed to listen'') | Inr l \<Rightarrow> Inr l))"

definition ensureDataDir :: "('fw, 'w, 'h, 'l) server_libs \<Rightarrow> 'fw \<Rightarrow> string \<Rightarrow> 'fw \<times> goerr option" where
  "ensureDataDir S fw dir =
     (case se_stat S fw dir of
        Some err \<Rightarrow> if os_IsNotExist err then os_MkdirAll (se_os S) fw dir else (fw, None)
      | None \<Rightarrow> (fw, None))"

definition loadAndSaveState ::
  "('fw, 'w, 'h, 'l) server_libs \<Rightarrow> server_env \<Rightarrow> 'fw \<Rightarrow> string \<Rightarrow> 'fw \<times> (goerr + serverState)" where
  "loadAndSaveState S E fw dir =
     (case loadState (se_os S) (se_codec S) fw (sn_genKey E) dir (sn_envKey E) of
        Inl err \<Rightarrow> (fw, Inl (Wrap ''loading state'' err))
      | Inr s \<Rightarrow>
          (case saveState (se_os S) (se_codec S) fw dir s of
             (fw, Some err) \<Rightarrow> (fw, Inl (Wrap ''saving state'' err))
           | (fw, None) \<Rightarrow> (fw, Inr s)))"

text \<open>\<open>PrivateKey.Public\<close> copies the second half of the key and panics when the key is shorter than that.\<close>

definition ed25519_Public :: "bytes \<Rightarrow> bytes outcome" where
  "ed25519_Public priv = (if length priv < 32 then Panic else Ret (take 32 (drop 32 priv @ replicate 32 0)))"

definition newWorker :: "('fw, 'w, 'h, 'l) server_libs \<Rightarrow> server_Config \<Rightarrow> svc" where
  "newWorker S cfg =
     (if DisableWorker cfg then DisabledWorker
      else PoSWWorker (service_New (se_seconds S) (se_rootHeight S) (Genesis cfg) (DataDir cfg) (cfg_Round cfg)
             [WithConfig (cfg_Service cfg)]))"

definition server_New ::
  "('fw, 'w, 'h, 'l) server_libs \<Rightarrow> server_env \<Rightarrow> 'fw \<Rightarrow> 'w \<Rightarrow> server_Config \<Rightarrow>
   ('fw \<times> 'w \<times> (goerr + ('h, 'l) Server)) outcome" where
  "server_New S E fw w cfg =
     (case openListener S (RawRPCListener cfg) of
        Inl err \<Rightarrow> Ret (fw, w, Inl err)
      | Inr rpcListener \<Rightarrow>
     (case openListener S (ConfigRPCListener cfg) of
        Inl err \<Rightarrow> Ret (fw, w, Inl err)
      | Inr configRpcListener \<Rightarrow>
     (case openListener S (RawRESTListener cfg) of
        Inl err \<Rightarrow> Ret (fw, w, Inl err)
      | Inr restListener \<Rightarrow>
     (case ensureDataDir S fw (DataDir cfg) of
        (fw, Some err) \<Rightarrow> Ret (fw, w, Inl err)
      | (fw, None) \<Rightarrow>
     (case loadAndSaveState S E fw (DataDir cfg) of
        (fw, Inl err) \<Rightarrow> Ret (fw, w, Inl err)
      | (fw, Inr s) \<Rightarrow>
     (case ed25519_Public (PrivKey s) of
        Panic \<Rightarrow> Panic
      | Ret pub \<Rightarrow>
     (case reg_NewWith (se_ldb S) (sn_now E) (Inl ErrEOF) (sn_random E) (sn_walk E) w (Genesis cfg) (DbDir cfg)
             (cfg_Round cfg) [reg_WithConfig (cfg_Registration cfg), WithPrivateKey pub] of
        Panic \<Rightarrow> Panic
      | Ret (w, Inl err) \<Rightarrow> Ret (fw, w, Inl (Wrap ''creating registration service'' err))
      | Ret (w, Inr reg) \<Rightarrow>
          Ret (fw, w, Inr \<lparr>srv_worker = newWorker S cfg, srv_reg = reg, srv_cfg = cfg, srv_privateKey = PrivKey s,
             srv_configRpcListener = configRpcListener, srv_rpcListener = rpcListener,
             srv_restListener = restListener\<rparr>))))))))"

definition server_Close ::
  "('w, 'h, 't, 'sw, 'sr) reg_libs \<Rightarrow> 'w \<Rightarrow> ('h, 'l) Server \<Rightarrow> 'w \<times> ('h, 'l) Server \<times> goerr option" where
  "server_Close libs w s =
     (case reg_Close libs w (srv_reg s) of (w, r, err) \<Rightarrow> (w, s\<lparr>srv_reg := r\<rparr>, err))"

definition server_PublicKey :: "('h, 'l) Server \<Rightarrow> bytes outcome" where
  "server_PublicKey s = ed25519_Public (srv_privateKey s)"

text \<open>The front end that \<open>Start\<close> registers with the gRPC servers.\<close>

definition frontEnd :: "('h, 'l) Server \<Rightarrow> 'h rpcServer" where
  "frontEnd s = rpc_NewServer (srv_reg s) (PhaseShift (cfg_Round (srv_cfg s))) (CycleGap (cfg_Round (srv_cfg s)))"

section \<open>Lemmas\<close>

lemma newWithDatabase_keys:
  assumes "newWithDatabase L walk now w r = Ret (w', Inr r')"
  shows "reg_pubkey r' = reg_pubkey r \<and> reg_db r' = reg_db r"
proof -
  have keep: "reg_pubkey b' = reg_pubkey b \<and> reg_db b' = reg_db b" if "LoadTrustedPublicKeys walk b = Ret (b', e)"
    for b b' :: "'b reg_base" and e
    using that by (auto simp: LoadTrustedPublicKeys_def split: option.splits if_splits outcome.splits sum.splits)
  obtain keys r1 rnd where "loadIfConfigured walk (r\<lparr>reg_trustedCertifierKeys := keys\<rparr>) = Ret (r1, None)"
    and r': "r' = withOpenRound r1 rnd"
    using assms by (auto simp: newWithDatabase_def split: outcome.splits prod.splits option.splits sum.splits)
  then have "reg_pubkey r1 = reg_pubkey r \<and> reg_db r1 = reg_db r"
    by (auto simp: loadIfConfigured_def dest!: keep split: option.splits if_splits)
  then show ?thesis by (simp add: r' withOpenRound_def)
qed

lemma reg_New_keys:
  assumes "reg_New L now genKey random walk w genesis dbdir roundCfg cfg (Some pub) pow = Ret (w', Inr r)"
  shows "reg_pubkey r = pub \<and> db_pubkey (reg_db r) = pub"
proof -
  obtain w1 d vs w2 where d: "newDatabase L w (filepath_Join [dbdir, ''proofs'']) pub = (w1, Inr d)"
    and n: "newWithDatabase L walk now w2 \<lparr>reg_genesis = genesis, reg_cfg = cfg, reg_roundCfg = roundCfg, reg_dbdir = dbdir,
        reg_pubkey = pub, reg_trustedCertifierKeys = Map.empty, reg_db = d, reg_powVerifiers = vs\<rparr> = Ret (w', Inr r)"
    using assms by (auto simp: reg_New_def split: sum.splits prod.splits)
  have "db_pubkey d = pub" using d by (auto simp: newDatabase_def split: prod.splits sum.splits)
  with newWithDatabase_keys [OF n] show ?thesis by simp
qed

text \<open>What a successful start has done.\<close>

lemma server_New_started:
  assumes "server_New S E fw w cfg = Ret (fw', w', Inr srv)"
  obtains fw1 s pub where "ensureDataDir S fw (DataDir cfg) = (fw1, None)"
    and "loadState (se_os S) (se_codec S) fw1 (sn_genKey E) (DataDir cfg) (sn_envKey E) = Inr s"
    and "saveState (se_os S) (se_codec S) fw1 (DataDir cfg) s = (fw', None)"
    and "ed25519_Public (PrivKey s) = Ret pub" and "srv_privateKey srv = PrivKey s"
    and "reg_pubkey (srv_reg srv) = pub" and "db_pubkey (reg_db (srv_reg srv)) = pub"
proof -
  obtain fw1 s pub reg where 1: "ensureDataDir S fw (DataDir cfg) = (fw1, None)"
    and 2: "loadAndSaveState S E fw1 (DataDir cfg) = (fw', Inr s)" and 3: "ed25519_Public (PrivKey s) = Ret pub"
    and 4: "reg_New (se_ldb S) (sn_now E) (Inl ErrEOF) (sn_random E) (sn_walk E) w (Genesis cfg) (DbDir cfg)
             (cfg_Round cfg) (cfg_Registration cfg) (Some pub) None = Ret (w', Inr reg)"
    and 5: "srv_reg srv = reg" "srv_privateKey srv = PrivKey s"
    using assms by (auto simp: server_New_def split: sum.splits prod.splits option.splits outcome.splits)
  from 2 have "loadState (se_os S) (se_codec S) fw1 (sn_genKey E) (DataDir cfg) (sn_envKey E) = Inr s"
    "saveState (se_os S) (se_codec S) fw1 (DataDir cfg) s = (fw', None)"
    by (auto simp: loadAndSaveState_def split: sum.splits prod.splits option.splits)
  with that 1 3 5 reg_New_keys [OF 4] show ?thesis by blast
qed

lemma ensureDataDir_files:
  assumes "os_contract (se_os S) file" and "ensureDataDir S fw dir = (fw', e)"
  shows "file fw' = file fw"
  using assms unfolding os_contract_def os_dirs_ok_def ensureDataDir_def
  by (auto split: option.splits if_splits)

lemma server_PublicKey_started:
  assumes "server_New S E fw w cfg = Ret (fw', w', Inr srv)"
  shows "server_PublicKey srv = Ret (reg_pubkey (srv_reg srv))" and "db_pubkey (reg_db (srv_reg srv)) = reg_pubkey (srv_reg srv)"
  by (rule server_New_started [OF assms], simp add: server_PublicKey_def)+

section \<open>Properties\<close>

text \<open>
  C36: A restarted server is the same poet. When a server was constructed and its state file is kept,
  every later server constructed on the same data directory has the same private key, whatever its
  environment, and the key that \<open>Info\<close> reports, the key stored with proofs and the server's own public
  key are all the public part of that private key.
\<close>

theorem restarted_server_keeps_identity:
  assumes "os_contract (se_os S) file" and "codec_ok (se_codec S)"
    and "\<forall>fw. readable (se_os S) fw (filepath_Join [DataDir cfg, stateFilename])"
    and "server_New S E fw w cfg = Ret (fw1, w1, Inr srv)"
    and "file fw2 (filepath_Join [DataDir cfg, stateFilename]) = file fw1 (filepath_Join [DataDir cfg, stateFilename])"
    and "DataDir cfg' = DataDir cfg" and "server_New S E' fw2 w2 cfg' = Ret (fw3, w3, Inr srv')"
  shows "srv_privateKey srv' = srv_privateKey srv \<and>
    server_PublicKey srv' = Ret (info_ServicePubkey (rpc_Info newDuration (frontEnd srv))) \<and>
    info_ServicePubkey (rpc_Info newDuration (frontEnd srv')) = info_ServicePubkey (rpc_Info newDuration (frontEnd srv)) \<and>
    db_pubkey (reg_db (srv_reg srv')) = info_ServicePubkey (rpc_Info newDuration (frontEnd srv))"
proof -
  let ?p = "filepath_Join [DataDir cfg, stateFilename]"
  obtain fwa s where a: "saveState (se_os S) (se_codec S) fwa (DataDir cfg) s = (fw1, None)" "srv_privateKey srv = PrivKey s"
    by (rule server_New_started [OF assms(4)]) blast
  obtain fwb s' where b: "ensureDataDir S fw2 (DataDir cfg) = (fwb, None)"
    "loadState (se_os S) (se_codec S) fwb (sn_genKey E') (DataDir cfg) (sn_envKey E') = Inr s'" "srv_privateKey srv' = PrivKey s'"
    by (rule server_New_started [OF assms(7)]) (simp add: assms(6))
  have o: "os_open_ok (se_os S) file" using assms(1) by (simp add: os_contract_def)
  have l: "Load (se_os S) (se_codec S) fw1 ?p = Inr s"
    by (rule Persist_Load [OF assms(1,2) a(1) [unfolded saveState_def]]) (use assms(3) in simp)
  have "file fwb ?p = file fw1 ?p" using ensureDataDir_files [OF assms(1) b(1)] assms(5) by simp
  with Load_same_file [OF o, of fw1 ?p fwb "se_codec S"] l assms(3) have "Load (se_os S) (se_codec S) fwb ?p = Inr s"
    by auto
  with b(2) have "s' = s" by (auto simp: loadState_def split: sum.splits if_splits)
  then have same: "srv_privateKey srv' = srv_privateKey srv" using a(2) b(3) by simp
  then have "server_PublicKey srv' = server_PublicKey srv" by (simp add: server_PublicKey_def)
  with same server_PublicKey_started [OF assms(4)] server_PublicKey_started [OF assms(7)] show ?thesis
    by (simp add: rpc_Info_def frontEnd_def rpc_NewServer_def reg_Pubkey_def)
qed

section \<open>A concrete server\<close>

definition demo_slibs :: "(os_world, ldb_world, nat, string) server_libs" where
  "demo_slibs = \<lparr>se_resolve = Inr, se_listen = Inr, se_os = ref_os, se_stat = (\<lambda>fw p. Some ErrNotExist), se_codec = key_codec,
     se_ldb = ref_ldb, se_seconds = (\<lambda>d. 20), se_rootHeight = (\<lambda>n. 10)\<rparr>"

definition demo_senv :: "byte \<Rightarrow> server_env" where
  "demo_senv k = \<lparr>sn_now = 100000000000, sn_envKey = [], sn_genKey = Inr (replicate 64 k), sn_random = [4], sn_walk = []\<rparr>"

definition did_start :: "('fw \<times> 'w \<times> (goerr + ('h, 'l) Server)) outcome \<Rightarrow> bool" where
  "did_start out = (case out of Panic \<Rightarrow> False | Ret (fw, w, res) \<Rightarrow> (case res of Inl err \<Rightarrow> False | Inr s \<Rightarrow> True))"

definition state_after :: "('fw \<times> 'w \<times> (goerr + ('h, 'l) Server)) outcome \<Rightarrow> 'fw \<Rightarrow> 'fw" where
  "state_after out fw0 = (case out of Panic \<Rightarrow> fw0 | Ret (fw, w, res) \<Rightarrow> fw)"

abbreviation demo_start :: "server_env \<Rightarrow> os_world \<Rightarrow> (os_world \<times> ldb_world \<times> (goerr + (nat, string) Server)) outcome" where
  "demo_start E fw \<equiv> server_New demo_slibs E fw (demo_world [] []) mig_cfg"

lemma demo_starts:
  "did_start (demo_start (demo_senv 1) empty_world)"
  "did_start (demo_start (demo_senv 2) (state_after (demo_start (demo_senv 1) empty_world) empty_world))"
  by code_simp+

lemma startedD: "did_start out \<Longrightarrow> \<exists>fw w s. out = Ret (fw, w, Inr s)"
  by (auto simp: did_start_def split: outcome.splits sum.splits) (metis obj_sumE)

theorem restarted_server_keeps_identity_witness:
  "\<exists>fw1 w1 srv fw3 w3 srv'. demo_start (demo_senv 1) empty_world = Ret (fw1, w1, Inr srv) \<and>
     demo_start (demo_senv 2) fw1 = Ret (fw3, w3, Inr srv') \<and> srv_privateKey srv' = srv_privateKey srv"
proof -
  obtain fw1 w1 srv where a: "demo_start (demo_senv 1) empty_world = Ret (fw1, w1, Inr srv)"
    using startedD [OF demo_starts(1)] by blast
  then have "state_after (demo_start (demo_senv 1) empty_world) empty_world = fw1" by (simp add: state_after_def)
  then obtain fw3 w3 srv' where b: "demo_start (demo_senv 2) fw1 = Ret (fw3, w3, Inr srv')"
    using startedD [OF demo_starts(2)] by auto
  have c: "os_contract (se_os demo_slibs) ow_file" "codec_ok (se_codec demo_slibs)"
      "\<forall>fw. readable (se_os demo_slibs) fw (filepath_Join [DataDir mig_cfg, stateFilename])"
    by (simp_all add: demo_slibs_def ref_os_contract key_codec_ok)
  from restarted_server_keeps_identity [OF c a refl refl b] a b show ?thesis by blast
qed

end
