(* ===== verification/End_To_End.thy ===== *)
theory End_To_End
  imports Reg_Refine Server
begin

text \<open>
  A challenge on its way through the whole system: the registration round, the hand-over to the worker
  through the transport, the proof, its way back, the proof database and the answer to a client. The
  lemmas here connect the components two by two; the property itself is in the root theory.
\<close>

section \<open>Closing a round\<close>

text \<open>The challenges that were answered with \<open>nil\<close> are among those that the root commits to.\<close>

lemma closeRound_commits:
  assumes L: "leveldb_contract (rl_ldb libs) cont path" and I: "iter_ok (rl_ldb libs) path"
    and MT: "mtree_ok (rl_mtree libs) (HashMembershipTreeNode (rl_blake3 libs)) leaves rootf"
    and n: "newRound (rl_ldb libs) w0 e (reg_dbdir r) opts = (w1, Inr r0)"
    and reach: "(round_step (rl_ldb libs) cont path (roundPath (reg_dbdir r) e))\<^sup>*\<^sup>* (w1, r0, []) (w, reg_openRound r, subs)"
    and opn: "path w (r_db (reg_openRound r)) = Some (roundPath (reg_dbdir r) e)"
    and c: "c < length subs" "r_chans (reg_openRound r) ! c = settled_chan None"
    and close: "closeRound libs exec now w q r = Ret (w2, q2, r2, None)"
  obtains m where "exec q e (rootf (ordered_members m)) = (q2, None)"
    and "cont w2 (roundPath (reg_dbdir r) e) = Some m" and "snd (subs ! c) \<in> set (ordered_members m)"
proof -
  let ?L = "rl_ldb libs" and ?p = "roundPath (reg_dbdir r) e"
  obtain wa rnda root wb rndb err ep rnd where
    calc: "calcMembershipRoot ?L (rl_mtree libs) (rl_blake3 libs) w (reg_openRound r) = (wa, rnda, Inr root)"
    and cl: "round_Close ?L wa rnda = (wb, rndb, err)"
    and ex: "exec q (r_epoch (reg_openRound r)) root = (q2, None)"
    and new: "newRound ?L wb ep (reg_dbdir r) (newRoundOpts (reg_cfg r)) = (w2, Inr rnd)"
    by (rule closeRound_handover [OF close])
  obtain m where m: "cont wa ?p = Some m" "root = rootf (ordered_members m)" "path wa (r_db rnda) = Some ?p"
    "r_batch rnda = []" "r_epoch (reg_openRound r) = e"
    by (rule reachable_root [OF L I n reach opn MT calc])
  have w2: "cont w2 ?p = Some m"
    by (rule newRound_keeps [OF L new]) (use round_Close_idle(1) [OF L m(3,4) cl] m(1) in simp)
  have i: "snd (ldb_Items ?L w1 (r_db r0)) = None" using I newRound_opened(2) [OF L n] by (simp add: iter_ok_def)
  note core = round_reachable(1) [OF L n i reach]
  have fl: "flushPendingSubmitsLocked ?L w (reg_openRound r) = (wa, rnda)" by (rule calcMembershipRoot_ok(1) [OF MT calc])
  have "pending_ok (reg_openRound r)" using core by (simp add: round_core_def)
  from settled_is_stored [OF flush_core [OF L core fl] c(1) flush_keeps_settled [OF fl this c(2)]] m(1)
  have "finite (dom m)" "m (fst (subs ! c)) = Some (snd (subs ! c))" by auto
  then have "snd (subs ! c) \<in> set (ordered_members m)" by (force simp: ordered_members_def)
  with that ex m(2,5) w2 show ?thesis by simp
qed

section \<open>Through the transport\<close>

lemma closed_round_arrives:
  assumes "m_closedRounds q = []" and "(q2, None) \<in> ExecuteRound q False e root" and "(q3, cr) \<in> recvRoundClosed q2"
  shows "cr = \<lparr>cr_Epoch = e, cr_MembershipRoot = root\<rparr>" and "m_proofs q3 = m_proofs q"
  using assms by (auto simp: ExecuteRound_def recvRoundClosed_def chanCap_def Let_def)

lemma published_proof_arrives:
  assumes "m_proofs q = []" and "publish \<in> transport_NewProof q False p" and "(q', nip) \<in> recvProof (fst publish)"
  shows "nip = p"
  using assms by (auto simp: transport_NewProof_def recvProof_def chanCap_def)

section \<open>Storing and serving\<close>

lemma onNewProof_serves:
  assumes L: "leveldb_contract (rl_ldb libs) cont path" and P: "ldb_put_ok (rl_ldb libs) cont path"
    and I: "iter_ok (rl_ldb libs) path" and X: "xdr_ok (rl_xdr libs)"
    and m: "cont w (roundPath (reg_dbdir r) (Epoch nip)) = Some m"
    and d: "path w (db_db (reg_db r)) = Some dbp" "cont w dbp = Some md" "dbp \<noteq> roundPath (reg_dbdir r) (Epoch nip)"
    and on: "reg_onNewProof libs w r nip = (w', r', None)"
    and g: "\<forall>k e. ldb_Get (rl_ldb libs) w' (db_db (reg_db r')) k = Inl e \<longrightarrow> errors_Is e ErrNotFound"
  shows "rpc_Proof libs w' (rpc_NewServer r' a b) (epochToRoundId (Epoch nip)) =
    Inr \<lparr>presp_Proof = \<lparr>Root = Root nip, ProvenLeaves = ProvenLeaves nip, ProofNodes = ProofNodes nip\<rparr>,
         presp_Members = ordered_members m, presp_Leaves = Leaves nip, presp_Pubkey = db_pubkey (reg_db r)\<rparr>"
proof -
  let ?rid = "epochToRoundId (Epoch nip)" and ?pd = "proofOf (db_pubkey (reg_db r)) nip (ordered_members m)"
  obtain b where b: "xdr_Marshal (rl_xdr libs) ?pd = Inr b" "cont w' dbp = Some (md(str_bytes ?rid \<mapsto> b))"
    "path w' (db_db (reg_db r)) = Some dbp" and r': "reg_db r' = reg_db r"
    by (rule onNewProof_saves [OF L P I m d refl on]) simp
  have u: "xdr_Unmarshal (rl_xdr libs) b = Inr ?pd" using b(1) X unfolding xdr_ok_def by blast
  have get: "ldb_get_ok (rl_ldb libs) cont path" using L by (simp add: leveldb_contract_def)
  have "GetProof (rl_ldb libs) (rl_xdr libs) w' (reg_db r) ?rid = Inr ?pd"
    by (rule GetProof_stored [OF get b(3,2) _ u]) (use g r' in simp_all)
  then show ?thesis by (simp add: rpc_Proof_def reg_Proof_def rpc_NewServer_def r' proofOf_def Let_def)
qed


section \<open>One challenge on its way\<close>

text \<open>A service whose round 7 is opened, gets one challenge, is closed and handed over, and a stored proof.\<close>

definition e2e_round :: "int \<Rightarrow> gochan list \<Rightarrow> (bytes \<times> pendingSubmit) list \<Rightarrow> nat round" where
  "e2e_round n chs ps = (demo_round n chs ps)\<lparr>r_epoch := 7, r_db := 1\<rparr>"

abbreviation e2e_world :: "kvs \<Rightarrow> ldb_world" where
  "e2e_world kv \<equiv> demo_world [Some ''p'', Some ''db/rounds/7''] [(''db/rounds/7'', kv), (''db/rounds/7'', []), (''p'', [])]"

definition e2e_exec :: "inMemory exec_round" where
  "e2e_exec q e root = (if m_closedRounds q = []
     then (q\<lparr>m_closedRounds := [\<lparr>cr_Epoch = e, cr_MembershipRoot = root\<rparr>]\<rparr>, None) else (q, None))"

lemma e2e_exec_allowed: "e2e_exec q e root \<in> ExecuteRound q False e root"
  by (simp add: e2e_exec_def ExecuteRound_def chanCap_def Let_def)

lemma e2e_path: "roundPath ''db'' 7 = ''db/rounds/7''"
  by code_simp

lemma e2e_open:
  "newRound ref_ldb (demo_world [Some ''p''] [(''db/rounds/7'', []), (''p'', [])]) 7 ''db'' [withMaxMembers 3, withSubmitFlushInterval 1000]
     = (e2e_world [], Inr (e2e_round 0 [] []))"
  by code_simp

lemma e2e_submit:
  "submit ref_ldb (e2e_world []) (e2e_round 0 [] []) [7] [70]
     = (e2e_world [], e2e_round 0 [open_chan] [([7], \<lparr>p_done = 0, p_challenge = [70]\<rparr>)], Inr 0)"
  by code_simp

abbreviation e2e_stored :: ldb_world where
  "e2e_stored \<equiv> demo_world [Some ''p'', Some ''db/rounds/7'']
     [(''db/rounds/7'', [([7], [70])]), (''db/rounds/7'', []), (''db/rounds/7'', []), (''p'', [])]"

lemma e2e_flush:
  "timedFlushPendingSubmits ref_ldb (e2e_world []) (e2e_round 0 [open_chan] [([7], \<lparr>p_done = 0, p_challenge = [70]\<rparr>)])
     = (e2e_stored, e2e_round 1 [settled_chan None] [])"
  by code_simp

lemma e2e_reach:
  "(round_step ref_ldb ref_cont ref_path (roundPath ''db'' 7))\<^sup>*\<^sup>* (e2e_world [], e2e_round 0 [] [], [])
     (e2e_stored, e2e_round 1 [settled_chan None] [], [([7], [70])])"
  using step_accepted [OF e2e_submit, of ref_cont ref_path "roundPath ''db'' 7" "[]"]
    step_timer [OF e2e_flush, of ref_cont ref_path "roundPath ''db'' 7" "[([7], [70])]"]
  by (simp add: rtranclp.rtrancl_into_rtrancl)

definition e2e_reg :: "nat Registration" where
  "e2e_reg = demo_reg (e2e_round 1 [settled_chan None] [])"

abbreviation e2e_closed :: ldb_world where
  "e2e_closed \<equiv> demo_world [Some ''p'', None, Some ''db/rounds/10'']
     [(''db/rounds/10'', []), (''db/rounds/7'', [([7], [70])]), (''db/rounds/7'', []), (''db/rounds/7'', []), (''p'', [])]"

abbreviation e2e_handed :: inMemory where
  "e2e_handed \<equiv> NewInMemory\<lparr>m_closedRounds := [\<lparr>cr_Epoch = 7, cr_MembershipRoot = [70]\<rparr>]\<rparr>"

lemma e2e_libs:
  "rl_ldb demo_libs = ref_ldb" "rl_mtree demo_libs = ref_mtree" "rl_blake3 demo_libs = (\<lambda>d. d)"
  "rl_ldb (demo_libs\<lparr>rl_xdr := x\<rparr>) = ref_ldb" "rl_mtree (demo_libs\<lparr>rl_xdr := x\<rparr>) = ref_mtree"
  "rl_blake3 (demo_libs\<lparr>rl_xdr := x\<rparr>) = (\<lambda>d. d)" "rl_xdr (demo_libs\<lparr>rl_xdr := x\<rparr>) = x"
  by (simp_all add: demo_libs_def)

lemma e2e_close: "\<exists>r2. closeRound (demo_libs\<lparr>rl_xdr := x\<rparr>) e2e_exec 300000000000 e2e_stored NewInMemory e2e_reg
    = Ret (e2e_closed, e2e_handed, r2, None) \<and> reg_db r2 = demo_db \<and> reg_dbdir r2 = ''db'' \<and> reg_cfg r2 = reg_DefaultConfig"
proof -
  have "case closeRound demo_libs e2e_exec 300000000000 e2e_stored NewInMemory e2e_reg of
      Ret (w, q, r, err) \<Rightarrow> w = e2e_closed \<and> q = e2e_handed \<and> err = None \<and> reg_db r = demo_db \<and> reg_dbdir r = ''db'' \<and>
        PowDifficulty (reg_cfg r) = 0
    | Panic \<Rightarrow> False"
    by code_simp
  moreover have "closeRound (demo_libs\<lparr>rl_xdr := x\<rparr>) e2e_exec now w q r = closeRound demo_libs e2e_exec now w q r" for now w q r
    unfolding closeRound_def e2e_libs ..
  moreover have "reg_cfg e2e_reg = reg_DefaultConfig" by (simp add: e2e_reg_def demo_reg_def)
  ultimately show ?thesis
    using closeRound_openRound [of demo_libs e2e_exec 300000000000 e2e_stored NewInMemory e2e_reg]
    by (auto split: outcome.splits)
qed

lemma e2e_onNewProof:
  assumes "Epoch nip = 7" and "reg_db r = demo_db" "reg_dbdir r = ''db''" "reg_cfg r = reg_DefaultConfig"
  shows "\<exists>w4 r4. reg_onNewProof (demo_libs\<lparr>rl_xdr := one_xdr (proofOf [9] nip [[70]])\<rparr>) e2e_closed r nip = (w4, r4, None) \<and>
    reg_db r4 = demo_db \<and> ref_path w4 0 = Some ''p''"
proof -
  let ?opts = "newRoundOpts reg_DefaultConfig @ [failIfNotExists]"
  let ?st = "(''db/rounds/7'', [([7], [70])]) # stored e2e_closed"
  let ?w1 = "demo_world [Some ''p'', None, Some ''db/rounds/10'', Some ''db/rounds/7''] ?st"
  let ?w2 = "demo_world [Some ''p'', None, Some ''db/rounds/10'', None] ?st"
  obtain rnd where n: "newRound ref_ldb e2e_closed 7 ''db'' ?opts = (?w1, Inr rnd)"
    and g: "getMembers ref_ldb ?w1 rnd = [[70]]" and c: "fst (round_Close ref_ldb ?w1 rnd) = ?w2"
  proof -
    have "case newRound ref_ldb e2e_closed 7 ''db'' ?opts of (w, Inr rnd) \<Rightarrow> w = ?w1 \<and> getMembers ref_ldb ?w1 rnd = [[70]] \<and>
        fst (round_Close ref_ldb ?w1 rnd) = ?w2 | _ \<Rightarrow> False"
      by code_simp
    then show ?thesis using that by (cases "newRound ref_ldb e2e_closed 7 ''db'' ?opts") (auto split: sum.splits)
  qed
  have "SaveProof ref_ldb (one_xdr (proofOf [9] nip [[70]])) ?w2 demo_db nip [[70]]
      = (?w2\<lparr>stored := (''p'', [(str_bytes (epochToRoundId 7), [5])]) # ?st\<rparr>, None)"
    using assms(1)
    by (simp add: SaveProof_def serializeProof_def one_xdr_def ref_ldb_def ref_append_def ref_path_def ref_kvs_def
        demo_world_def demo_db_def Let_def proofOf_def)
  with n g c assms show ?thesis
    by (simp add: reg_onNewProof_def demo_libs_def Let_def) (simp add: ref_path_def demo_world_def)
qed


lemma e2e_worker:
  "\<exists>n pf fw'. handleClosedRound (demo_env (\<lambda>(q :: inMemory) n. (q\<lparr>m_proofs := m_proofs q @ [n]\<rparr>, None))) (demo_worker [70]) demo_service 0 5
      demo_files NewInMemory \<lparr>cr_Epoch = 7, cr_MembershipRoot = [70]\<rparr>
    = Some (Ret (fw', NewInMemory\<lparr>m_proofs := [nipOf 7 n pf]\<rparr>, Go))"
proof -
  let ?E = "demo_env (\<lambda>(q :: inMemory) n. (q\<lparr>m_proofs := m_proofs q @ [n]\<rparr>, None))" and ?cr = "\<lparr>cr_Epoch = 7, cr_MembershipRoot = [70]\<rparr>"
  let ?w = "(\<lparr>ow_files = [(''/d/rounds/7/state.bin'', [0])], ow_dirs = [''/d/rounds/7'']\<rparr>, snd demo_files)"
  obtain w2 r2 nip where x: "Execute (demo_worker [70]) (en_sel ?E) (en_ctxErr ?E) 5 (lockOSThread ?E ?w demo_service)
      (demo_round7 [70]) (RoundEnd (sv_roundCfg demo_service) (sv_genesis demo_service) (cr_Epoch ?cr))
      (sv_minMemoryLayer demo_service) (TreeFileBufferSize (sv_cfg demo_service)) = Some (w2, r2, None)"
    and nip: "ex_NIP (wr_execution r2) = Some nip" and ep: "wr_epoch r2 = wr_epoch (demo_round7 [70])"
    using demo_executes [of "[70]"] by (force simp: lockOSThread_def demo_env_def)
  obtain w3 e where rm: "os_RemoveAll (wl_os (demo_worker [70])) w2 (wr_datadir r2) = (w3, e)" by fastforce
  have "handleClosedRound ?E (demo_worker [70]) demo_service 0 5 demo_files NewInMemory ?cr
      = Some (Ret (w3, NewInMemory\<lparr>m_proofs := [nipOf (wr_epoch r2) (ex_NumLeaves (wr_execution r2)) nip]\<rparr>, Go))"
    using demo_time demo_NewRound [of "[70]"]
    by (intro handleClosedRound_executed [OF _ _ x nip _ rm]) (simp_all add: demo_env_def NewInMemory_def)
  moreover have "wr_epoch r2 = 7" using ep by (simp add: demo_round7_def WithMembershipRoot_def freshRound_def)
  ultimately show ?thesis by metis
qed

lemma e2e_packages:
  "leveldb_contract (rl_ldb (demo_libs\<lparr>rl_xdr := one_xdr pd\<rparr>)) ref_cont ref_path"
  "ldb_put_ok (rl_ldb (demo_libs\<lparr>rl_xdr := one_xdr pd\<rparr>)) ref_cont ref_path"
  "iter_ok (rl_ldb (demo_libs\<lparr>rl_xdr := one_xdr pd\<rparr>)) ref_path"
  "xdr_ok (rl_xdr (demo_libs\<lparr>rl_xdr := one_xdr pd\<rparr>))"
  "mtree_ok (rl_mtree (demo_libs\<lparr>rl_xdr := one_xdr pd\<rparr>))
     (HashMembershipTreeNode (rl_blake3 (demo_libs\<lparr>rl_xdr := one_xdr pd\<rparr>))) (\<lambda>t. t) concat"
  by (simp_all add: e2e_libs ref_leveldb_contract ref_ldb_put ref_iter_ok one_xdr_ok ref_mtree_ok)

end
