(* ===== verification/Process.thy ===== *)
theory Process
  imports End_To_End
begin

text \<open>
  The running process: \<open>Server.Start\<close> (\<open>server/server.go\<close>) as a transition system. The registration
  loop, the worker, the three network servers and the goroutine that runs \<open>Start\<close> interleave; they share
  the transport and the context of their error group. The handlers are those of the component theories.
\<close>

section \<open>The worker between its blocking points\<close>

text \<open>
  The worker gives up control when it waits for a closed round, while it executes one, and when it hands
  a proof to a full channel. Its handlers run on \<open>inMemory option\<close>, where \<open>None\<close> stands for a call of
  \<open>NewProof\<close> that is still blocked; a step is taken when the call returns. \<open>c\<close> says whether the context is
  cancelled; an execution finds its context cancelled only then.
\<close>

datatype wphase =
    WStarting
  | WRecovering "dir_entry list" "wround option"
  | WResuming "wround option"
  | WServing
  | WExecuting ClosedRound
  | WEnded "goerr option"

definition pub_ok :: "bool \<Rightarrow> (inMemory option \<Rightarrow> NIP \<Rightarrow> inMemory option \<times> goerr option) \<Rightarrow> bool" where
  "pub_ok c pub \<longleftrightarrow> (\<forall>nip. pub None nip = (None, None)) \<and>
     (\<forall>q nip q' e. pub (Some q) nip = (Some q', e) \<longrightarrow> (q', e) \<in> transport_NewProof q c nip)"

definition sel_ok :: "bool \<Rightarrow> (gotime \<Rightarrow> nat \<Rightarrow> tick) \<Rightarrow> bool" where
  "sel_ok c sel \<longleftrightarrow> c \<or> (\<forall>t k. sel t k \<noteq> Cancelled)"

definition workEnv ::
  "('w \<Rightarrow> string \<Rightarrow> 'w) \<Rightarrow> (inMemory option \<Rightarrow> NIP \<Rightarrow> inMemory option \<times> goerr option) \<Rightarrow> (gotime \<Rightarrow> nat \<Rightarrow> tick) \<Rightarrow>
   ('w, inMemory option) wk_env" where
  "workEnv tid pub sel = \<lparr>en_publish = pub, en_tid = tid, en_sel = sel, en_ctxErr = ErrCanceled\<rparr>"

inductive svc_step ::
  "('w, 'l, 't, 'rd, 'cw, 'ly) wk_libs \<Rightarrow> ('w \<Rightarrow> string \<Rightarrow> 'w) \<Rightarrow> bool \<Rightarrow> svc \<Rightarrow>
   'w \<times> inMemory \<times> wphase \<Rightarrow> 'w \<times> inMemory \<times> wphase \<Rightarrow> bool"
  for L tid c where
  wk_no_rounds: "os_ReadDir (wl_os L) w (roundsDir s) = Inl err \<Longrightarrow> errors_Is err ErrNotExist \<Longrightarrow>
     svc_step L tid c (PoSWWorker s) (w, q, WStarting) (w, q, WResuming None)"
| wk_unreadable: "os_ReadDir (wl_os L) w (roundsDir s) = Inl err \<Longrightarrow> \<not> errors_Is err ErrNotExist \<Longrightarrow>
     svc_step L tid c (PoSWWorker s) (w, q, WStarting) (w, q, WEnded (Some (Opaque ''failed to recover'')))"
| wk_found: "os_ReadDir (wl_os L) w (roundsDir s) = Inr entries \<Longrightarrow>
     svc_step L tid c (PoSWWorker s) (w, q, WStarting) (w, q, WRecovering entries None)"
| wk_entry: "pub_ok c pub \<Longrightarrow>
     recoverEntry (workEnv tid pub sel) L (roundsDir s) w (Some q) ex entry = Ret (w', Some q', Inr ex') \<Longrightarrow>
     svc_step L tid c (PoSWWorker s) (w, q, WRecovering (entry # entries) ex) (w', q', WRecovering entries ex')"
| wk_bad_entry: "pub_ok c pub \<Longrightarrow>
     recoverEntry (workEnv tid pub sel) L (roundsDir s) w (Some q) ex entry = Ret (w', Some q', Inl err) \<Longrightarrow>
     svc_step L tid c (PoSWWorker s) (w, q, WRecovering (entry # entries) ex)
       (w', q', WEnded (Some (Opaque ''failed to recover'')))"
| wk_recovered: "svc_step L tid c (PoSWWorker s) (w, q, WRecovering [] ex) (w, q, WResuming ex)"
| wk_nothing_to_resume: "svc_step L tid c (PoSWWorker s) (w, q, WResuming None) (w, q, WServing)"
| wk_resumed: "pub_ok c pub \<Longrightarrow> sel_ok c sel \<Longrightarrow>
     resumeRound (workEnv tid pub sel) L s w (Some q) r = Some (Ret (w', Some q', Go)) \<Longrightarrow>
     svc_step L tid c (PoSWWorker s) (w, q, WResuming (Some r)) (w', q', WServing)"
| wk_not_resumed: "pub_ok c pub \<Longrightarrow> sel_ok c sel \<Longrightarrow>
     resumeRound (workEnv tid pub sel) L s w (Some q) r = Some (Ret (w', Some q', Stop err)) \<Longrightarrow>
     svc_step L tid c (PoSWWorker s) (w, q, WResuming (Some r)) (w', q', WEnded err)"
| wk_received: "(q', cr) \<in> recvRoundClosed q \<Longrightarrow>
     svc_step L tid c (PoSWWorker s) (w, q, WServing) (w, q', WExecuting cr)"
| wk_handled: "pub_ok c pub \<Longrightarrow> sel_ok c sel \<Longrightarrow>
     handleClosedRound (workEnv tid pub sel) L s now started w (Some q) cr = Some (Ret (w', Some q', Go)) \<Longrightarrow>
     svc_step L tid c (PoSWWorker s) (w, q, WExecuting cr) (w', q', WServing)"
| wk_failed: "pub_ok c pub \<Longrightarrow> sel_ok c sel \<Longrightarrow>
     handleClosedRound (workEnv tid pub sel) L s now started w (Some q) cr = Some (Ret (w', Some q', Stop err)) \<Longrightarrow>
     svc_step L tid c (PoSWWorker s) (w, q, WExecuting cr) (w', q', WEnded err)"
| dw_started: "svc_step L tid c DisabledWorker (w, q, WStarting) (w, q, WServing)"
| dw_received: "(q', cr) \<in> recvRoundClosed q \<Longrightarrow>
     svc_step L tid c DisabledWorker (w, q, WServing) (w, q', WExecuting cr)"
| dw_handled: "pub_ok c pub \<Longrightarrow>
     disabledService_handle (workEnv tid pub sel) (Some q) cr = Some q' \<Longrightarrow>
     svc_step L tid c DisabledWorker (w, q, WExecuting cr) (w, q', WServing)"
| svc_shutdown: "c \<Longrightarrow> svc_step L tid c sv (w, q, WServing) (w, q, WEnded None)"

inductive_cases svc_step_ended: "svc_step L tid c sv (w, q, WEnded e) st"

section \<open>The state of the process\<close>

datatype endpoint = Grpc | ConfigGrpc | Rest

text \<open>
  A network server is a goroutine inside \<open>Serve\<close> and the connections it has accepted. They end
  independently: when \<open>Serve\<close> fails, open connections are still served until the server is stopped.
\<close>

datatype serving = Idle | Listening | Left

datatype conns = Accepting | Draining | Shut

text \<open>Where the goroutine that runs \<open>Start\<close> is.\<close>

datatype main_phase = Launching | Waiting | StoppingGrpc | StoppingConfig | AwaitingGroup | Returned "goerr option"

record ('w, 'h, 'fw) process =
  p_db :: 'w
  p_files :: 'fw
  p_transport :: inMemory
  p_front :: "'h rpcServer"
  p_reg :: run_phase
  p_worker :: wphase
  p_serve :: "endpoint \<Rightarrow> serving"
  p_conns :: "endpoint \<Rightarrow> conns"
  p_cancelled :: bool
  p_err :: "goerr option"
  p_main :: main_phase

text \<open>The goroutines that exist before the REST proxy is registered.\<close>

definition initProcess :: "('h, 'l) Server \<Rightarrow> 'fw \<Rightarrow> 'w \<Rightarrow> ('w, 'h, 'fw) process" where
  "initProcess srv fw w =
     \<lparr>p_db = w, p_files = fw, p_transport = NewInMemory, p_front = frontEnd srv, p_reg = Recovering, p_worker = WStarting,
      p_serve = (\<lambda>e. Listening)(Rest := Idle), p_conns = (\<lambda>e. Accepting), p_cancelled = False, p_err = None, p_main = Launching\<rparr>"

text \<open>\<open>errgroup\<close>: the first error is kept and cancels the context of the group.\<close>

definition groupReturn :: "goerr option \<Rightarrow> ('w, 'h, 'fw) process \<Rightarrow> ('w, 'h, 'fw) process" where
  "groupReturn res p =
     (case (res, p_err p) of (Some err, None) \<Rightarrow> p\<lparr>p_err := Some err, p_cancelled := True\<rparr> | _ \<Rightarrow> p)"

definition regResult :: "run_phase \<Rightarrow> goerr option" where
  "regResult ph = (case ph of Finished err \<Rightarrow> err | _ \<Rightarrow> None)"

definition workResult :: "wphase \<Rightarrow> goerr option" where
  "workResult ph = (case ph of WEnded err \<Rightarrow> err | _ \<Rightarrow> None)"

definition http_ErrServerClosed :: goerr where
  "http_ErrServerClosed = Opaque ''http: Server closed''"

definition serveResult :: "endpoint \<Rightarrow> goerr option \<Rightarrow> goerr option" where
  "serveResult e res =
     (case res of
        Some err \<Rightarrow> if e = Rest \<and> errors_Is err http_ErrServerClosed then None else Some err
      | None \<Rightarrow> None)"

text \<open>The calls of \<open>GracefulStop\<close> and \<open>Shutdown\<close>: no new connections, and the open ones drain.\<close>

definition closeServer :: "endpoint \<Rightarrow> ('w, 'h, 'fw) process \<Rightarrow> ('w, 'h, 'fw) process" where
  "closeServer e p = (if p_conns p e = Accepting then p\<lparr>p_conns := (p_conns p)(e := Draining)\<rparr> else p)"

text \<open>
  \<open>Serve\<close> of a gRPC server returns when its \<open>GracefulStop\<close> is through, \<open>Serve\<close> of the HTTP server as soon as
  \<open>Shutdown\<close> was called.
\<close>

definition serveReleased :: "endpoint \<Rightarrow> conns \<Rightarrow> bool" where
  "serveReleased e c = (if e = Rest then c \<noteq> Accepting else c = Shut)"

text \<open>
  Submissions come in through the public gRPC server (also those of the REST proxy) and reloads through
  the other one; \<open>GracefulStop\<close> lets pending requests finish. The flush timer fires whatever else happens.
\<close>

definition served :: "('w, 'h, 'fw) process \<Rightarrow> request \<Rightarrow> bool" where
  "served p kind =
     (case kind of
        Submission \<Rightarrow> p_conns p Grpc \<noteq> Shut
      | Reload \<Rightarrow> p_conns p ConfigGrpc \<noteq> Shut
      | FlushTimer \<Rightarrow> True)"

text \<open>What \<open>serverGroup.Wait\<close> waits for.\<close>

definition allEnded :: "('w, 'h, 'fw) process \<Rightarrow> bool" where
  "allEnded p \<longleftrightarrow> (case p_reg p of Finished _ \<Rightarrow> True | _ \<Rightarrow> False) \<and> (case p_worker p of WEnded _ \<Rightarrow> True | _ \<Rightarrow> False) \<and>
     p_serve p Grpc = Left \<and> p_serve p ConfigGrpc = Left \<and> p_serve p Rest = Left"

section \<open>The steps\<close>

text \<open>
  The steps of the program: the two services, the goroutine that runs \<open>Start\<close>, and the network servers as
  far as they follow from a stop call (the open connections have drained, \<open>Serve\<close> returns). \<open>restErr\<close> is
  the result of registering the REST proxy. The context of the group is cancelled by the interrupt
  signal, by the first failure of a member and when \<open>Start\<close> returns. \<open>Start\<close> waits for each \<open>GracefulStop\<close>;
  \<open>Shutdown\<close> gives up after ten seconds, so \<open>Start\<close> does not depend on it.
\<close>

inductive program_step ::
  "('w, 'h, 't, 'sw, 'sr) reg_libs \<Rightarrow> ('fw, 'l, 'mt, 'rd, 'cw, 'ly) wk_libs \<Rightarrow> ('fw \<Rightarrow> string \<Rightarrow> 'fw) \<Rightarrow> svc \<Rightarrow>
   goerr option \<Rightarrow> ('w, 'h, 'fw) process \<Rightarrow> ('w, 'h, 'fw) process \<Rightarrow> bool"
  for libs L tid sv restErr where
  proc_reg: "run_step libs (\<lambda>q. ExecuteRound q (p_cancelled p)) recvProof
       (p_db p, p_transport p, p_front p, p_reg p) (w', q', s', ph') \<Longrightarrow> (ph' = Finished None \<longrightarrow> p_cancelled p) \<Longrightarrow>
     program_step libs L tid sv restErr p
       (groupReturn (regResult ph') (p\<lparr>p_db := w', p_transport := q', p_front := s', p_reg := ph'\<rparr>))"
| proc_worker: "svc_step L tid (p_cancelled p) sv (p_files p, p_transport p, p_worker p) (fw', q', ph') \<Longrightarrow>
     program_step libs L tid sv restErr p
       (groupReturn (workResult ph') (p\<lparr>p_files := fw', p_transport := q', p_worker := ph'\<rparr>))"
| proc_drained: "p_conns p e = Draining \<Longrightarrow>
     program_step libs L tid sv restErr p (p\<lparr>p_conns := (p_conns p)(e := Shut)\<rparr>)"
| proc_serve_returned: "p_serve p e = Listening \<Longrightarrow> serveReleased e (p_conns p e) \<Longrightarrow>
     program_step libs L tid sv restErr p
       (groupReturn (serveResult e res) (p\<lparr>p_serve := (p_serve p)(e := Left)\<rparr>))"
| proc_launched: "p_main p = Launching \<Longrightarrow> restErr = None \<Longrightarrow>
     program_step libs L tid sv restErr p (p\<lparr>p_serve := (p_serve p)(Rest := Listening), p_main := Waiting\<rparr>)"
| proc_not_launched: "p_main p = Launching \<Longrightarrow> restErr = Some err \<Longrightarrow>
     program_step libs L tid sv restErr p (p\<lparr>p_cancelled := True, p_main := Returned (Some err)\<rparr>)"
| proc_stop: "p_main p = Waiting \<Longrightarrow> p_cancelled p \<Longrightarrow>
     program_step libs L tid sv restErr p (closeServer Grpc (p\<lparr>p_main := StoppingGrpc\<rparr>))"
| proc_grpc_stopped: "p_main p = StoppingGrpc \<Longrightarrow> p_conns p Grpc = Shut \<Longrightarrow>
     program_step libs L tid sv restErr p (closeServer ConfigGrpc (p\<lparr>p_main := StoppingConfig\<rparr>))"
| proc_config_stopped: "p_main p = StoppingConfig \<Longrightarrow> p_conns p ConfigGrpc = Shut \<Longrightarrow>
     program_step libs L tid sv restErr p (closeServer Rest (p\<lparr>p_main := AwaitingGroup\<rparr>))"
| proc_returned: "p_main p = AwaitingGroup \<Longrightarrow> allEnded p \<Longrightarrow>
     program_step libs L tid sv restErr p (p\<lparr>p_main := Returned None\<rparr>)"

text \<open>What happens to the program: requests and timers, a failing \<open>Serve\<close>, the interrupt signal.\<close>

inductive environment_step ::
  "('w, 'h, 't, 'sw, 'sr) reg_libs \<Rightarrow> ('ts \<Rightarrow> gotime) \<Rightarrow> (duration \<Rightarrow> 'd) \<Rightarrow>
   ('w, 'h, 'fw) process \<Rightarrow> ('w, 'h, 'fw) process \<Rightarrow> bool"
  for libs asTime newDuration where
  proc_request: "served p kind \<Longrightarrow> request_step libs asTime newDuration kind (p_db p, p_front p) (w', s') \<Longrightarrow>
     environment_step libs asTime newDuration p (p\<lparr>p_db := w', p_front := s'\<rparr>)"
| proc_serve_failed: "p_serve p e = Listening \<Longrightarrow>
     environment_step libs asTime newDuration p
       (groupReturn (serveResult e (Some err)) (p\<lparr>p_serve := (p_serve p)(e := Left)\<rparr>))"
| proc_interrupt: "environment_step libs asTime newDuration p (p\<lparr>p_cancelled := True\<rparr>)"

inductive process_step ::
  "('w, 'h, 't, 'sw, 'sr) reg_libs \<Rightarrow> ('ts \<Rightarrow> gotime) \<Rightarrow> (duration \<Rightarrow> 'd) \<Rightarrow> ('fw, 'l, 'mt, 'rd, 'cw, 'ly) wk_libs \<Rightarrow>
   ('fw \<Rightarrow> string \<Rightarrow> 'fw) \<Rightarrow> svc \<Rightarrow> goerr option \<Rightarrow> ('w, 'h, 'fw) process \<Rightarrow> ('w, 'h, 'fw) process \<Rightarrow> bool"
  for libs asTime newDuration L tid sv restErr where
  by_program: "program_step libs L tid sv restErr p p' \<Longrightarrow> process_step libs asTime newDuration L tid sv restErr p p'"
| by_environment: "environment_step libs asTime newDuration p p' \<Longrightarrow> process_step libs asTime newDuration L tid sv restErr p p'"

lemma program_run:
  assumes "(program_step libs L tid sv restErr)\<^sup>*\<^sup>* p p'"
  shows "(process_step libs asTime newDuration L tid sv restErr)\<^sup>*\<^sup>* p p'"
  using assms by (rule rtranclp_mono [THEN predicate2D, rotated]) (auto intro: by_program)

section \<open>The order of shutdown\<close>

lemma groupReturn_simps [simp]:
  "p_db (groupReturn res p) = p_db p" "p_files (groupReturn res p) = p_files p"
  "p_transport (groupReturn res p) = p_transport p" "p_front (groupReturn res p) = p_front p"
  "p_reg (groupReturn res p) = p_reg p" "p_worker (groupReturn res p) = p_worker p"
  "p_serve (groupReturn res p) = p_serve p" "p_conns (groupReturn res p) = p_conns p" "p_main (groupReturn res p) = p_main p"
  "p_err (groupReturn res p) = (if p_err p = None then res else p_err p)"
  "p_cancelled (groupReturn res p) = (p_cancelled p \<or> res \<noteq> None \<and> p_err p = None)"
  by (auto simp: groupReturn_def split: option.splits)

lemma closeServer_simps [simp]:
  "p_db (closeServer e p) = p_db p" "p_files (closeServer e p) = p_files p"
  "p_transport (closeServer e p) = p_transport p" "p_front (closeServer e p) = p_front p"
  "p_reg (closeServer e p) = p_reg p" "p_worker (closeServer e p) = p_worker p"
  "p_main (closeServer e p) = p_main p" "p_err (closeServer e p) = p_err p"
  "p_cancelled (closeServer e p) = p_cancelled p"
  "p_serve (closeServer e p) = p_serve p"
  "p_conns (closeServer e p) = (if p_conns p e = Accepting then (p_conns p)(e := Draining) else p_conns p)"
  by (auto simp: closeServer_def)

text \<open>What the goroutine that runs \<open>Start\<close> relies on in each of its phases.\<close>

definition stage_ok :: "goerr option \<Rightarrow> ('w, 'h, 'fw) process \<Rightarrow> bool" where
  "stage_ok restErr p =
     (case p_main p of
        Launching \<Rightarrow> p_serve p Rest = Idle
      | Waiting \<Rightarrow> p_serve p Rest \<noteq> Idle
      | StoppingGrpc \<Rightarrow> p_cancelled p \<and> p_serve p Rest \<noteq> Idle \<and> p_conns p Grpc \<noteq> Accepting
      | StoppingConfig \<Rightarrow> p_cancelled p \<and> p_serve p Rest \<noteq> Idle \<and> p_conns p Grpc = Shut \<and> p_conns p ConfigGrpc \<noteq> Accepting
      | AwaitingGroup \<Rightarrow> p_cancelled p \<and> p_serve p Rest \<noteq> Idle \<and> p_conns p Grpc = Shut \<and> p_conns p ConfigGrpc = Shut \<and>
          p_conns p Rest \<noteq> Accepting
      | Returned res \<Rightarrow> p_cancelled p \<and>
          (if res = None then allEnded p \<and> p_conns p Grpc = Shut \<and> p_conns p ConfigGrpc = Shut else res = restErr))"

text \<open>The phases that the disabled worker gets into.\<close>

definition phase_fits :: "svc \<Rightarrow> wphase \<Rightarrow> bool" where
  "phase_fits sv ph = (case ph of WRecovering _ _ \<Rightarrow> sv \<noteq> DisabledWorker | WResuming _ \<Rightarrow> sv \<noteq> DisabledWorker | _ \<Rightarrow> True)"

definition proc_inv :: "svc \<Rightarrow> goerr option \<Rightarrow> ('w, 'h, 'fw) process \<Rightarrow> bool" where
  "proc_inv sv restErr p \<longleftrightarrow> p_serve p Grpc \<noteq> Idle \<and> p_serve p ConfigGrpc \<noteq> Idle \<and> phase_fits sv (p_worker p) \<and>
     (p_err p \<noteq> None \<longrightarrow> p_cancelled p) \<and> (regResult (p_reg p) \<noteq> None \<longrightarrow> p_err p \<noteq> None) \<and>
     (workResult (p_worker p) \<noteq> None \<longrightarrow> p_err p \<noteq> None) \<and> stage_ok restErr p"

lemma proc_inv_init: "proc_inv sv restErr (initProcess srv fw w)"
  by (simp add: proc_inv_def stage_ok_def initProcess_def regResult_def workResult_def phase_fits_def)

lemma run_step_active:
  "run_step libs execs recv (w, q, s, ph) st \<Longrightarrow> ph = Recovering \<or> ph = Running"
  by (cases ph) (auto elim: run_step_finished)

lemma svc_step_active:
  "svc_step L tid c sv (w, q, ph) st \<Longrightarrow> ph \<noteq> WEnded e"
  by (auto elim: svc_step_ended)

lemma svc_step_fits: "svc_step L tid c sv (w, q, ph) (w', q', ph') \<Longrightarrow> phase_fits sv ph'"
  by (auto elim: svc_step.cases simp: phase_fits_def)

lemmas proc_inv_simps = proc_inv_def stage_ok_def allEnded_def

lemma program_step_inv:
  assumes "proc_inv sv restErr p" and "program_step libs L tid sv restErr p p'"
  shows "proc_inv sv restErr p'"
  using assms(2)
proof cases
  case (proc_reg w' q' s' ph')
  from run_step_active [OF proc_reg(2)] have "\<not> allEnded p" "regResult (p_reg p) = None"
    by (auto simp: allEnded_def regResult_def)
  with proc_reg(1) assms(1) show ?thesis
    by (auto simp: proc_inv_simps split: main_phase.splits if_splits)
next
  case (proc_worker fw' q' ph')
  from svc_step_active [OF proc_worker(2)] have "\<not> allEnded p"
    by (auto simp: allEnded_def split: wphase.splits)
  with proc_worker(1) svc_step_fits [OF proc_worker(2)] assms(1) show ?thesis
    by (auto simp: proc_inv_simps split: main_phase.splits if_splits)
next
  case (proc_drained e)
  then show ?thesis using assms(1)
    by (cases e) (auto simp: proc_inv_simps split: main_phase.splits if_splits)
next
  case (proc_serve_returned e res)
  then show ?thesis using assms(1)
    by (cases e) (auto simp: proc_inv_simps split: main_phase.splits if_splits)
qed (use assms(1) in \<open>auto simp: proc_inv_simps split: main_phase.splits if_splits\<close>)

lemma environment_step_inv:
  assumes "proc_inv sv restErr p" and "environment_step libs asTime newDuration p p'"
  shows "proc_inv sv restErr p'"
  using assms(2)
proof cases
  case (proc_serve_failed e err)
  then show ?thesis using assms(1)
    by (cases e) (auto simp: proc_inv_simps split: main_phase.splits if_splits)
qed (use assms(1) in \<open>auto simp: proc_inv_simps split: main_phase.splits if_splits\<close>)

lemma proc_inv_step:
  "proc_inv sv restErr p \<Longrightarrow> process_step libs asTime newDuration L tid sv restErr p p' \<Longrightarrow> proc_inv sv restErr p'"
  by (auto elim!: process_step.cases intro: program_step_inv environment_step_inv)

interpretation process: step_system "process_step libs asTime newDuration L tid sv restErr" "proc_inv sv restErr"
  for libs asTime newDuration L tid sv restErr
  by unfold_locales (rule proc_inv_step)

text \<open>After everything has ended only the flush timer and the signal are left.\<close>

definition ended_as :: "('w, 'h, 'fw) process \<Rightarrow> ('w, 'h, 'fw) process \<Rightarrow> bool" where
  "ended_as p p' \<longleftrightarrow> allEnded p' \<and> p_conns p' Grpc = Shut \<and> p_conns p' ConfigGrpc = Shut \<and>
     p_files p' = p_files p \<and> p_transport p' = p_transport p \<and>
     p_reg p' = p_reg p \<and> p_worker p' = p_worker p \<and> p_err p' = p_err p \<and> p_main p' = p_main p"

lemma ended_as_program:
  assumes "ended_as p p1" and "p_main p = Returned None" and "program_step libs L tid sv restErr p1 p2"
  shows "ended_as p p2"
  using assms(3)
proof cases
  case (proc_reg w' q' s' ph')
  with run_step_active [OF proc_reg(2)] assms(1) show ?thesis by (auto simp: ended_as_def allEnded_def)
next
  case (proc_worker fw' q' ph')
  with svc_step_active [OF proc_worker(2)] assms(1) show ?thesis
    by (auto simp: ended_as_def allEnded_def split: wphase.splits)
next
  case (proc_drained e)
  then show ?thesis using assms(1) by (cases e) (auto simp: ended_as_def allEnded_def)
next
  case (proc_serve_returned e res)
  then show ?thesis using assms(1) by (cases e) (auto simp: ended_as_def allEnded_def)
qed (use assms(1,2) in \<open>auto simp: ended_as_def allEnded_def\<close>)

lemma ended_as_environment:
  assumes "ended_as p p1" and "environment_step libs asTime newDuration p1 p2"
  shows "ended_as p p2"
  using assms(2)
proof cases
  case (proc_serve_failed e err)
  then show ?thesis using assms(1) by (cases e) (auto simp: ended_as_def allEnded_def)
qed (use assms(1) in \<open>auto simp: ended_as_def allEnded_def\<close>)

lemma ended_as_reach:
  assumes "(process_step libs asTime newDuration L tid sv restErr)\<^sup>*\<^sup>* p p'" and "ended_as p p" and "p_main p = Returned None"
  shows "ended_as p p'"
  using assms(1)
proof (induction rule: rtranclp_induct)
  case (step y z)
  from step.hyps(2) step.IH show ?case
    by (auto elim!: process_step.cases intro: ended_as_program ended_as_environment assms(3))
qed (rule assms(2))

section \<open>The services end\<close>

text \<open>
  Under a cancelled context the worker comes to its end from every phase, by returns of the calls it is
  in: an execution stops after one more leaf, a proof is not handed over.
\<close>

definition refuse :: "inMemory option \<Rightarrow> NIP \<Rightarrow> inMemory option \<times> goerr option" where
  "refuse q nip = (case q of None \<Rightarrow> (None, None) | Some q \<Rightarrow> (Some q, Some ErrCanceled))"

abbreviation stopEnv :: "('w \<Rightarrow> string \<Rightarrow> 'w) \<Rightarrow> ('w, inMemory option) wk_env" where
  "stopEnv tid \<equiv> workEnv tid refuse (\<lambda>_ _. Cancelled)"

lemma refuse_ok: "pub_ok True refuse"
  by (auto simp: pub_ok_def refuse_def transport_NewProof_def)

lemma stop_ok: "sel_ok True sel"
  by (simp add: sel_ok_def)

lemma stopEnv_sel: "\<forall>t. en_sel (stopEnv tid) t 0 = Cancelled"
  by (simp add: workEnv_def)

lemma stopEnv_publish: "\<forall>nip. \<exists>e. en_publish (stopEnv tid) (Some q) nip = (Some q, e)"
  by (simp add: workEnv_def refuse_def)

definition worker_stoppable ::
  "('fw, 'l, 'mt, 'rd, 'cw, 'ly) wk_libs \<Rightarrow> svc \<Rightarrow> ('fw \<Rightarrow> string \<Rightarrow> bytes list) \<Rightarrow> ('fw \<Rightarrow> 'l \<Rightarrow> string \<times> nat) \<Rightarrow> bool" where
  "worker_stoppable L sv nodes at \<longleftrightarrow> sv = DisabledWorker \<or> stops_ok L nodes at"

definition worker_ends :: "('fw, 'l, 'mt, 'rd, 'cw, 'ly) wk_libs \<Rightarrow> ('fw \<Rightarrow> string \<Rightarrow> 'fw) \<Rightarrow> svc \<Rightarrow> 'fw \<times> inMemory \<times> wphase \<Rightarrow> bool" where
  "worker_ends L tid sv st \<longleftrightarrow> (\<exists>w' q' res. (svc_step L tid True sv)\<^sup>*\<^sup>* st (w', q', WEnded res))"

lemma worker_ends_step: "svc_step L tid True sv st st' \<Longrightarrow> worker_ends L tid sv st' \<Longrightarrow> worker_ends L tid sv st"
  unfolding worker_ends_def by (meson converse_rtranclp_into_rtranclp)

lemma serving_ends: "worker_ends L tid sv (w, q, WServing)"
  by (rule worker_ends_step [OF svc_shutdown]) (auto simp: worker_ends_def)

lemma ended_ends [simp]: "worker_ends L tid sv (w, q, WEnded res)"
  by (auto simp: worker_ends_def)

lemma executing_ends:
  assumes "worker_stoppable L sv nodes at"
  shows "worker_ends L tid sv (w, q, WExecuting cr)"
proof (cases sv)
  case DisabledWorker
  have "disabledService_handle (stopEnv tid) (Some q) cr = Some q"
    by (simp add: disabledService_handle_def workEnv_def refuse_def)
  with DisabledWorker show ?thesis by (auto intro!: worker_ends_step [OF dw_handled [OF refuse_ok]] serving_ends)
next
  case (PoSWWorker s)
  with assms have ok: "stops_ok L nodes at" by (simp add: worker_stoppable_def)
  obtain w' res where h: "handleClosedRound (stopEnv tid) L s now started w (Some q) cr = Some (Ret (w', Some q, res))"
    using cancelled_handleClosedRound [OF ok stopEnv_sel, of tid s now started w "Some q" cr] by blast
  show ?thesis
  proof (cases res)
    case Go
    from wk_handled [OF refuse_ok stop_ok h [unfolded Go]] show ?thesis
      unfolding PoSWWorker by (rule worker_ends_step) (rule serving_ends)
  next
    case (Stop err)
    from wk_failed [OF refuse_ok stop_ok h [unfolded Stop]] show ?thesis
      unfolding PoSWWorker by (rule worker_ends_step) simp
  qed
qed

lemma resuming_ends:
  assumes "stops_ok L nodes at"
  shows "worker_ends L tid (PoSWWorker s) (w, q, WResuming ex)"
proof (cases ex)
  case None
  show ?thesis unfolding None by (rule worker_ends_step [OF wk_nothing_to_resume serving_ends])
next
  case (Some r)
  obtain w' err where h: "resumeRound (stopEnv tid) L s w (Some q) r = Some (Ret (w', Some q, Stop err))"
    using cancelled_resumeRound [OF assms stopEnv_sel, of tid s w "Some q" r] by blast
  from wk_not_resumed [OF refuse_ok stop_ok h] show ?thesis unfolding Some by (rule worker_ends_step) simp
qed

lemma recovering_ends:
  assumes "stops_ok L nodes at"
  shows "worker_ends L tid (PoSWWorker s) (w, q, WRecovering entries ex)"
proof (induction entries arbitrary: w ex)
  case Nil
  show ?case by (rule worker_ends_step [OF wk_recovered resuming_ends [OF assms]])
next
  case (Cons entry entries)
  obtain w' res where h: "recoverEntry (stopEnv tid) L (roundsDir s) w (Some q) ex entry = Ret (w', Some q, res)"
    using recoverEntry_returns [OF assms stopEnv_publish [of tid q], of "roundsDir s" w ex entry] by blast
  show ?case
  proof (cases res)
    case (Inr ex')
    from wk_entry [OF refuse_ok h [unfolded Inr]] show ?thesis by (rule worker_ends_step) (rule Cons.IH)
  next
    case (Inl err)
    from wk_bad_entry [OF refuse_ok h [unfolded Inl]] show ?thesis by (rule worker_ends_step) simp
  qed
qed

lemma starting_ends:
  assumes "worker_stoppable L sv nodes at"
  shows "worker_ends L tid sv (w, q, WStarting)"
proof (cases sv)
  case DisabledWorker
  show ?thesis unfolding DisabledWorker by (rule worker_ends_step [OF dw_started serving_ends])
next
  case (PoSWWorker s)
  with assms have ok: "stops_ok L nodes at" by (simp add: worker_stoppable_def)
  show ?thesis
  proof (cases "os_ReadDir (wl_os L) w (roundsDir s)")
    case (Inr entries)
    show ?thesis unfolding PoSWWorker by (rule worker_ends_step [OF wk_found [OF Inr] recovering_ends [OF ok]])
  next
    case (Inl err)
    show ?thesis
    proof (cases "errors_Is err ErrNotExist")
      case True
      show ?thesis unfolding PoSWWorker by (rule worker_ends_step [OF wk_no_rounds [OF Inl True] resuming_ends [OF ok]])
    next
      case False
      show ?thesis unfolding PoSWWorker by (rule worker_ends_step [OF wk_unreadable [OF Inl False]]) simp
    qed
  qed
qed

lemma worker_ends_anyway:
  assumes "worker_stoppable L sv nodes at" and "phase_fits sv ph"
  shows "worker_ends L tid sv (w, q, ph)"
proof (cases ph)
  case (WRecovering entries ex)
  with assms obtain s where "sv = PoSWWorker s" "stops_ok L nodes at"
    by (cases sv) (auto simp: phase_fits_def worker_stoppable_def)
  with WRecovering recovering_ends [of L nodes at tid s w q entries ex] show ?thesis by simp
next
  case (WResuming ex)
  with assms obtain s where "sv = PoSWWorker s" "stops_ok L nodes at"
    by (cases sv) (auto simp: phase_fits_def worker_stoppable_def)
  with WResuming resuming_ends [of L nodes at tid s w q ex] show ?thesis by simp
qed (use starting_ends [OF assms(1)] executing_ends [OF assms(1)] serving_ends in simp_all)

text \<open>The registration service gets past its recovery, whose result decides how it goes on.\<close>

lemma some_exec: "\<exists>exec. allowed_exec (\<lambda>q. ExecuteRound q c) exec"
proof -
  have "(SOME x. x \<in> ExecuteRound q c e root) \<in> ExecuteRound q c e root" for q e root
    using closed_rounds.send_total [of q c "\<lparr>cr_Epoch = e, cr_MembershipRoot = root\<rparr>"] by (simp add: sendClosed_def some_in_eq)
  then show ?thesis unfolding allowed_exec_def by (intro exI [of _ "\<lambda>q e root. SOME x. x \<in> ExecuteRound q c e root"]) simp
qed

lemma recovery_ends:
  obtains w' q' ph' where "run_step libs (\<lambda>q. ExecuteRound q c) recvProof (w, q, s, Recovering) (w', q', s, ph')"
    and "ph' = Running \<or> (\<exists>err. ph' = Finished (Some err))"
proof (cases "OpenRound (rs_registration s) = 0")
  case True
  from run_first_round [OF this] show ?thesis by (rule that) simp
next
  case False
  obtain exec where ex: "allowed_exec (\<lambda>q. ExecuteRound q c) exec" using some_exec by blast
  obtain w' q' err where r: "recoverExecution libs exec w q (rs_registration s) (OpenRound (rs_registration s) - 1) = (w', q', err)"
    by (metis prod_cases3)
  show ?thesis
  proof (cases err)
    case None
    from run_recovered [OF False ex r [unfolded None]] show ?thesis by (rule that) simp
  next
    case (Some e)
    from run_unrecovered [OF False ex r [unfolded Some]] show ?thesis by (rule that) simp
  qed
qed

section \<open>Shutdown completes\<close>

text \<open>What a goroutine leaves alone while the others come to their end, and that the first error stays.\<close>

definition keeps_err :: "('w, 'h, 'fw) process \<Rightarrow> ('w, 'h, 'fw) process \<Rightarrow> bool" where
  "keeps_err p p' \<longleftrightarrow> p_cancelled p' \<and> (\<forall>e. p_err p = Some e \<longrightarrow> p_err p' = Some e)"

definition later :: "('w, 'h, 'fw) process \<Rightarrow> ('w, 'h, 'fw) process \<Rightarrow> bool" where
  "later p p' \<longleftrightarrow> keeps_err p p' \<and> p_db p' = p_db p \<and> p_front p' = p_front p"

lemmas later_simps = later_def keeps_err_def

lemma later_trans: "later p p' \<Longrightarrow> later p' p'' \<Longrightarrow> later p p''"
  by (simp add: later_simps)

definition same_servers :: "('w, 'h, 'fw) process \<Rightarrow> ('w, 'h, 'fw) process \<Rightarrow> bool" where
  "same_servers p p' \<longleftrightarrow> p_serve p' = p_serve p \<and> p_conns p' = p_conns p \<and> p_main p' = p_main p"

lemma worker_run_lifts:
  assumes "(svc_step L tid True sv)\<^sup>*\<^sup>* (p_files p, p_transport p, p_worker p) st" and "p_cancelled p"
  shows "\<exists>p'. (program_step libs L tid sv restErr)\<^sup>*\<^sup>* p p' \<and> later p p' \<and>
    (p_files p', p_transport p', p_worker p') = st \<and> p_reg p' = p_reg p \<and> same_servers p p'"
  using assms(1)
proof (induction rule: rtranclp_induct)
  case base
  show ?case using assms(2) by (intro exI [of _ p]) (simp add: later_simps same_servers_def)
next
  case (step st st')
  obtain p1 where p1: "(program_step libs L tid sv restErr)\<^sup>*\<^sup>* p p1" "later p p1"
    "(p_files p1, p_transport p1, p_worker p1) = st" "p_reg p1 = p_reg p" "same_servers p p1"
    using step.IH by blast
  obtain fw q ph where st': "st' = (fw, q, ph)" by (cases st')
  let ?p = "groupReturn (workResult ph) (p1\<lparr>p_files := fw, p_transport := q, p_worker := ph\<rparr>)"
  have "program_step libs L tid sv restErr p1 ?p"
    by (rule proc_worker) (use step.hyps(2) p1(2,3) st' in \<open>simp add: later_simps\<close>)
  with p1(1) have "(program_step libs L tid sv restErr)\<^sup>*\<^sup>* p ?p" by (rule rtranclp.rtrancl_into_rtrancl)
  then show ?case using p1(2-) st' by (intro exI [of _ ?p]) (auto simp: later_simps same_servers_def)
qed

lemma registration_recovers:
  assumes "p_cancelled p"
  obtains p' where "(program_step libs L tid sv restErr)\<^sup>*\<^sup>* p p'" and "keeps_err p p'" and "p_reg p' \<noteq> Recovering"
proof (cases "p_reg p = Recovering")
  case True
  obtain w' q' ph' where r: "run_step libs (\<lambda>q. ExecuteRound q (p_cancelled p)) recvProof
      (p_db p, p_transport p, p_front p, Recovering) (w', q', p_front p, ph')"
    and ph: "ph' = Running \<or> (\<exists>err. ph' = Finished (Some err))" by (rule recovery_ends)
  let ?p = "groupReturn (regResult ph') (p\<lparr>p_db := w', p_transport := q', p_front := p_front p, p_reg := ph'\<rparr>)"
  have "program_step libs L tid sv restErr p ?p" by (rule proc_reg) (use r ph True in auto)
  then have "(program_step libs L tid sv restErr)\<^sup>*\<^sup>* p ?p" ..
  moreover have "keeps_err p ?p" "p_reg ?p \<noteq> Recovering" using assms ph by (auto simp: keeps_err_def)
  ultimately show ?thesis by (rule that)
next
  case False
  with assms show ?thesis by (intro that [of p]) (auto simp: keeps_err_def)
qed

lemma registration_stops:
  assumes "p_reg p \<noteq> Recovering" and "p_cancelled p"
  shows "\<exists>p' e. (program_step libs L tid sv restErr)\<^sup>*\<^sup>* p p' \<and> later p p' \<and> p_reg p' = Finished e \<and>
    p_worker p' = p_worker p \<and> same_servers p p'"
proof (cases "p_reg p = Running")
  case True
  let ?p = "groupReturn (regResult (Finished None)) (p\<lparr>p_db := p_db p, p_transport := p_transport p, p_front := p_front p, p_reg := Finished None\<rparr>)"
  have "program_step libs L tid sv restErr p ?p"
    by (rule proc_reg) (use True assms(2) in \<open>auto intro: run_shutdown\<close>)
  then have "(program_step libs L tid sv restErr)\<^sup>*\<^sup>* p ?p" by blast
  then show ?thesis using assms(2) by (intro exI [of _ ?p]) (auto simp: later_simps regResult_def same_servers_def)
next
  case False
  with assms show ?thesis by (intro exI [of _ p]) (cases "p_reg p"; auto simp: later_simps same_servers_def)
qed

text \<open>After a stop call the connections of a server drain, and its goroutine leaves \<open>Serve\<close>.\<close>

definition drain :: "endpoint \<Rightarrow> ('w, 'h, 'fw) process \<Rightarrow> ('w, 'h, 'fw) process" where
  "drain e p = p\<lparr>p_conns := (p_conns p)(e := Shut)\<rparr>"

definition leave :: "endpoint \<Rightarrow> ('w, 'h, 'fw) process \<Rightarrow> ('w, 'h, 'fw) process" where
  "leave e p = p\<lparr>p_serve := (p_serve p)(e := Left)\<rparr>"

lemma connections_drain:
  assumes "p_conns p e \<noteq> Accepting"
  shows "(program_step libs L tid sv restErr)\<^sup>*\<^sup>* p (drain e p)"
proof (cases "p_conns p e")
  case Draining
  from proc_drained [OF this, of libs L tid sv restErr] show ?thesis by (auto simp: drain_def)
next
  case Shut
  then have "drain e p = p" by (simp add: drain_def fun_upd_idem)
  then show ?thesis by simp
qed (use assms in simp)

lemma goroutine_leaves:
  assumes "p_serve p e \<noteq> Idle" and "serveReleased e (p_conns p e)"
  shows "(program_step libs L tid sv restErr)\<^sup>*\<^sup>* p (leave e p)"
proof (cases "p_serve p e")
  case Listening
  from proc_serve_returned [OF this assms(2), of libs L tid sv restErr None]
  show ?thesis by (auto simp: serveResult_def groupReturn_def leave_def)
next
  case Left
  then have "leave e p = p" by (simp add: leave_def fun_upd_idem)
  then show ?thesis by simp
qed (use assms in simp)

text \<open>From each phase of \<open>Start\<close> to its return, once the two services have ended.\<close>

definition services_ended :: "('w, 'h, 'fw) process \<Rightarrow> bool" where
  "services_ended p \<longleftrightarrow> p_reg p \<in> range Finished \<and> p_worker p \<in> range WEnded \<and> p_cancelled p \<and>
     p_serve p Grpc \<noteq> Idle \<and> p_serve p ConfigGrpc \<noteq> Idle"

definition start_returns ::
  "(('w, 'h, 'fw) process \<Rightarrow> ('w, 'h, 'fw) process \<Rightarrow> bool) \<Rightarrow> ('w, 'h, 'fw) process \<Rightarrow> bool" where
  "start_returns step p \<longleftrightarrow> (\<exists>p'. step\<^sup>*\<^sup>* p p' \<and> later p p' \<and> p_main p' = Returned None)"

lemma start_returns_later:
  "step\<^sup>*\<^sup>* p p1 \<Longrightarrow> later p p1 \<Longrightarrow> start_returns step p1 \<Longrightarrow> start_returns step p"
  unfolding start_returns_def by (meson later_trans rtranclp_trans)

lemma drain_leave_simps [simp]:
  "later p (drain e p') = later p p'" "services_ended (drain e p) = services_ended p"
  "p_main (drain e p) = p_main p" "p_serve (drain e p) = p_serve p" "p_conns (drain e p) = (p_conns p)(e := Shut)"
  "p_cancelled (drain e p) = p_cancelled p"
  "later p (leave e p') = later p p'" "p_main (leave e p) = p_main p" "p_serve (leave e p) = (p_serve p)(e := Left)"
  "p_conns (leave e p) = p_conns p" "p_reg (leave e p) = p_reg p" "p_worker (leave e p) = p_worker p"
  by (simp_all add: drain_def leave_def later_simps services_ended_def)

lemma awaiting_returns:
  assumes "services_ended p" and "p_main p = AwaitingGroup" and "stage_ok restErr p"
  shows "start_returns (program_step libs L tid sv restErr) p"
proof -
  let ?step = "program_step libs L tid sv restErr"
  let ?p = "leave Grpc (leave ConfigGrpc (leave Rest p))"
  have "?step\<^sup>*\<^sup>* p (leave Rest p)"
    by (rule goroutine_leaves) (use assms in \<open>simp_all add: stage_ok_def serveReleased_def\<close>)
  moreover have "?step\<^sup>*\<^sup>* (leave Rest p) (leave ConfigGrpc (leave Rest p))"
    by (rule goroutine_leaves) (use assms in \<open>simp_all add: stage_ok_def serveReleased_def services_ended_def\<close>)
  moreover have "?step\<^sup>*\<^sup>* (leave ConfigGrpc (leave Rest p)) ?p"
    by (rule goroutine_leaves) (use assms in \<open>simp_all add: stage_ok_def serveReleased_def services_ended_def\<close>)
  ultimately have "?step\<^sup>*\<^sup>* p ?p" by simp
  moreover have "?step ?p (?p\<lparr>p_main := Returned None\<rparr>)"
    by (rule proc_returned) (use assms in \<open>auto simp: services_ended_def allEnded_def\<close>)
  ultimately have "?step\<^sup>*\<^sup>* p (?p\<lparr>p_main := Returned None\<rparr>)" by (rule rtranclp.rtrancl_into_rtrancl)
  then show ?thesis using assms(1)
    unfolding start_returns_def by (intro exI [of _ "?p\<lparr>p_main := Returned None\<rparr>"]) (simp add: later_simps services_ended_def leave_def)
qed

text \<open>\<open>GracefulStop\<close> returns once the connections have drained, and \<open>Start\<close> stops the next server.\<close>

lemma stop_next:
  assumes "p_conns p e \<noteq> Accepting" and "services_ended p"
    and "step = program_step libs L tid sv restErr"
    and "step (drain e p) (closeServer e' (drain e p\<lparr>p_main := ph\<rparr>))"
    and "start_returns step (closeServer e' (drain e p\<lparr>p_main := ph\<rparr>))"
  shows "start_returns step p"
proof (rule start_returns_later [OF _ _ assms(5)])
  show "step\<^sup>*\<^sup>* p (closeServer e' (drain e p\<lparr>p_main := ph\<rparr>))"
    using connections_drain [OF assms(1)] assms(3,4) by (meson rtranclp.rtrancl_into_rtrancl)
  show "later p (closeServer e' (drain e p\<lparr>p_main := ph\<rparr>))"
    using assms(2) by (simp add: later_simps services_ended_def drain_def)
qed

lemma config_stopping_returns:
  assumes "services_ended p" and "p_main p = StoppingConfig" and "stage_ok restErr p"
  shows "start_returns (program_step libs L tid sv restErr) p"
proof (rule stop_next [OF _ assms(1) refl, of ConfigGrpc])
  show "p_conns p ConfigGrpc \<noteq> Accepting" using assms(2,3) by (simp add: stage_ok_def)
  show "program_step libs L tid sv restErr (drain ConfigGrpc p) (closeServer Rest (drain ConfigGrpc p\<lparr>p_main := AwaitingGroup\<rparr>))"
    by (rule proc_config_stopped) (use assms(2) in simp_all)
  show "start_returns (program_step libs L tid sv restErr) (closeServer Rest (drain ConfigGrpc p\<lparr>p_main := AwaitingGroup\<rparr>))"
    by (rule awaiting_returns) (use assms in \<open>auto simp: stage_ok_def services_ended_def drain_def\<close>)
qed

lemma grpc_stopping_returns:
  assumes "services_ended p" and "p_main p = StoppingGrpc" and "stage_ok restErr p"
  shows "start_returns (program_step libs L tid sv restErr) p"
proof (rule stop_next [OF _ assms(1) refl, of Grpc])
  show "p_conns p Grpc \<noteq> Accepting" using assms(2,3) by (simp add: stage_ok_def)
  show "program_step libs L tid sv restErr (drain Grpc p) (closeServer ConfigGrpc (drain Grpc p\<lparr>p_main := StoppingConfig\<rparr>))"
    by (rule proc_grpc_stopped) (use assms(2) in simp_all)
  show "start_returns (program_step libs L tid sv restErr) (closeServer ConfigGrpc (drain Grpc p\<lparr>p_main := StoppingConfig\<rparr>))"
    by (rule config_stopping_returns) (use assms in \<open>auto simp: stage_ok_def services_ended_def drain_def\<close>)
qed

lemma waiting_returns:
  assumes "services_ended p" and "p_main p = Waiting" and "stage_ok restErr p"
  shows "start_returns (program_step libs L tid sv restErr) p"
proof (rule start_returns_later)
  let ?p = "closeServer Grpc (p\<lparr>p_main := StoppingGrpc\<rparr>)"
  have "program_step libs L tid sv restErr p ?p"
    by (rule proc_stop) (use assms(1,2) in \<open>simp_all add: services_ended_def\<close>)
  then show "(program_step libs L tid sv restErr)\<^sup>*\<^sup>* p ?p" ..
  show "later p ?p" using assms(1) by (simp add: later_simps services_ended_def)
  show "start_returns (program_step libs L tid sv restErr) ?p"
    by (rule grpc_stopping_returns) (use assms in \<open>auto simp: stage_ok_def services_ended_def\<close>)
qed

lemma launching_returns:
  assumes "services_ended p" and "p_main p = Launching"
  shows "start_returns (program_step libs L tid sv None) p"
proof (rule start_returns_later)
  let ?p = "p\<lparr>p_serve := (p_serve p)(Rest := Listening), p_main := Waiting\<rparr>"
  have "program_step libs L tid sv None p ?p" by (rule proc_launched) (use assms(2) in simp_all)
  then show "(program_step libs L tid sv None)\<^sup>*\<^sup>* p ?p" ..
  show "later p ?p" using assms(1) by (simp add: later_simps services_ended_def)
  show "start_returns (program_step libs L tid sv None) ?p"
    by (rule waiting_returns) (use assms in \<open>auto simp: stage_ok_def services_ended_def\<close>)
qed

lemma shutdown_from_anywhere:
  assumes "services_ended p" and "stage_ok None p"
  shows "start_returns (program_step libs L tid sv None) p"
proof (cases "p_main p")
  case (Returned res)
  with assms have "later p p" "res = None" by (auto simp: later_simps services_ended_def stage_ok_def split: if_splits)
  then show ?thesis using Returned unfolding start_returns_def by blast
qed (use assms in \<open>auto intro: launching_returns waiting_returns grpc_stopping_returns config_stopping_returns awaiting_returns\<close>)

text \<open>The two services end first, then \<open>Start\<close> stops the network servers.\<close>

lemma shutdown_run:
  assumes "proc_inv sv None p" and "p_cancelled p" and "worker_stoppable L sv nodes at" and "p_reg p \<noteq> Recovering"
  shows "start_returns (program_step libs L tid sv None) p"
proof -
  let ?step = "program_step libs L tid sv None"
  have "worker_ends L tid sv (p_files p, p_transport p, p_worker p)"
    by (rule worker_ends_anyway [OF assms(3)]) (use assms(1) in \<open>simp add: proc_inv_def\<close>)
  then obtain fw' q' res where run: "(svc_step L tid True sv)\<^sup>*\<^sup>* (p_files p, p_transport p, p_worker p) (fw', q', WEnded res)"
    unfolding worker_ends_def by blast
  obtain p1 where p1: "?step\<^sup>*\<^sup>* p p1" "later p p1" "p_worker p1 = WEnded res" "p_reg p1 = p_reg p" "same_servers p p1"
    using worker_run_lifts [OF run assms(2)] by blast
  have r: "p_reg p1 \<noteq> Recovering" and c: "p_cancelled p1" using p1(2,4) assms(4) by (simp_all add: later_simps)
  obtain p2 e where p2: "?step\<^sup>*\<^sup>* p1 p2" "later p1 p2" "p_reg p2 = Finished e" "p_worker p2 = p_worker p1" "same_servers p1 p2"
    using registration_stops [OF r c] by blast
  have "?step\<^sup>*\<^sup>* p p2" using p1(1) p2(1) by simp
  moreover have "later p p2" using p1(2) p2(2) by (rule later_trans)
  moreover have "start_returns ?step p2"
  proof (rule shutdown_from_anywhere)
    have i: "proc_inv sv None p2"
      using \<open>?step\<^sup>*\<^sup>* p p2\<close> assms(1) by (induction rule: rtranclp_induct) (auto intro: program_step_inv)
    then show "services_ended p2" "stage_ok None p2"
      using p1(3) p2(2-4) by (auto simp: services_ended_def later_simps proc_inv_def)
  qed
  ultimately show ?thesis by (rule start_returns_later)
qed

section \<open>Requests in the running process\<close>

lemma process_step_reg_inv:
  assumes "process_step libs asTime newDuration L tid sv restErr p p'" and "cfg_ok cfg" and "reg_inv cfg (rs_registration (p_front p))"
  shows "reg_inv cfg (rs_registration (p_front p'))"
  using assms(1)
proof cases
  case by_program
  then show ?thesis
  proof cases
    case (proc_reg w' q' s' ph')
    from run_step_inv [OF proc_reg(2), of cfg] assms(3) proc_reg(1) show ?thesis by (simp add: server_inv_def)
  qed (use assms(3) in simp_all)
next
  case by_environment
  then show ?thesis
  proof cases
    case (proc_request kind w' s')
    from request_step_inv [OF proc_request(3) assms(2,3)] proc_request(1) show ?thesis by simp
  qed (use assms(3) in simp_all)
qed

interpretation process_requests: step_system "process_step libs asTime newDuration L tid sv restErr"
  "\<lambda>p. cfg_ok cfg \<and> reg_inv cfg (rs_registration (p_front p))"
  for libs asTime newDuration L tid sv restErr cfg
  by unfold_locales (auto dest: process_step_reg_inv)

lemma server_New_reg_inv:
  assumes "server_New S E fw w cfg = Ret (fw', w', Inr srv)" and "cfg_ok (cfg_Registration cfg)"
  shows "reg_inv (cfg_Registration cfg) (srv_reg srv)"
proof -
  obtain w0 pub where "reg_New (se_ldb S) (sn_now E) (Inl ErrEOF) (sn_random E) (sn_walk E) w0 (Genesis cfg) (DbDir cfg)
      (cfg_Round cfg) (cfg_Registration cfg) (Some pub) None = Ret (w', Inr (srv_reg srv))"
    using assms(1) by (auto simp: server_New_def split: sum.splits prod.splits option.splits outcome.splits)
  from reg_inv_New [OF assms(2) this] show ?thesis .
qed

lemma process_front_inv:
  assumes "server_New S E fw w cfg = Ret (fw', w', Inr srv)" and "cfg_ok (cfg_Registration cfg)"
    and "(process_step libs asTime newDuration L tid sv restErr)\<^sup>*\<^sup>* (initProcess srv fw'' w'') p"
  shows "reg_inv (cfg_Registration cfg) (rs_registration (p_front p))"
proof -
  have "reg_inv (cfg_Registration cfg) (rs_registration (p_front (initProcess srv fw'' w'')))"
    using server_New_reg_inv [OF assms(1,2)] by (simp add: initProcess_def frontEnd_def rpc_NewServer_def)
  then show ?thesis using process_requests.reachable_inv [OF assms(3)] assms(2) by blast
qed

section \<open>A concrete process\<close>

text \<open>A server without worker whose registration waits for round 0; the public gRPC server fails.\<close>

definition demo_srv :: "(nat, string) Server" where
  "demo_srv = \<lparr>srv_worker = DisabledWorker, srv_reg = demo_reg (demo_round3\<lparr>r_epoch := 0\<rparr>), srv_cfg = mig_cfg,
     srv_privateKey = replicate 64 1, srv_configRpcListener = ''c'', srv_rpcListener = ''r'', srv_restListener = ''h''\<rparr>"

definition demo_process :: "(ldb_world, nat, demo_world) process" where
  "demo_process = initProcess demo_srv demo_files (demo_world [] [])"

abbreviation demo_proc_step ::
  "(ldb_world, nat, demo_world) process \<Rightarrow> (ldb_world, nat, demo_world) process \<Rightarrow> bool" where
  "demo_proc_step \<equiv> process_step demo_libs (\<lambda>t. t) (\<lambda>d. d) (demo_worker []) (\<lambda>w f. w) DisabledWorker None"

definition demo_serving :: "(ldb_world, nat, demo_world) process" where
  "demo_serving = demo_process\<lparr>p_serve := (\<lambda>_. Listening), p_main := Waiting, p_reg := Running, p_worker := WServing\<rparr>"

definition demo_failing :: "(ldb_world, nat, demo_world) process" where
  "demo_failing = demo_serving\<lparr>p_serve := (\<lambda>_. Listening)(Grpc := Left), p_err := Some (Opaque ''accept''), p_cancelled := True\<rparr>"

lemma demo_serving_reached: "demo_proc_step\<^sup>*\<^sup>* demo_process demo_serving"
proof -
  let ?p1 = "demo_process\<lparr>p_serve := (p_serve demo_process)(Rest := Listening), p_main := Waiting\<rparr>"
  let ?p2 = "groupReturn (regResult Running) (?p1\<lparr>p_db := p_db ?p1, p_transport := p_transport ?p1, p_front := p_front ?p1, p_reg := Running\<rparr>)"
  let ?p3 = "groupReturn (workResult WServing) (?p2\<lparr>p_files := p_files ?p2, p_transport := p_transport ?p2, p_worker := WServing\<rparr>)"
  have "demo_proc_step demo_process ?p1"
    by (intro by_program proc_launched) (simp_all add: demo_process_def initProcess_def)
  moreover have "demo_proc_step ?p1 ?p2"
  proof (intro by_program proc_reg)
    have "OpenRound (rs_registration (p_front ?p1)) = 0" "p_reg ?p1 = Recovering"
      by (simp_all add: demo_process_def initProcess_def frontEnd_def rpc_NewServer_def demo_srv_def demo_reg_def OpenRound_def)
    then show "run_step demo_libs (\<lambda>q. ExecuteRound q (p_cancelled ?p1)) recvProof
      (p_db ?p1, p_transport ?p1, p_front ?p1, p_reg ?p1) (p_db ?p1, p_transport ?p1, p_front ?p1, Running)"
      by (simp add: run_first_round)
  qed simp
  moreover have "demo_proc_step ?p2 ?p3"
    by (intro by_program proc_worker) (simp add: demo_process_def initProcess_def dw_started)
  moreover have "?p3 = demo_serving"
    by (simp add: demo_serving_def demo_process_def initProcess_def groupReturn_def regResult_def workResult_def fun_eq_iff)
  ultimately show ?thesis by (metis (no_types, lifting) converse_rtranclp_into_rtranclp rtranclp.rtrancl_refl)
qed

lemma demo_failing_step: "demo_proc_step demo_serving demo_failing"
proof -
  have eq: "demo_failing = groupReturn (serveResult Grpc (Some (Opaque ''accept''))) (demo_serving\<lparr>p_serve := (p_serve demo_serving)(Grpc := Left)\<rparr>)"
    by (simp add: demo_failing_def demo_serving_def demo_process_def initProcess_def groupReturn_def serveResult_def)
  show ?thesis unfolding eq by (intro by_environment proc_serve_failed) (simp add: demo_serving_def)
qed

lemma demo_failing_reached: "demo_proc_step\<^sup>*\<^sup>* (initProcess demo_srv demo_files (demo_world [] [])) demo_failing"
  using demo_serving_reached [unfolded demo_process_def] demo_failing_step by (rule rtranclp.rtrancl_into_rtrancl)

lemma demo_shutdown: "start_returns (program_step demo_libs (demo_worker []) (\<lambda>w f. w) DisabledWorker None) demo_failing"
  by (rule shutdown_run [OF process.reachable_inv [OF demo_failing_reached proc_inv_init]])
    (simp_all add: demo_failing_def demo_serving_def worker_stoppable_def)

text \<open>
  The same server with a worker, when its public gRPC server fails right after the start: the
  registration is still recovering and the worker has not begun.
\<close>

definition demo_early :: "(ldb_world, nat, demo_world) process" where
  "demo_early = demo_process\<lparr>p_serve := (\<lambda>_. Listening)(Grpc := Left), p_main := Waiting,
     p_err := Some (Opaque ''accept''), p_cancelled := True\<rparr>"

lemma demo_early_reached:
  "(process_step demo_libs (\<lambda>t. t) (\<lambda>d. d) (demo_worker []) (\<lambda>w f. w) (PoSWWorker demo_service) None)\<^sup>*\<^sup>* (initProcess demo_srv demo_files (demo_world [] [])) demo_early"
proof -
  let ?step = "process_step demo_libs (\<lambda>t. t) (\<lambda>d. d) (demo_worker []) (\<lambda>w f. w) (PoSWWorker demo_service) None"
    and ?p0 = "initProcess demo_srv demo_files (demo_world [] [])"
  let ?p1 = "?p0\<lparr>p_serve := (p_serve ?p0)(Rest := Listening), p_main := Waiting\<rparr>"
  have s1: "?step ?p0 ?p1" by (intro by_program proc_launched) (simp_all add: initProcess_def)
  have s2: "?step ?p1 (groupReturn (serveResult Grpc (Some (Opaque ''accept''))) (?p1\<lparr>p_serve := (p_serve ?p1)(Grpc := Left)\<rparr>))"
    by (intro by_environment proc_serve_failed) (simp add: initProcess_def)
  have eq: "groupReturn (serveResult Grpc (Some (Opaque ''accept''))) (?p1\<lparr>p_serve := (p_serve ?p1)(Grpc := Left)\<rparr>) = demo_early"
    by (simp add: demo_early_def demo_process_def initProcess_def groupReturn_def serveResult_def fun_eq_iff)
  from s1 have "?step\<^sup>*\<^sup>* ?p0 ?p1" ..
  then show ?thesis using s2 unfolding eq by (rule rtranclp.rtrancl_into_rtrancl)
qed

lemma demo_stops: "stops_ok (demo_worker root) (\<lambda>w. lw_nodes (snd w)) (\<lambda>w. lw_at (snd w))"
proof -
  have "ref_add h ps x \<noteq> []" for h ps x by (cases ps) simp_all
  then have "foldl (ref_add h) [] ls \<noteq> []" if "ls \<noteq> []" for h ls using that by (cases ls rule: rev_cases) simp_all
  then have "mk_GetParkedNodes (ref_merkle h) t \<noteq> []" for h t by (simp add: ref_merkle_def ref_park_def)
  then show ?thesis
    using lift_rec_read [OF ref_layer_read_ok]
    by (auto simp: stops_ok_def demo_worker_def Load_def any_codec_def split: sum.splits)
qed

section \<open>Properties\<close>

text \<open>
  C8: \<open>Start\<close> returns last. When it has returned without an error, the registration loop, the worker and
  the goroutines of the three network servers have ended and neither gRPC server serves a request any
  more, and whatever happens afterwards (only a flush timer or the signal can) starts none of them again,
  reads or writes no file of the worker and leaves the transport alone, so that the databases can be
  closed.
\<close>

theorem start_returns_last:
  assumes "(process_step libs asTime newDuration L tid sv restErr)\<^sup>*\<^sup>* (initProcess srv fw w) p" and "p_main p = Returned None"
    and "(process_step libs asTime newDuration L tid sv restErr)\<^sup>*\<^sup>* p p'"
  shows "allEnded p \<and> \<not> served p Submission \<and> \<not> served p Reload \<and>
    allEnded p' \<and> \<not> served p' Submission \<and> \<not> served p' Reload \<and>
    p_files p' = p_files p \<and> p_transport p' = p_transport p \<and> p_main p' = Returned None"
proof -
  have "proc_inv sv restErr p" by (rule process.reachable_inv [OF assms(1) proc_inv_init])
  with assms(2) have "ended_as p p" by (simp add: proc_inv_def stage_ok_def ended_as_def)
  with ended_as_reach [OF assms(3) _ assms(2)] assms(2) show ?thesis by (simp add: ended_as_def served_def)
qed

theorem start_returns_last_witness:
  "\<exists>p. demo_proc_step\<^sup>*\<^sup>* demo_process p \<and> p_main p = Returned None \<and> allEnded p \<and> \<not> served p Submission"
proof -
  obtain p where p: "demo_proc_step\<^sup>*\<^sup>* demo_failing p" "p_main p = Returned None"
    using demo_shutdown program_run unfolding start_returns_def by blast
  have r: "demo_proc_step\<^sup>*\<^sup>* (initProcess demo_srv demo_files (demo_world [] [])) p"
    using demo_failing_reached p(1) by (rule rtranclp_trans)
  with start_returns_last [OF r p(2) rtranclp.rtrancl_refl] p(2) show ?thesis unfolding demo_process_def by blast
qed

text \<open>
  C38: Shutdown completes, and hides its cause. Take any state that the process reaches, under every
  interleaving of requests, failures and signals, in which the context is cancelled: wherever \<open>Start\<close>, the
  registration service (also in its recovery) and the worker (also in the middle of an execution or a
  recovery) are, the steps of the program alone, without any further request, failure or signal, lead to
  the return of \<open>Start\<close>. The network servers take part only through the stop calls that \<open>Start\<close> makes.
  \<open>Start\<close> returns \<open>nil\<close>, also when the group has recorded that a member failed. Conditions: the REST proxy
  can be registered; unless the worker is disabled, every readable state file names its execution, a layer
  file is read to its end, and a tree has at least one parked node.
\<close>

theorem shutdown_completes:
  assumes "(process_step libs asTime newDuration L tid sv None)\<^sup>*\<^sup>* (initProcess srv fw w) p" and "p_cancelled p"
    and "worker_stoppable L sv nodes at"
  shows "\<exists>p'. (program_step libs L tid sv None)\<^sup>*\<^sup>* p p' \<and> p_main p' = Returned None \<and>
    (\<forall>err. p_err p = Some err \<longrightarrow> p_err p' = Some err)"
proof -
  have inv: "proc_inv sv None p" by (rule process.reachable_inv [OF assms(1) proc_inv_init])
  obtain p1 where p1: "(program_step libs L tid sv None)\<^sup>*\<^sup>* p p1" "keeps_err p p1" "p_reg p1 \<noteq> Recovering"
    by (rule registration_recovers [OF assms(2)])
  have "proc_inv sv None p1" using p1(1) inv by (induction rule: rtranclp_induct) (auto intro: program_step_inv)
  moreover have "p_cancelled p1" using p1(2) by (simp add: keeps_err_def)
  ultimately have "start_returns (program_step libs L tid sv None) p1" using assms(3) p1(3) by (rule shutdown_run)
  with p1(1,2) show ?thesis unfolding start_returns_def later_simps by (meson rtranclp_trans)
qed

theorem shutdown_completes_witness:
  "\<exists>p'. (program_step demo_libs (demo_worker []) (\<lambda>w f. w) (PoSWWorker demo_service) None)\<^sup>*\<^sup>* demo_early p' \<and>
     p_reg demo_early = Recovering \<and> p_worker demo_early = WStarting \<and> p_serve demo_early ConfigGrpc = Listening \<and>
     served demo_early Submission \<and> p_main p' = Returned None \<and> p_err p' = Some (Opaque ''accept'')"
proof -
  have e: "p_err demo_early = Some (Opaque ''accept'')" "p_cancelled demo_early" "p_reg demo_early = Recovering"
    "p_worker demo_early = WStarting" "p_serve demo_early ConfigGrpc = Listening" "served demo_early Submission"
    by (simp_all add: demo_early_def demo_process_def initProcess_def served_def)
  have "worker_stoppable (demo_worker []) (PoSWWorker demo_service) (\<lambda>w. lw_nodes (snd w)) (\<lambda>w. lw_at (snd w))"
    by (simp add: worker_stoppable_def demo_stops)
  from shutdown_completes [OF demo_early_reached e(2) this] e show ?thesis by blast
qed

text \<open>
  C6: No request brings the process down. Let the configured certifier key (if any) have 32 bytes and
  the configured difficulty fit into a signed integer. Then in every state that the process of a
  constructed server reaches, under every interleaving of requests, key reloads, flushes, closed rounds,
  proofs, failures and shutdown, the configuration of the registration service is unchanged, every
  trusted key has 32 bytes and is filed under its own first four bytes, and the PoW parameters honoured
  have the configured difficulty; and neither a submission, whatever it contains, nor a reload of the
  trusted keys panics.
\<close>

theorem process_requests_never_panic:
  assumes "server_New S E fw w cfg = Ret (fw1, w1, Inr srv)" and "cfg_ok (cfg_Registration cfg)"
    and "(process_step libs asTime newDuration L tid sv restErr)\<^sup>*\<^sup>* (initProcess srv fw2 w1) p"
  shows "reg_cfg (rs_registration (p_front p)) = cfg_Registration cfg \<and>
    keys_ok (reg_trustedCertifierKeys (rs_registration (p_front p))) \<and>
    pow_ok (PowDifficulty (cfg_Registration cfg)) (reg_powVerifiers (rs_registration (p_front p))) \<and>
    rpc_Submit libs asTime newDuration now later' await (p_db p) (p_front p) req \<noteq> Panic \<and>
    rpc_ReloadTrustedKeys walk (p_front p) \<noteq> Panic"
  using requests_no_panic [OF assms(2) process_front_inv [OF assms(1,2,3)]] process_front_inv [OF assms(1,2,3)]
  by (simp add: reg_inv_def)

theorem process_requests_never_panic_witness:
  "\<exists>fw w srv p'. demo_start (demo_senv 1) empty_world = Ret (fw, w, Inr srv) \<and>
     demo_proc_step (initProcess srv demo_files w) p' \<and> p_cancelled p' \<and>
     keys_ok (reg_trustedCertifierKeys (rs_registration (p_front p'))) \<and>
     rpc_Submit demo_libs (\<lambda>t. t) (\<lambda>d. d) 0 0 demo_await (p_db p') (p_front p') demo_req \<noteq> Panic"
proof -
  obtain fw w srv where a: "demo_start (demo_senv 1) empty_world = Ret (fw, w, Inr srv)"
    using startedD [OF demo_starts(1)] by blast
  let ?p' = "(initProcess srv demo_files w)\<lparr>p_cancelled := True\<rparr>"
  have s: "demo_proc_step (initProcess srv demo_files w) ?p'" by (intro by_environment proc_interrupt)
  have c: "cfg_ok (cfg_Registration mig_cfg)"
    by (simp add: cfg_ok_def mig_cfg_def server_DefaultConfig_def reg_DefaultConfig_def Let_def)
  from s have r: "demo_proc_step\<^sup>*\<^sup>* (initProcess srv demo_files w) ?p'" ..
  from process_requests_never_panic [OF a c r, of 0 0 demo_await demo_req "[]"]
  show ?thesis using a s by (intro exI [of _ fw] exI [of _ w] exI [of _ srv] exI [of _ ?p']) simp
qed

text \<open>
  C39: A round closed while the worker is behind is lost. If a closed round still waits in the transport
  (after a restart, the one that was sent again while the worker resumes it), closing the next round
  reports success, opens a new round and moves on, but nothing is handed over: the challenges
  registered in the closed round are not worked on.
\<close>

theorem round_closed_behind_worker_is_lost:
  assumes "m_closedRounds q \<noteq> []" and "allowed_exec (\<lambda>q. ExecuteRound q False) exec"
    and "closeRound libs exec now w q r = Ret (w', q', r', None)"
  shows "q' = q \<and> OpenRoundId (reg_roundCfg r) (reg_genesis r) now = Ret (r_epoch (reg_openRound r'))"
proof -
  obtain root w2 e rnd where x: "exec q (r_epoch (reg_openRound r)) root = (q', None)"
    and e: "OpenRoundId (reg_roundCfg r) (reg_genesis r) now = Ret e"
    and n: "newRound (rl_ldb libs) w2 e (reg_dbdir r) (newRoundOpts (reg_cfg r)) = (w', Inr rnd)"
    and r': "r' = r\<lparr>reg_openRound := rnd\<rparr>"
    by (rule closeRound_handover [OF assms(3)])
  have "(q', None) \<in> ExecuteRound q False (r_epoch (reg_openRound r)) root"
    using assms(2) x unfolding allowed_exec_def by metis
  then have "q' = q"
    using assms(1) by (cases "m_closedRounds q") (simp_all add: ExecuteRound_def chanCap_def Let_def)
  with e n r' show ?thesis by (simp add: newRound_epoch)
qed

text \<open>After an error of \<open>Start\<close> nobody is left to stop the network servers.\<close>

lemma never_stopped:
  assumes "(process_step libs asTime newDuration L tid sv restErr)\<^sup>*\<^sup>* p p'" and "p_main p = Returned (Some err)"
    and "\<forall>e. p_conns p e = Accepting"
  shows "p_main p' = Returned (Some err) \<and> (\<forall>e. p_conns p' e = Accepting)"
  using assms(1)
proof (induction rule: rtranclp_induct)
  case (step p1 p2)
  from step.hyps(2) step.IH show ?case by (auto elim!: process_step.cases program_step.cases environment_step.cases)
qed (use assms(2,3) in simp)

text \<open>
  A failed start leaves its goroutines behind. When the REST proxy cannot be registered, \<open>Start\<close>
  returns the error at once: the registration loop, the worker and both gRPC servers are still running,
  and whatever follows, nobody stops a gRPC server and requests are served for ever; the caller then
  closes the databases under them.
\<close>

lemma failed_start_leaves_goroutines:
  "\<exists>p. program_step libs L tid sv (Some err) (initProcess srv fw w) p \<and>
    p_main p = Returned (Some err) \<and> p_reg p = Recovering \<and> p_worker p = WStarting \<and>
    (\<forall>p'. (process_step libs asTime newDuration L tid sv (Some err))\<^sup>*\<^sup>* p p' \<longrightarrow> served p' Submission \<and> served p' Reload)"
proof -
  let ?p = "(initProcess srv fw w)\<lparr>p_cancelled := True, p_main := Returned (Some err)\<rparr>"
  have "program_step libs L tid sv (Some err) (initProcess srv fw w) ?p"
    by (rule proc_not_launched) (simp_all add: initProcess_def)
  moreover have "served p' Submission \<and> served p' Reload" if "(process_step libs asTime newDuration L tid sv (Some err))\<^sup>*\<^sup>* ?p p'" for p'
    using never_stopped [OF that, of err] by (simp add: initProcess_def served_def)
  ultimately show ?thesis by (intro exI [of _ ?p]) (simp add: initProcess_def)
qed

text \<open>Round 2 waits in the transport when round 3, with one challenge, is closed.\<close>

definition late_transport :: inMemory where
  "late_transport = NewInMemory\<lparr>m_closedRounds := [\<lparr>cr_Epoch = 2, cr_MembershipRoot = [9]\<rparr>]\<rparr>"

abbreviation late_close :: "(ldb_world \<times> inMemory \<times> nat Registration \<times> goerr option) outcome" where
  "late_close \<equiv> closeRound demo_libs e2e_exec 300000000000
     (demo_world [Some ''p'', Some ''x''] [(''x'', [([7], [70])]), (''p'', [])]) late_transport (demo_reg (demo_round3\<lparr>r_db := 1\<rparr>))"

lemma late_close_succeeds: "case late_close of Ret (w, q, r, err) \<Rightarrow> err = None | Panic \<Rightarrow> False"
  by code_simp

theorem round_closed_behind_worker_is_lost_witness:
  "\<exists>w' r'. late_close = Ret (w', late_transport, r', None) \<and>
    OpenRoundId DefaultRoundConfig 0 300000000000 = Ret (r_epoch (reg_openRound r'))"
proof -
  obtain w' q' r' where c: "late_close = Ret (w', q', r', None)"
    using late_close_succeeds by (auto split: outcome.splits)
  have x: "allowed_exec (\<lambda>q. ExecuteRound q False) e2e_exec"
    by (simp add: allowed_exec_def e2e_exec_allowed)
  have "m_closedRounds late_transport \<noteq> []" by (simp add: late_transport_def)
  from round_closed_behind_worker_is_lost [OF this x c] c show ?thesis by (simp add: demo_reg_def)
qed

end
