(* ===== verification/Durability.thy ===== *)
theory Durability
  imports Process
begin

text \<open>
  What the running process does to the databases: the registration service opens, writes and closes
  them in many places, and the invariant here says that none of these places loses a challenge that was
  stored in the database of a round.
\<close>

section \<open>The invariant\<close>

text \<open>Outside of the database at \<open>pp\<close>, entries are only added.\<close>

definition grows :: "'w ldb_cont \<Rightarrow> string \<Rightarrow> 'w \<Rightarrow> 'w \<Rightarrow> bool" where
  "grows cont pp w w' \<longleftrightarrow> (\<forall>p m. p \<noteq> pp \<longrightarrow> cont w p = Some m \<longrightarrow> (\<exists>m'. cont w' p = Some m' \<and> m \<subseteq>\<^sub>m m'))"

text \<open>An open handle has a database behind it, and a batch never overwrites an entry.\<close>

definition open_stored :: "'w ldb_cont \<Rightarrow> ('w, 'h) ldb_path \<Rightarrow> 'w \<Rightarrow> bool" where
  "open_stored cont path w \<longleftrightarrow> (\<forall>h p. path w h = Some p \<longrightarrow> cont w p \<noteq> None)"

definition fresh_batch :: "'w ldb_cont \<Rightarrow> ('w, 'h) ldb_path \<Rightarrow> 'w \<Rightarrow> 'h round \<Rightarrow> bool" where
  "fresh_batch cont path w rnd \<longleftrightarrow>
     (\<forall>p m. path w (r_db rnd) = Some p \<longrightarrow> cont w p = Some m \<longrightarrow> fst ` set (r_batch rnd) \<inter> dom m = {})"

definition proofsPath :: "string \<Rightarrow> string" where
  "proofsPath dbdir = filepath_Join [dbdir, ''proofs'']"

text \<open>The open round is closed or has its own database, and the database of proofs stays open.\<close>

definition store_inv :: "'w ldb_cont \<Rightarrow> ('w, 'h) ldb_path \<Rightarrow> string \<Rightarrow> 'w \<Rightarrow> 'h Registration \<Rightarrow> bool" where
  "store_inv cont path dbdir w r \<longleftrightarrow> reg_dbdir r = dbdir \<and> open_stored cont path w \<and>
     fresh_batch cont path w (reg_openRound r) \<and>
     path w (r_db (reg_openRound r)) \<in> {None, Some (roundPath dbdir (r_epoch (reg_openRound r)))} \<and>
     path w (db_db (reg_db r)) = Some (proofsPath dbdir)"

lemma grows_refl [simp]: "grows cont pp w w"
  by (simp add: grows_def)

lemma grows_trans:
  assumes "grows cont pp w w'" and "grows cont pp w' w''"
  shows "grows cont pp w w''"
  unfolding grows_def
proof (intro allI impI)
  fix p m assume "p \<noteq> pp" and "cont w p = Some m"
  then obtain m' where m': "cont w' p = Some m'" "m \<subseteq>\<^sub>m m'" using assms(1) unfolding grows_def by blast
  then obtain m'' where "cont w'' p = Some m''" "m' \<subseteq>\<^sub>m m''"
    using assms(2) \<open>p \<noteq> pp\<close> unfolding grows_def by blast
  with m'(2) show "\<exists>m'. cont w'' p = Some m' \<and> m \<subseteq>\<^sub>m m'" by (blast intro: map_le_trans)
qed

lemma grows_same: "cont w' = cont w \<Longrightarrow> grows cont pp w w'"
  by (simp add: grows_def)

lemma grows_write: "cont w' = (cont w)(p \<mapsto> m') \<Longrightarrow> cont w p = Some m \<Longrightarrow> m \<subseteq>\<^sub>m m' \<Longrightarrow> grows cont pp w w'"
  by (auto simp: grows_def)

lemma lastElem_roundPath: "lastElem (roundPath dbdir e) = FormatUint e"
proof -
  have "filepath_Join [dbdir, ''rounds'', FormatUint e]
      = filepath_Join [if dbdir = [] then ''rounds'' else dbdir @ ''/rounds'', FormatUint e]"
    using plain_name_FormatUint [of e] by (auto simp: filepath_Join_def plain_name_def)
  then show ?thesis by (simp add: roundPath_def epochToRoundId_def lastElem_Join)
qed

lemma proofsPath_not_round [simp]: "proofsPath dbdir \<noteq> roundPath dbdir e"
proof
  assume "proofsPath dbdir = roundPath dbdir e"
  then have "FormatUint e = ''proofs''"
    using lastElem_roundPath [of dbdir e] lastElem_Join [of "''proofs''" dbdir] by (simp add: proofsPath_def plain_name_def)
  moreover have "ParseUint ''proofs'' 64 = None" by (simp add: ParseUint_def)
  moreover have "unat e < 2 ^ 64" using unsigned_less [of e] by simp
  then have "ParseUint (FormatUint e) 64 \<noteq> None" using ParseUint_FormatUint by simp
  ultimately show False by simp
qed

lemmas round_not_proofsPath [simp] = proofsPath_not_round [symmetric]

section \<open>Rounds\<close>

lemma apply_batch_grows: "fst ` set b \<inter> dom m = {} \<Longrightarrow> m \<subseteq>\<^sub>m apply_batch m b"
  unfolding map_le_def using apply_batch_other [of _ b m] by (metis IntI empty_iff)

lemma flush_store:
  assumes "leveldb_contract L cont path" and "open_stored cont path w" and "fresh_batch cont path w rnd"
    and "flushPendingSubmitsLocked L w rnd = (w', rnd')"
  shows "path w' = path w \<and> grows cont pp w w' \<and> open_stored cont path w' \<and> r_batch rnd' = [] \<and> r_db rnd' = r_db rnd \<and> r_epoch rnd' = r_epoch rnd"
proof (cases "r_batch rnd = []")
  case True
  with assms(2,4) show ?thesis by (auto simp: flushPendingSubmitsLocked_def)
next
  case False
  then obtain err where wr: "ldb_Write L w (r_db rnd) (r_batch rnd) = (w', err)"
    and rnd': "r_batch rnd' = []" "r_db rnd' = r_db rnd" "r_epoch rnd' = r_epoch rnd"
    using assms(4) by (auto simp: flushPendingSubmitsLocked_def Let_def split: prod.splits)
  show ?thesis
  proof (cases "path w (r_db rnd)")
    case None
    from contract_closed(4) [OF assms(1) None] wr have "w' = w" by simp
    with assms(2) rnd' show ?thesis by simp
  next
    case (Some p)
    with assms(2) obtain m where m: "cont w p = Some m" unfolding open_stored_def by blast
    have "ldb_write_ok L cont path" using assms(1) by (simp add: leveldb_contract_def)
    then have w': "path w' = path w" "cont w' = (cont w)(p \<mapsto> apply_batch m (r_batch rnd)) \<or> cont w' = cont w"
      using Some m wr unfolding ldb_write_ok_def by blast+
    have "m \<subseteq>\<^sub>m apply_batch m (r_batch rnd)"
      by (rule apply_batch_grows) (use assms(3) Some m in \<open>simp add: fresh_batch_def\<close>)
    with w'(2) m have "grows cont pp w w'" by (auto intro: grows_write grows_same)
    moreover have "open_stored cont path w'" using assms(2) w' by (auto simp: open_stored_def)
    ultimately show ?thesis using w'(1) rnd' by simp
  qed
qed

lemma close_store:
  assumes "leveldb_contract L cont path" and "open_stored cont path w" and "fresh_batch cont path w rnd"
    and "round_Close L w rnd = (w', rnd', err)"
  shows "path w' = (path w)(r_db rnd := None) \<and> grows cont pp w w' \<and> open_stored cont path w' \<and> r_batch rnd' = [] \<and>
    r_db rnd' = r_db rnd \<and> r_epoch rnd' = r_epoch rnd"
proof -
  obtain w1 e where f: "flushPendingSubmitsLocked L w rnd = (w1, rnd')" and c: "ldb_Close L w1 (r_db rnd') = (w', e)"
    using assms(4) by (auto simp: round_Close_def flushPendingSubmits_def split: prod.splits option.splits)
  note 1 = flush_store [OF assms(1-3) f, of pp]
  have 2: "cont w' = cont w1 \<and> path w' = (path w1)(r_db rnd := None)"
  proof (cases "path w1 (r_db rnd)")
    case None
    with contract_closed(2) [OF assms(1) None] c 1 show ?thesis by (auto simp: fun_upd_idem)
  next
    case (Some p)
    with contract_close [OF assms(1) Some] c 1 show ?thesis by simp
  qed
  then have "open_stored cont path w'" using 1 by (auto simp: open_stored_def)
  with 1 2 show ?thesis by (auto intro: grows_trans grows_same)
qed

lemma newRound_failed:
  assumes "leveldb_contract L cont path" and "newRound L w e dbdir opts = (w', Inl err)"
  shows "cont w' = cont w \<and> path w' = path w"
proof -
  obtain b e0 where o: "ldb_OpenFile L w (roundPath dbdir e) b = (w', Inl e0)"
    using assms(2) by (auto simp: newRound_def Let_def split: prod.splits sum.splits)
  have "ldb_open_ok L cont path" using assms(1) by (simp add: leveldb_contract_def)
  from this [unfolded ldb_open_ok_def, rule_format, OF o] show ?thesis by simp
qed

lemma newRound_store:
  assumes "leveldb_contract L cont path" and "open_stored cont path w" and "newRound L w e dbdir opts = (w', Inr rnd)"
  shows "grows cont pp w w' \<and> open_stored cont path w' \<and> fresh_batch cont path w' rnd"
proof -
  note o = newRound_opened [OF assms(1,3)]
  have "grows cont pp w w'" using o(3) by (auto simp: grows_def split: option.splits)
  moreover have "open_stored cont path w'" using assms(2) o(2,3) by (auto simp: open_stored_def)
  ultimately show ?thesis using o(5) by (simp add: fresh_batch_def)
qed

text \<open>Opening the database of an existing round for a moment leaves no trace.\<close>

lemma newRound_existing:
  assumes "leveldb_contract L cont path" and "newRound L w e dbdir (opts @ [failIfNotExists]) = (w', Inr rnd)"
  shows "cont w' = cont w"
proof -
  have "o_failIfNotExists (foldl (\<lambda>os f. f os) defaultRoundOptions (opts @ [failIfNotExists]))"
    by (simp add: failIfNotExists_def)
  then have "ldb_OpenFile L w (roundPath dbdir e) True = (w', Inr (r_db rnd))"
    using assms(2) by (auto simp: newRound_def Let_def split: prod.splits sum.splits)
  from contract_open(2) [OF assms(1) this] have "cont w (roundPath dbdir e) \<noteq> None" by simp
  with newRound_opened(3) [OF assms(1,2)] show ?thesis by (auto simp: fun_upd_idem)
qed

lemma visit_round:
  assumes "leveldb_contract L cont path" and "newRound L w e dbdir (opts @ [failIfNotExists]) = (w1, Inr rnd)"
    and "r_batch rnd' = []" and "r_db rnd' = r_db rnd" and "round_Close L w1 rnd' = (w2, rnd2, err)"
  shows "cont w2 = cont w \<and> path w2 = path w"
proof -
  note o = newRound_opened [OF assms(1,2)]
  have "path w1 (r_db rnd') = Some (roundPath dbdir e)" using o(2) assms(4) by simp
  from round_Close_idle [OF assms(1) this assms(3,5)] newRound_existing [OF assms(1,2)] o(1,2) assms(4)
  show ?thesis by (auto simp: fun_upd_idem)
qed

section \<open>The registration service\<close>

definition safe_update ::
  "'w ldb_cont \<Rightarrow> ('w, 'h) ldb_path \<Rightarrow> string \<Rightarrow> 'w \<Rightarrow> 'w \<Rightarrow> 'h Registration \<Rightarrow> bool" where
  "safe_update cont path dbdir w w' r' \<longleftrightarrow> store_inv cont path dbdir w' r' \<and> grows cont (proofsPath dbdir) w w'"

lemma safe_update_refl: "store_inv cont path dbdir w r \<Longrightarrow> safe_update cont path dbdir w w r"
  by (simp add: safe_update_def)

lemma handles_differ: "store_inv cont path dbdir w r \<Longrightarrow> db_db (reg_db r) \<noteq> r_db (reg_openRound r)"
  by (auto simp: store_inv_def)

lemma store_inv_openRound:
  assumes "store_inv cont path dbdir w r" and "open_stored cont path w'" and "fresh_batch cont path w' rnd"
    and "path w' (r_db rnd) \<in> {None, Some (roundPath dbdir (r_epoch rnd))}" and "path w' (db_db (reg_db r)) = path w (db_db (reg_db r))"
  shows "store_inv cont path dbdir w' (r\<lparr>reg_openRound := rnd\<rparr>)"
  using assms by (simp add: store_inv_def)

lemma flush_safe:
  assumes "leveldb_contract L cont path" and "store_inv cont path dbdir w r" and "fresh_batch cont path w rnd"
    and "r_db rnd = r_db (reg_openRound r)" and "r_epoch rnd = r_epoch (reg_openRound r)"
    and "flushPendingSubmitsLocked L w rnd = (w', rnd')"
  shows "safe_update cont path dbdir w w' (r\<lparr>reg_openRound := rnd'\<rparr>)"
proof -
  have s: "open_stored cont path w" using assms(2) by (simp add: store_inv_def)
  note f = flush_store [OF assms(1) s assms(3,6)]
  have "store_inv cont path dbdir w' (r\<lparr>reg_openRound := rnd'\<rparr>)"
    by (rule store_inv_openRound [OF assms(2)]) (use f assms(2,4,5) in \<open>auto simp: fresh_batch_def store_inv_def\<close>)
  with f show ?thesis by (simp add: safe_update_def)
qed

lemma enqueue_safe:
  assumes "leveldb_contract L cont path" and "store_inv cont path dbdir w r"
    and "ldb_Get L w (r_db (reg_openRound r)) key = Inl e" and "errors_Is e ErrNotFound"
    and "enqueue L w (reg_openRound r) key c = (w', rnd, res)"
  shows "safe_update cont path dbdir w w' (r\<lparr>reg_openRound := rnd\<rparr>)"
proof -
  let ?rnd = "with_pending (reg_openRound r) key c"
  have fresh: "fresh_batch cont path w ?rnd"
    using assms(2) contract_get(2) [OF assms(1) _ _ assms(3,4)]
    by (fastforce simp: fresh_batch_def store_inv_def with_pending_def)
  from assms(5) show ?thesis
  proof (cases rule: enqueue_cases)
    case full
    show ?thesis by (rule flush_safe [OF assms(1,2) fresh _ _ full]) (simp_all add: with_pending_def)
  qed (use assms(2) fresh in \<open>auto simp: safe_update_def store_inv_def fresh_batch_def with_pending_def\<close>)
qed

lemma submit_safe:
  assumes "leveldb_contract L cont path" and "store_inv cont path dbdir w r"
    and "submit L w (reg_openRound r) key c = (w', rnd, res)"
  shows "safe_update cont path dbdir w w' (r\<lparr>reg_openRound := rnd\<rparr>)"
proof (cases res)
  case (Inl err)
  with assms(2,3) submit_rejected_unchanged show ?thesis by (fastforce simp: safe_update_def)
next
  case (Inr ch)
  with assms(3) obtain e where "ldb_Get L w (r_db (reg_openRound r)) key = Inl e" "errors_Is e ErrNotFound"
    "enqueue L w (reg_openRound r) key c = (w', rnd, res)"
    by (auto simp: submit_def split: if_splits option.splits sum.splits)
  from enqueue_safe [OF assms(1,2) this] show ?thesis .
qed

lemma reg_Submit_safe:
  assumes "leveldb_contract (rl_ldb libs) cont path" and "store_inv cont path dbdir w r"
    and "reg_Submit libs now await w r challenge nodeID nonce powParams hint certificate deadline = Ret (w', r', epoch, endTime, err)"
  shows "safe_update cont path dbdir w w' r'"
proof -
  obtain w1 rnd res where s: "submit (rl_ldb libs) w (reg_openRound r) nodeID challenge = (w1, rnd, res)"
    by (metis prod_cases3)
  have "w' = w \<and> r' = r \<or> w' = w1 \<and> r' = r\<lparr>reg_openRound := rnd\<rparr>"
    using assms(3) s
    by (auto simp: reg_Submit_def Let_def split: outcome.splits option.splits if_splits sum.splits waitResult.splits)
  with submit_safe [OF assms(1,2) s] safe_update_refl [OF assms(2)] show ?thesis by auto
qed

lemma LoadTrustedPublicKeys_only_keys:
  assumes "LoadTrustedPublicKeys walk r = Ret (r', err)"
  shows "\<exists>keys. r' = r\<lparr>reg_trustedCertifierKeys := keys\<rparr>"
proof (cases "r' = r")
  case True
  then show ?thesis by (intro exI [of _ "reg_trustedCertifierKeys r"]) simp
next
  case False
  with assms show ?thesis
    by (auto simp: LoadTrustedPublicKeys_def split: option.splits if_splits outcome.splits sum.splits)
qed

lemma rpc_Submit_safe:
  assumes "leveldb_contract (rl_ldb libs) cont path" and "store_inv cont path dbdir w (rs_registration s)"
    and "rpc_Submit libs asTime newDuration now now2 await w s req = Ret (w', s', res)"
  shows "safe_update cont path dbdir w w' (rs_registration s')"
proof (cases "well_formed libs req")
  case True
  with assms(3) obtain r' epoch endTime err where
    "reg_Submit libs now await w (rs_registration s) (in_Challenge req) (in_Pubkey req) (in_Nonce req)
        (powParamsOf req) (in_CertificatePubkeyHint req) (certificateOf req) (deadlineOf asTime req) = Ret (w', r', epoch, endTime, err)"
    "rs_registration s' = r'"
    by (auto simp: rpc_Submit_well_formed split: outcome.splits)
  with reg_Submit_safe [OF assms(1,2)] show ?thesis by blast
next
  case False
  from rpc_Submit_malformed [OF this] assms(3) have "w' = w" "s' = s"
    by (metis Pair_inject outcome.inject(1))+
  with safe_update_refl [OF assms(2)] show ?thesis by simp
qed

lemma request_safe:
  assumes "leveldb_contract (rl_ldb libs) cont path" and "store_inv cont path dbdir w (rs_registration s)"
    and "request_step libs asTime newDuration kind (w, s) (w', s')"
  shows "safe_update cont path dbdir w w' (rs_registration s')"
  using assms(3)
proof cases
  case (submit_request now later await req res)
  from rpc_Submit_safe [OF assms(1,2) submit_request(2)] show ?thesis .
next
  case (reload_request walk res)
  then obtain err where "LoadTrustedPublicKeys walk (rs_registration s) = Ret (rs_registration s', err)"
    by (auto simp: rpc_ReloadTrustedKeys_def split: outcome.splits)
  then obtain keys where "rs_registration s' = (rs_registration s)\<lparr>reg_trustedCertifierKeys := keys\<rparr>"
    using LoadTrustedPublicKeys_only_keys by blast
  with reload_request assms(2) show ?thesis by (simp add: safe_update_def store_inv_def)
next
  case (flush_timer rnd)
  show ?thesis
  proof (cases "r_pendingFlush (reg_openRound (rs_registration s)) = None")
    case True
    with flush_timer assms(2) show ?thesis by (auto simp: timedFlushPendingSubmits_def safe_update_def store_inv_def)
  next
    case False
    with flush_timer have f: "flushPendingSubmitsLocked (rl_ldb libs) w (reg_openRound (rs_registration s)) = (w', rnd)"
      by (simp add: timedFlushPendingSubmits_def)
    have "safe_update cont path dbdir w w' (rs_registration s\<lparr>reg_openRound := rnd\<rparr>)"
      by (rule flush_safe [OF assms(1,2) _ refl refl f]) (use assms(2) in \<open>simp add: store_inv_def\<close>)
    with flush_timer show ?thesis by simp
  qed
qed

text \<open>Looking into the database of another round, and storing a proof.\<close>

lemma store_inv_same:
  assumes "store_inv cont path dbdir w r" and "cont w' = cont w" and "path w' = path w"
  shows "safe_update cont path dbdir w w' r"
  using assms by (simp add: safe_update_def store_inv_def open_stored_def fresh_batch_def grows_same)

lemma recoverExecution_safe:
  assumes "leveldb_contract (rl_ldb libs) cont path" and "store_inv cont path dbdir w r"
    and "recoverExecution libs exec w q r epoch = (w', q', err)"
  shows "safe_update cont path dbdir w w' r"
proof (cases "newRound (rl_ldb libs) w epoch (reg_dbdir r) (newRoundOpts (reg_cfg r) @ [failIfNotExists])")
  case (Pair w1 res)
  show ?thesis
  proof (cases res)
    case (Inl e)
    with Pair assms(3) newRound_failed [OF assms(1)] have "cont w' = cont w \<and> path w' = path w"
      by (fastforce simp: recoverExecution_def)
    with store_inv_same [OF assms(2)] show ?thesis by blast
  next
    case (Inr rnd)
    note n = Pair [unfolded Inr]
    have b: "r_batch rnd = []" by (rule newRound_opened(5) [OF assms(1) n])
    obtain w2 rnd2 root where c: "calcMembershipRoot (rl_ldb libs) (rl_mtree libs) (rl_blake3 libs) w1 rnd = (w2, rnd2, root)"
      by (metis prod_cases3)
    then have idle: "w2 = w1" "r_batch rnd2 = []" "r_db rnd2 = r_db rnd"
      using b by (auto simp: calcMembershipRoot_def flushPendingSubmits_def flushPendingSubmitsLocked_def split: prod.splits)
    have "w' = fst (round_Close (rl_ldb libs) w1 rnd2)"
      using assms(3) n c idle(1) by (auto simp: recoverExecution_def split: sum.splits prod.splits option.splits)
    then obtain rnd3 e where "round_Close (rl_ldb libs) w1 rnd2 = (w', rnd3, e)" by (metis prod_cases3 fst_conv)
    from visit_round [OF assms(1) n idle(2,3) this] store_inv_same [OF assms(2)] show ?thesis by blast
  qed
qed

lemma SaveProof_safe:
  assumes "ldb_put_ok (rl_ldb libs) cont path" and "store_inv cont path dbdir w r"
    and "SaveProof (rl_ldb libs) X w (reg_db r) nip members = (w', err)"
  shows "safe_update cont path dbdir w w' r"
proof (cases "serializeProof X (proofOf (db_pubkey (reg_db r)) nip members)")
  case (Inl e)
  with assms(3) safe_update_refl [OF assms(2)] show ?thesis by (simp add: SaveProof_def Let_def)
next
  case (Inr b)
  let ?pp = "proofsPath dbdir"
  obtain e where p: "ldb_Put (rl_ldb libs) w (db_db (reg_db r)) (str_bytes (epochToRoundId (Epoch nip))) b = (w', e)"
    using assms(3) Inr by (auto simp: SaveProof_def Let_def proofOf_def split: prod.splits option.splits)
  have h: "path w (db_db (reg_db r)) = Some ?pp" using assms(2) by (simp add: store_inv_def)
  then obtain m where m: "cont w ?pp = Some m" using assms(2) unfolding store_inv_def open_stored_def by blast
  have w': "path w' = path w" "cont w' = (cont w)(?pp \<mapsto> m(str_bytes (epochToRoundId (Epoch nip)) \<mapsto> b)) \<or> cont w' = cont w"
    using assms(1) h m p unfolding ldb_put_ok_def by blast+
  have "grows cont ?pp w w'" using w'(2) by (auto simp: grows_def)
  moreover have "open_stored cont path w'" using assms(2) w' by (auto simp: store_inv_def open_stored_def)
  moreover have "cont w' p = cont w p" if "path w (r_db (reg_openRound r)) = Some p" for p
    using that assms(2) w'(2) by (auto simp: store_inv_def)
  then have "fresh_batch cont path w' (reg_openRound r)"
    using assms(2) w'(1) by (simp add: store_inv_def fresh_batch_def)
  ultimately show ?thesis using assms(2) w'(1) by (simp add: safe_update_def store_inv_def)
qed

lemma onNewProof_safe:
  assumes "leveldb_contract (rl_ldb libs) cont path" and "ldb_put_ok (rl_ldb libs) cont path" and "store_inv cont path dbdir w r"
    and "reg_onNewProof libs w r nip = (w', r', err)"
  shows "safe_update cont path dbdir w w' r'"
proof (cases "newRound (rl_ldb libs) w (Epoch nip) (reg_dbdir r) (newRoundOpts (reg_cfg r) @ [failIfNotExists])")
  case (Pair w1 res)
  show ?thesis
  proof (cases res)
    case (Inl e)
    with Pair assms(4) newRound_failed [OF assms(1)] have "cont w' = cont w \<and> path w' = path w" "r' = r"
      by (fastforce simp: reg_onNewProof_def)+
    with store_inv_same [OF assms(3)] show ?thesis by blast
  next
    case (Inr rnd)
    note n = Pair [unfolded Inr]
    obtain w2 rnd2 e where c: "round_Close (rl_ldb libs) w1 rnd = (w2, rnd2, e)" by (metis prod_cases3)
    have "cont w2 = cont w \<and> path w2 = path w"
      by (rule visit_round [OF assms(1) n newRound_opened(5) [OF assms(1) n] refl c])
    then have s2: "safe_update cont path dbdir w w2 r" using store_inv_same [OF assms(3)] by blast
    obtain e3 where s: "SaveProof (rl_ldb libs) (rl_xdr libs) w2 (reg_db r) nip (getMembers (rl_ldb libs) w1 rnd) = (w', e3)"
      using assms(4) n c by (auto simp: reg_onNewProof_def Let_def split: prod.splits option.splits)
    have "safe_update cont path dbdir w2 w' r"
      by (rule SaveProof_safe [OF assms(2) _ s]) (use s2 in \<open>simp add: safe_update_def\<close>)
    moreover have "r' = r \<or> (\<exists>v. r' = r\<lparr>reg_powVerifiers := v\<rparr>)"
      using assms(4) n c by (auto simp: reg_onNewProof_def Let_def split: prod.splits option.splits)
    ultimately show ?thesis using s2 by (auto simp: safe_update_def store_inv_def intro: grows_trans)
  qed
qed

text \<open>Closing the open round: it is flushed and closed, and the next one is opened.\<close>

lemma closeRound_worlds:
  assumes "closeRound libs exec now w q r = Ret (w', q', r', err)"
    and "calcMembershipRoot (rl_ldb libs) (rl_mtree libs) (rl_blake3 libs) w (reg_openRound r) = (w1, rnd1, root)"
    and "round_Close (rl_ldb libs) w1 rnd1 = (w2, rnd2, e2)"
  obtains (no_root) "w' = w1" "r' = r\<lparr>reg_openRound := rnd1\<rparr>"
  | (not_handed_over) "w' = w2" "r' = r\<lparr>reg_openRound := rnd2\<rparr>"
  | (not_reopened) e err' where "newRound (rl_ldb libs) w2 e (reg_dbdir r) (newRoundOpts (reg_cfg r)) = (w', Inl err')"
      "r' = r\<lparr>reg_openRound := rnd2\<rparr>"
  | (reopened) e rnd where "newRound (rl_ldb libs) w2 e (reg_dbdir r) (newRoundOpts (reg_cfg r)) = (w', Inr rnd)"
      "r' = r\<lparr>reg_openRound := rnd\<rparr>"
  using assms
  by (auto simp: closeRound_def openCurrentRound_def Let_def split: sum.splits prod.splits option.splits outcome.splits)

lemma closeRound_safe:
  assumes "leveldb_contract (rl_ldb libs) cont path" and "store_inv cont path dbdir w r"
    and "closeRound libs exec now w q r = Ret (w', q', r', err)"
  shows "safe_update cont path dbdir w w' r'"
proof -
  let ?pp = "proofsPath dbdir"
  obtain w1 rnd1 root where c: "calcMembershipRoot (rl_ldb libs) (rl_mtree libs) (rl_blake3 libs) w (reg_openRound r) = (w1, rnd1, root)"
    by (metis prod_cases3)
  have f: "flushPendingSubmitsLocked (rl_ldb libs) w (reg_openRound r) = (w1, rnd1)"
    using c by (auto simp: calcMembershipRoot_def flushPendingSubmits_def split: prod.splits)
  have s1: "safe_update cont path dbdir w w1 (r\<lparr>reg_openRound := rnd1\<rparr>)"
    by (rule flush_safe [OF assms(1,2) _ refl refl f]) (use assms(2) in \<open>simp add: store_inv_def\<close>)
  obtain w2 rnd2 e2 where cl: "round_Close (rl_ldb libs) w1 rnd1 = (w2, rnd2, e2)" by (metis prod_cases3)
  have st: "open_stored cont path w1" "fresh_batch cont path w1 rnd1" "path w1 (db_db (reg_db r)) = Some ?pp" "db_db (reg_db r) \<noteq> r_db rnd1"
    using s1 handles_differ [of cont path dbdir w1 "r\<lparr>reg_openRound := rnd1\<rparr>"] by (simp_all add: safe_update_def store_inv_def)
  note k = close_store [OF assms(1) st(1,2) cl, of ?pp]
  have g2: "grows cont ?pp w w2" using s1 k by (auto simp: safe_update_def intro: grows_trans)
  have s2: "store_inv cont path dbdir w2 (r\<lparr>reg_openRound := rnd2\<rparr>)"
    by (rule store_inv_openRound [OF assms(2)])
      (use k st(3,4) assms(2) in \<open>simp_all add: fresh_batch_def store_inv_def\<close>)
  from assms(3) c cl show ?thesis
  proof (cases rule: closeRound_worlds)
    case no_root
    with s1 show ?thesis by simp
  next
    case not_handed_over
    with g2 s2 show ?thesis by (simp add: safe_update_def)
  next
    case (not_reopened e err')
    from newRound_failed [OF assms(1) not_reopened(1)] store_inv_same [OF s2] not_reopened(2) g2 show ?thesis
      by (auto simp: safe_update_def intro: grows_trans)
  next
    case (reopened e rnd)
    have st2: "open_stored cont path w2" using k by simp
    note n = newRound_store [OF assms(1) st2 reopened(1), of ?pp] and o = newRound_opened [OF assms(1) reopened(1)]
    have "reg_dbdir r = dbdir" using assms(2) by (simp add: store_inv_def)
    then have "store_inv cont path dbdir w' (r\<lparr>reg_openRound := rnd\<rparr>)"
      by (intro store_inv_openRound [OF assms(2)]) (use n o k st(3,4) assms(2) in \<open>auto simp: store_inv_def\<close>)
    with n g2 reopened(2) show ?thesis by (auto simp: safe_update_def intro: grows_trans)
  qed
qed

section \<open>The running process\<close>

lemma run_step_safe:
  assumes "leveldb_contract (rl_ldb libs) cont path" and "ldb_put_ok (rl_ldb libs) cont path"
    and "store_inv cont path dbdir w (rs_registration s)" and "run_step libs execs recv (w, q, s, ph) (w', q', s', ph')"
  shows "safe_update cont path dbdir w w' (rs_registration s')"
  using assms(4)
proof cases
  case (run_recovered exec)
  from recoverExecution_safe [OF assms(1,3) run_recovered(6)] run_recovered show ?thesis by simp
next
  case (run_unrecovered exec err)
  from recoverExecution_safe [OF assms(1,3) run_unrecovered(6)] run_unrecovered show ?thesis by simp
next
  case (run_timer exec now r' err)
  from closeRound_safe [OF assms(1,3) run_timer(6)] run_timer show ?thesis by simp
next
  case (run_proof nip r' err)
  from onNewProof_safe [OF assms(1-3) run_proof(5)] run_proof show ?thesis by simp
qed (use safe_update_refl [OF assms(3)] in auto)

lemma process_step_safe:
  assumes "leveldb_contract (rl_ldb libs) cont path" and "ldb_put_ok (rl_ldb libs) cont path"
    and "store_inv cont path dbdir (p_db p) (rs_registration (p_front p))"
    and "process_step libs asTime newDuration L tid sv restErr p p'"
  shows "safe_update cont path dbdir (p_db p) (p_db p') (rs_registration (p_front p'))"
  using assms(4)
proof cases
  case by_program
  then show ?thesis
  proof cases
    case (proc_reg w' q' s' ph')
    from run_step_safe [OF assms(1-3) proc_reg(2)] proc_reg(1) show ?thesis by simp
  qed (use safe_update_refl [OF assms(3)] in simp_all)
next
  case by_environment
  then show ?thesis
  proof cases
    case (proc_request kind w' s')
    from request_safe [OF assms(1,3) proc_request(3)] proc_request(1) show ?thesis by simp
  qed (use safe_update_refl [OF assms(3)] in simp_all)
qed

definition process_store_inv ::
  "('w, 'h, 't, 'sw, 'sr) reg_libs \<Rightarrow> 'w ldb_cont \<Rightarrow> ('w, 'h) ldb_path \<Rightarrow> string \<Rightarrow> ('w, 'h, 'fw) process \<Rightarrow> bool" where
  "process_store_inv libs cont path dbdir p \<longleftrightarrow> leveldb_contract (rl_ldb libs) cont path \<and>
     ldb_put_ok (rl_ldb libs) cont path \<and> store_inv cont path dbdir (p_db p) (rs_registration (p_front p))"

interpretation process_store: step_system "process_step libs asTime newDuration L tid sv restErr"
  "process_store_inv libs cont path dbdir"
  for libs asTime newDuration L tid sv restErr cont path dbdir
  by unfold_locales (auto simp: process_store_inv_def safe_update_def dest: process_step_safe)

lemma process_grows:
  assumes "(process_step libs asTime newDuration L tid sv restErr)\<^sup>*\<^sup>* p p'" and "process_store_inv libs cont path dbdir p"
  shows "grows cont (proofsPath dbdir) (p_db p) (p_db p')"
proof (rule process_store.reachable_mono [OF assms])
  fix t t' assume t: "process_store_inv libs cont path dbdir t" "process_step libs asTime newDuration L tid sv restErr t t'"
    "grows cont (proofsPath dbdir) (p_db p) (p_db t)"
  then have "safe_update cont path dbdir (p_db t) (p_db t') (rs_registration (p_front t'))"
    using process_step_safe unfolding process_store_inv_def by blast
  with t(3) show "grows cont (proofsPath dbdir) (p_db p) (p_db t')" by (auto simp: safe_update_def intro: grows_trans)
qed simp

section \<open>The start\<close>

text \<open>Reading or creating the PoW challenge touches the database of proofs only.\<close>

definition only_at :: "'w ldb_cont \<Rightarrow> ('w, 'h) ldb_path \<Rightarrow> string \<Rightarrow> 'w \<Rightarrow> 'w \<Rightarrow> bool" where
  "only_at cont path pp w w' \<longleftrightarrow> path w' = path w \<and> cont w' pp \<noteq> None \<and> (\<forall>p. p \<noteq> pp \<longrightarrow> cont w' p = cont w p)"

lemma only_at_trans: "only_at cont path pp w w' \<Longrightarrow> only_at cont path pp w' w'' \<Longrightarrow> only_at cont path pp w w''"
  by (simp add: only_at_def)

lemma tx_only_at:
  assumes "ldb_tx_contract L cont path tview" and "path w h = Some pp" and "cont w pp \<noteq> None"
  shows "only_at cont path pp w (fst (ldb_OpenTransaction L w h))" and "only_at cont path pp w (fst (ldb_TxPut L w h k v))"
    and "only_at cont path pp w (fst (ldb_TxCommit L w h))" and "only_at cont path pp w (ldb_TxDiscard L w h)"
proof -
  from assms(1) have c: "ldb_tx_open_ok L cont path tview" "ldb_tx_put_ok L cont path tview" "ldb_tx_end_ok L cont path tview"
    by (simp_all add: ldb_tx_contract_def)
  from assms(3) obtain m where m: "cont w pp = Some m" by blast
  obtain w1 r1 where o: "ldb_OpenTransaction L w h = (w1, r1)" by fastforce
  from c(1) [unfolded ldb_tx_open_ok_def, rule_format, OF assms(2) m o] o m
  show "only_at cont path pp w (fst (ldb_OpenTransaction L w h))" by (simp add: only_at_def)
  obtain w2 r2 where p: "ldb_TxPut L w h k v = (w2, r2)" by fastforce
  from assms(2) have "path w h \<noteq> None" by simp
  from c(2) [unfolded ldb_tx_put_ok_def, rule_format, OF this p] p m
  show "only_at cont path pp w (fst (ldb_TxPut L w h k v))" by (simp add: only_at_def)
  obtain w3 r3 where e: "ldb_TxCommit L w h = (w3, r3)" by fastforce
  from c(3) [unfolded ldb_tx_end_ok_def] assms(2) e
  have "path w3 = path w \<and> (cont w3 = (cont w)(pp \<mapsto> tview w h) \<or> r3 \<noteq> None \<and> cont w3 = cont w)" by blast
  with e m show "only_at cont path pp w (fst (ldb_TxCommit L w h))" by (auto simp: only_at_def)
  from c(3) m show "only_at cont path pp w (ldb_TxDiscard L w h)" by (simp add: ldb_tx_end_ok_def only_at_def)
qed

lemma only_at_open: "only_at cont path pp w w' \<Longrightarrow> path w h = Some pp \<Longrightarrow> path w' h = Some pp \<and> cont w' pp \<noteq> None"
  by (simp add: only_at_def)

lemma putChallengeAndCommit_only_at:
  assumes "ldb_tx_contract L cont path tview" and "path w h = Some pp" and "cont w pp \<noteq> None"
  shows "only_at cont path pp w (fst (putChallengeAndCommit L w h c))"
proof (cases "ldb_TxPut L w h powKey c")
  case (Pair w1 r1)
  have 1: "only_at cont path pp w w1" using tx_only_at(2) [OF assms, of powKey c] Pair by simp
  note w1 = only_at_open [OF 1 assms(2)]
  show ?thesis
    using 1 Pair tx_only_at(3,4) [OF assms(1) conjunct1 [OF w1] conjunct2 [OF w1]]
    by (auto simp: putChallengeAndCommit_def intro: only_at_trans split: option.splits)
qed

lemma SavePowChallenge_only_at:
  assumes "ldb_tx_contract L cont path tview" and "path w (db_db d) = Some pp" and "cont w pp \<noteq> None"
  shows "only_at cont path pp w (fst (SavePowChallenge L w d c))"
proof (cases "ldb_OpenTransaction L w (db_db d)")
  case (Pair w1 r1)
  have 1: "only_at cont path pp w w1" using tx_only_at(1) [OF assms] Pair by simp
  note w1 = only_at_open [OF 1 assms(2)]
  note tx = tx_only_at [OF assms(1) conjunct1 [OF w1] conjunct2 [OF w1]]
  have 2: "only_at cont path pp w (fst (ldb_TxPut L w1 (db_db d) powPrevKey cur))" for cur
    using 1 tx(2) by (rule only_at_trans)
  have "only_at cont path pp w (fst (putChallengeAndCommit L w1 (db_db d) c))"
    using 1 putChallengeAndCommit_only_at [OF assms(1) conjunct1 [OF w1] conjunct2 [OF w1]] by (rule only_at_trans)
  moreover have "only_at cont path pp w (fst (putChallengeAndCommit L (fst (ldb_TxPut L w1 (db_db d) powPrevKey cur)) (db_db d) c))" for cur
    using 2 putChallengeAndCommit_only_at [OF assms(1)] only_at_open [OF 2 assms(2)] only_at_trans by meson
  moreover have "only_at cont path pp w (ldb_TxDiscard L w1 (db_db d))" using 1 tx(4) by (rule only_at_trans)
  ultimately show ?thesis
    using 1 Pair by (auto simp: SavePowChallenge_def Let_def split: option.splits sum.splits)
qed

lemma GetPowChallenges_only_at:
  assumes "ldb_tx_contract L cont path tview" and "path w (db_db d) = Some pp" and "cont w pp \<noteq> None"
  shows "only_at cont path pp w (fst (GetPowChallenges L w d))"
proof (cases "ldb_OpenTransaction L w (db_db d)")
  case (Pair w1 r1)
  have 1: "only_at cont path pp w w1" using tx_only_at(1) [OF assms] Pair by simp
  note w1 = only_at_open [OF 1 assms(2)]
  note tx = tx_only_at [OF assms(1) conjunct1 [OF w1] conjunct2 [OF w1]]
  have "only_at cont path pp w (ldb_TxDiscard L w1 (db_db d))" using 1 tx(4) by (rule only_at_trans)
  moreover have "only_at cont path pp w (fst (ldb_TxCommit L w1 (db_db d)))" using 1 tx(3) by (rule only_at_trans)
  ultimately show ?thesis
    using 1 Pair by (auto simp: GetPowChallenges_def Let_def split: option.splits sum.splits)
qed

lemma setupPowProviders_only_at:
  assumes "ldb_tx_contract L cont path tview" and "path w (db_db d) = Some pp" and "cont w pp \<noteq> None"
    and "setupPowProviders L random w d cfg = (w', v)"
  shows "only_at cont path pp w w'"
proof (cases "GetPowChallenges L w d")
  case (Pair w1 res)
  have 1: "only_at cont path pp w w1" using GetPowChallenges_only_at [OF assms(1-3)] Pair by (metis fst_conv)
  note w1 = only_at_open [OF 1 assms(2)]
  have "only_at cont path pp w (fst (SavePowChallenge L w1 d random))"
    using 1 SavePowChallenge_only_at [OF assms(1) conjunct1 [OF w1] conjunct2 [OF w1]] by (rule only_at_trans)
  with 1 assms(4) Pair show ?thesis by (auto simp: setupPowProviders_def split: sum.splits)
qed

text \<open>A new process has no database open; starting it loses nothing and establishes the invariant.\<close>

lemma newWithDatabase_safe:
  assumes "leveldb_contract L cont path" and "open_stored cont path w"
    and "path w (db_db (reg_db r)) = Some (proofsPath (reg_dbdir r))"
    and "newWithDatabase L walk now w r = Ret (w', Inr r')"
  shows "safe_update cont path (reg_dbdir r) w w' r'"
proof -
  obtain keys r1 rnd where l: "loadIfConfigured walk (r\<lparr>reg_trustedCertifierKeys := keys\<rparr>) = Ret (r1, None)"
    and o: "openCurrentRound L now w r1 = Ret (w', Inr rnd)" and r': "r' = withOpenRound r1 rnd"
    using assms(4) by (auto simp: newWithDatabase_def split: outcome.splits prod.splits option.splits sum.splits)
  obtain keys' where r1: "r1 = r\<lparr>reg_trustedCertifierKeys := keys'\<rparr>"
    using l LoadTrustedPublicKeys_only_keys [of walk "r\<lparr>reg_trustedCertifierKeys := keys\<rparr>" r1 None]
    by (auto simp: loadIfConfigured_def split: option.splits if_splits)
  obtain e where n: "newRound L w e (reg_dbdir r) (newRoundOpts (reg_cfg r)) = (w', Inr rnd)"
    using o r1 by (auto simp: openCurrentRound_def split: outcome.splits prod.splits sum.splits)
  note op = newRound_opened [OF assms(1) n] and st = newRound_store [OF assms(1,2) n]
  have "path w' (db_db (reg_db r)) = path w (db_db (reg_db r))" using op(1,2) assms(3) by auto
  with op st assms(3) r1 r' show ?thesis by (simp add: safe_update_def store_inv_def withOpenRound_def)
qed

lemma reg_New_safe:
  assumes "leveldb_contract L cont path" and "ldb_tx_contract L cont path tview" and "\<forall>h. path w h = None"
    and "reg_New L now genKey random walk w genesis dbdir roundCfg cfg privKey None = Ret (w', Inr r)"
  shows "safe_update cont path dbdir w w' r"
proof -
  let ?pp = "proofsPath dbdir"
  obtain pub w1 d w2 v where d: "newDatabase L w ?pp pub = (w1, Inr d)"
    and v: "setupPowProviders L random w1 d cfg = (w2, v)"
    and n: "newWithDatabase L walk now w2 \<lparr>reg_genesis = genesis, reg_cfg = cfg, reg_roundCfg = roundCfg, reg_dbdir = dbdir,
        reg_pubkey = pub, reg_trustedCertifierKeys = Map.empty, reg_db = d, reg_powVerifiers = v\<rparr> = Ret (w', Inr r)"
    using assms(4) by (auto simp: reg_New_def proofsPath_def split: sum.splits prod.splits option.splits)
  have o: "ldb_OpenFile L w ?pp False = (w1, Inr (db_db d))"
    using d by (auto simp: newDatabase_def split: prod.splits sum.splits)
  note op = contract_open_all [OF assms(1) o]
  have 1: "path w1 (db_db d) = Some ?pp" "cont w1 ?pp \<noteq> None" using op(2,3) by simp_all
  have 2: "only_at cont path ?pp w1 w2" by (rule setupPowProviders_only_at [OF assms(2) 1 v])
  have st: "open_stored cont path w2" using 2 op(2) assms(3) by (auto simp: open_stored_def only_at_def split: if_splits)
  have "safe_update cont path dbdir w2 w' r"
    using newWithDatabase_safe [OF assms(1) st _ n] only_at_open [OF 2 1(1)] by simp
  moreover have "grows cont ?pp w w2" using op(3) 2 by (auto simp: grows_def only_at_def)
  ultimately show ?thesis by (auto simp: safe_update_def intro: grows_trans)
qed

lemma server_New_safe:
  assumes "leveldb_contract (se_ldb S) cont path" and "ldb_tx_contract (se_ldb S) cont path tview" and "\<forall>h. path w h = None"
    and "server_New S E fw w cfg = Ret (fw', w', Inr srv)"
  shows "safe_update cont path (DbDir cfg) w w' (srv_reg srv)"
proof -
  obtain pub where "reg_New (se_ldb S) (sn_now E) (Inl ErrEOF) (sn_random E) (sn_walk E) w (Genesis cfg) (DbDir cfg)
      (cfg_Round cfg) (cfg_Registration cfg) (Some pub) None = Ret (w', Inr (srv_reg srv))"
    using assms(4) by (auto simp: server_New_def split: sum.splits prod.splits option.splits outcome.splits)
  from reg_New_safe [OF assms(1-3) this] show ?thesis .
qed

section \<open>Properties\<close>

text \<open>
  C4: Stored challenges are never lost. Whatever the process does after its start, under every
  interleaving of submissions, reloads, flushes, closing and recovery of rounds, proofs, failed writes
  and shutdown, a challenge that was in the database of some round, be it from before the start or
  stored at any moment while the process ran, is still there with the same value at every later moment.
\<close>

theorem stored_challenges_are_never_lost:
  assumes "leveldb_contract (se_ldb S) cont path" and "ldb_tx_contract (se_ldb S) cont path tview"
    and "ldb_put_ok (se_ldb S) cont path" and "rl_ldb libs = se_ldb S" and "\<forall>h. path w h = None"
    and "server_New S E fw w cfg = Ret (fw1, w1, Inr srv)"
    and "(process_step libs asTime newDuration L tid sv restErr)\<^sup>*\<^sup>* (initProcess srv fw2 w1) p"
    and "(process_step libs asTime newDuration L tid sv restErr)\<^sup>*\<^sup>* p p'"
    and "w0 \<in> {w, p_db p}" and "cont w0 (roundPath (DbDir cfg) e) = Some m" and "m k = Some v"
  shows "\<exists>m'. cont (p_db p') (roundPath (DbDir cfg) e) = Some m' \<and> m' k = Some v"
proof -
  let ?pp = "proofsPath (DbDir cfg)" and ?init = "initProcess srv fw2 w1"
  have start: "safe_update cont path (DbDir cfg) w w1 (srv_reg srv)" by (rule server_New_safe [OF assms(1,2,5,6)])
  then have inv: "process_store_inv libs cont path (DbDir cfg) ?init"
    using assms(1,3,4) by (simp add: process_store_inv_def safe_update_def initProcess_def frontEnd_def rpc_NewServer_def)
  have "process_store_inv libs cont path (DbDir cfg) p" by (rule process_store.reachable_inv [OF assms(7) inv])
  from process_grows [OF assms(8) this] have pp': "grows cont ?pp (p_db p) (p_db p')" .
  have "grows cont ?pp w (p_db p)"
    using start process_grows [OF assms(7) inv] by (auto simp: safe_update_def initProcess_def intro: grows_trans)
  with pp' assms(9) have "grows cont ?pp w0 (p_db p')" by (auto intro: grows_trans)
  then obtain m' where "cont (p_db p') (roundPath (DbDir cfg) e) = Some m'" "m \<subseteq>\<^sub>m m'"
    using assms(10) round_not_proofsPath unfolding grows_def by blast
  with assms(11) show ?thesis by (force simp: map_le_def)
qed

abbreviation restart_world :: ldb_world where
  "restart_world \<equiv> demo_world [] [(''n/rounds/7'', [([1], [2])])]"

lemma restart_starts: "did_start (server_New demo_slibs (demo_senv 1) empty_world restart_world mig_cfg)"
  by code_simp

theorem stored_challenges_are_never_lost_witness:
  "\<exists>fw1 w1 srv m'. server_New demo_slibs (demo_senv 1) empty_world restart_world mig_cfg = Ret (fw1, w1, Inr srv) \<and>
     ref_cont w1 ''n/rounds/7'' = Some m' \<and> m' [1] = Some [2]"
proof -
  obtain fw1 w1 srv where n: "server_New demo_slibs (demo_senv 1) empty_world restart_world mig_cfg = Ret (fw1, w1, Inr srv)"
    using startedD [OF restart_starts] by blast
  have L: "leveldb_contract (se_ldb demo_slibs) ref_cont ref_path" "ldb_tx_contract (se_ldb demo_slibs) ref_cont ref_path ref_tview"
    "ldb_put_ok (se_ldb demo_slibs) ref_cont ref_path" "rl_ldb demo_libs = se_ldb demo_slibs"
    by (simp_all add: demo_slibs_def demo_libs_def ref_leveldb_contract ref_ldb_tx ref_ldb_put)
  have h: "\<forall>h. ref_path restart_world h = None" by (simp add: ref_path_def demo_world_def)
  have r: "demo_proc_step\<^sup>*\<^sup>* (initProcess srv demo_files w1) (initProcess srv demo_files w1)" by simp
  have c: "ref_cont restart_world (roundPath (DbDir mig_cfg) 7) = Some [[1] \<mapsto> [2]]"
    by (simp add: demo_dirs ref_cont_def demo_world_def fun_eq_iff)
  have v: "[[1 :: byte] \<mapsto> [2 :: byte]] [1] = Some [2]" by simp
  note t1 = stored_challenges_are_never_lost [OF L h n]
  note t2 = t1 [OF r r]
  note t3 = t2 [OF insertI1 c]
  have "\<exists>m'. ref_cont (p_db (initProcess srv demo_files w1)) (roundPath (DbDir mig_cfg) 7) = Some m' \<and> m' [1] = Some [2]"
    by (rule t3) (rule v)
  with n show ?thesis by (simp add: demo_dirs initProcess_def)
qed

end
