(* ===== verification/Poet.thy ===== *)
theory Poet
  imports Durability
begin

text \<open>
  The program (\<open>poet.go\<close>): configuration, migration, construction of the server, \<open>Start\<close> and closing, and
  the exit status. Command line, configuration file, listeners and \<open>Start\<close> are arguments; what \<open>Start\<close> may
  do is given by the transition system of the running process.
\<close>

section \<open>The program\<close>

text \<open>After \<open>Start\<close> has returned the server is closed; an error of either is reported.\<close>

definition serveAndClose ::
  "('w, 'h, 't, 'sw, 'sr) reg_libs \<Rightarrow> (('h, 'l) Server \<Rightarrow> 'fw \<Rightarrow> 'w \<Rightarrow> 'fw \<times> 'w \<times> ('h, 'l) Server \<times> goerr option) \<Rightarrow>
   ('h, 'l) Server \<Rightarrow> 'fw \<Rightarrow> 'w \<Rightarrow> 'fw \<times> 'w \<times> goerr option" where
  "serveAndClose libs start srv fw w =
     (case start srv fw w of
        (fw, w, srv, Some err) \<Rightarrow>
          (case server_Close libs w srv of
             (w, srv, None) \<Rightarrow> (fw, w, Some (Wrap ''failure in server'' err))
           | (w, srv, Some errClosing) \<Rightarrow> (fw, w, Some (Wrap ''failure in server'' (Join err errClosing))))
      | (fw, w, srv, None) \<Rightarrow>
          (case server_Close libs w srv of
             (w, srv, Some err) \<Rightarrow> (fw, w, Some (Wrap ''failed closing server'' err))
           | (w, srv, None) \<Rightarrow> (fw, w, None)))"

text \<open>
  \<open>listenMetrics\<close> is the error of listening on the port of the metrics endpoint. Profiling has no influence
  on the result: an error of creating or closing the profile only reaches a variable of an inner scope.
\<close>

definition metricsEndpoint :: "(16 word \<Rightarrow> goerr option) \<Rightarrow> server_Config \<Rightarrow> goerr option" where
  "metricsEndpoint listenMetrics cfg = (case MetricsPort cfg of None \<Rightarrow> None | Some port \<Rightarrow> listenMetrics port)"

definition poetMain ::
  "(server_Config \<Rightarrow> string list \<Rightarrow> goerr + server_Config) \<Rightarrow> (string \<Rightarrow> server_Config \<Rightarrow> goerr + server_Config) \<Rightarrow>
   goerr + string \<Rightarrow> gotime \<Rightarrow> string list \<Rightarrow> ('w, 'h) mig_fs \<Rightarrow> (16 word \<Rightarrow> goerr option) \<Rightarrow>
   ('fw, 'w, 'h, 'l) server_libs \<Rightarrow> server_env \<Rightarrow> ('w, 'h, 't, 'sw, 'sr) reg_libs \<Rightarrow>
   (('h, 'l) Server \<Rightarrow> 'fw \<Rightarrow> 'w \<Rightarrow> 'fw \<times> 'w \<times> ('h, 'l) Server \<times> goerr option) \<Rightarrow> 'fw \<Rightarrow> 'w \<Rightarrow>
   ('fw \<times> 'w \<times> goerr option) outcome" where
  "poetMain parseArgs iniParse cacheDir now args F listenMetrics S E libs start fw w =
     (case startupConfig parseArgs iniParse cacheDir now args of
        Inl err \<Rightarrow> Ret (fw, w, Some err)
      | Inr cfg \<Rightarrow>
     (case migrations_Migrate (se_ldb S) F w cfg of
        (w, Some err) \<Rightarrow> Ret (fw, w, Some (Wrap ''migrations failed'' err))
      | (w, None) \<Rightarrow>
     (case metricsEndpoint listenMetrics cfg of
        Some err \<Rightarrow> Ret (fw, w, Some err)
      | None \<Rightarrow>
     (case server_New S E fw w cfg of
        Panic \<Rightarrow> Panic
      | Ret (fw, w, Inl err) \<Rightarrow> Ret (fw, w, Some (Wrap ''failed to create server'' err))
      | Ret (fw, w, Inr srv) \<Rightarrow> Ret (serveAndClose libs start srv fw w)))))"

text \<open>\<open>main\<close>: every error ends the process with status 1; the runtime reports a panic with status 2.\<close>

definition exitStatus :: "('fw \<times> 'w \<times> goerr option) outcome \<Rightarrow> nat" where
  "exitStatus out = (case out of Panic \<Rightarrow> 2 | Ret (_, _, err) \<Rightarrow> if err = None then 0 else 1)"

section \<open>What \<open>Start\<close> may return\<close>

definition startOutcome ::
  "('w, 'h, 't, 'sw, 'sr) reg_libs \<Rightarrow> ('ts \<Rightarrow> gotime) \<Rightarrow> (duration \<Rightarrow> 'd) \<Rightarrow> ('fw, 'l, 'mt, 'rd, 'cw, 'ly) wk_libs \<Rightarrow>
   ('fw \<Rightarrow> string \<Rightarrow> 'fw) \<Rightarrow> goerr option \<Rightarrow> ('h, 'li) Server \<Rightarrow> 'fw \<Rightarrow> 'w \<Rightarrow> ('w, 'h, 'fw) process \<Rightarrow>
   'fw \<times> 'w \<times> ('h, 'li) Server \<times> goerr option \<Rightarrow> bool" where
  "startOutcome libs asTime newDuration L tid restErr srv fw w p out \<longleftrightarrow>
     (process_step libs asTime newDuration L tid (srv_worker srv) restErr)\<^sup>*\<^sup>* (initProcess srv fw w) p \<and>
     (\<exists>res. p_main p = Returned res \<and> out = (p_files p, p_db p, srv\<lparr>srv_reg := rs_registration (p_front p)\<rparr>, res))"

lemma startOutcome_result:
  assumes "startOutcome libs asTime newDuration L tid restErr srv fw w p (fw', w', srv', res)"
  shows "res = None \<or> res = restErr"
proof -
  from assms have "proc_inv (srv_worker srv) restErr p" and "p_main p = Returned res"
    using process.reachable_inv [OF _ proc_inv_init] by (auto simp: startOutcome_def)
  then show ?thesis by (auto simp: proc_inv_def stage_ok_def split: if_splits)
qed

lemma poetMain_started:
  assumes "startupConfig parseArgs iniParse cacheDir now args = Inr cfg"
    and "migrations_Migrate (se_ldb S) F w cfg = (w1, None)"
    and "metricsEndpoint listenMetrics cfg = None"
    and "server_New S E fw w1 cfg = Ret (fw2, w2, Inr srv)"
  shows "poetMain parseArgs iniParse cacheDir now args F listenMetrics S E libs start fw w = Ret (serveAndClose libs start srv fw2 w2)"
  using assms by (auto simp: poetMain_def split: option.splits)

section \<open>Properties\<close>

text \<open>
  C40: The exit status does not tell that a service failed. Let configuration, migration, metrics
  endpoint and construction of the server succeed and the REST proxy be registered. Then, however the
  process ran until \<open>Start\<close> returned, also when the registration service, the worker or a network server
  ended with an error and thereby stopped all others, the program exits with status 0, provided that
  the databases can be closed.
\<close>

theorem failed_service_exits_zero:
  assumes "startupConfig parseArgs iniParse cacheDir now args = Inr cfg"
    and "migrations_Migrate (se_ldb S) F w cfg = (w1, None)"
    and "metricsEndpoint listenMetrics cfg = None"
    and "server_New S E fw w1 cfg = Ret (fw2, w2, Inr srv)"
    and "startOutcome libs asTime newDuration L tid None srv fw2 w2 p (start srv fw2 w2)"
    and "snd (snd (server_Close libs (p_db p) (srv\<lparr>srv_reg := rs_registration (p_front p)\<rparr>))) = None"
  shows "exitStatus (poetMain parseArgs iniParse cacheDir now args F listenMetrics S E libs start fw w) = 0"
proof -
  obtain res where s: "start srv fw2 w2 = (p_files p, p_db p, srv\<lparr>srv_reg := rs_registration (p_front p)\<rparr>, res)"
    using assms(5) by (auto simp: startOutcome_def)
  with assms(5) startOutcome_result have "res = None" by fastforce
  moreover obtain w3 srv3 where "server_Close libs (p_db p) (srv\<lparr>srv_reg := rs_registration (p_front p)\<rparr>) = (w3, srv3, None)"
    using assms(6) by (metis prod.collapse)
  ultimately show ?thesis
    using s by (simp add: poetMain_started [OF assms(1-4)] serveAndClose_def exitStatus_def)
qed

section \<open>A concrete run\<close>

text \<open>A server without worker; after the start the public gRPC server fails.\<close>

definition run_cfg :: server_Config where
  "run_cfg = mig_cfg\<lparr>DisableWorker := True\<rparr>"

definition run_slibs :: "(Worker_Round.demo_world, ldb_world, nat, string) server_libs" where
  "run_slibs = \<lparr>se_resolve = Inr, se_listen = Inr, se_os = lift_os ref_os, se_stat = (\<lambda>fw p. Some ErrNotExist), se_codec = key_codec,
     se_ldb = ref_ldb, se_seconds = (\<lambda>d. 20), se_rootHeight = (\<lambda>n. 10)\<rparr>"

definition run_start :: "(Worker_Round.demo_world \<times> ldb_world \<times> (goerr + (nat, string) Server)) outcome" where
  "run_start = server_New run_slibs (demo_senv 1) demo_files (Reg_Round.demo_world [] []) run_cfg"

lemma run_started:
  "case run_start of Ret (fw, w, Inr srv) \<Rightarrow> srv_worker srv = DisabledWorker \<and>
      recoverExecution demo_libs e2e_exec w NewInMemory (srv_reg srv) (OpenRound (srv_reg srv) - 1) = (w, NewInMemory, None) \<and>
      OpenRound (srv_reg srv) \<noteq> 0 \<and> snd (snd (server_Close demo_libs w srv)) = None
    | _ \<Rightarrow> False"
  by code_simp

abbreviation run_step_of ::
  "(ldb_world, nat, Worker_Round.demo_world) process \<Rightarrow> (ldb_world, nat, Worker_Round.demo_world) process \<Rightarrow> bool" where
  "run_step_of \<equiv> process_step demo_libs (\<lambda>t. t) (\<lambda>d. d) (demo_worker []) (\<lambda>w f. w) DisabledWorker None"

definition run_failing :: "(nat, string) Server \<Rightarrow> Worker_Round.demo_world \<Rightarrow> ldb_world \<Rightarrow> (ldb_world, nat, Worker_Round.demo_world) process" where
  "run_failing srv fw w = (initProcess srv fw w)\<lparr>p_serve := (\<lambda>_. Listening)(Grpc := Left), p_main := Waiting, p_reg := Running,
     p_worker := WServing, p_err := Some (Opaque ''accept''), p_cancelled := True\<rparr>"

lemma run_failing_reached:
  assumes "OpenRound (srv_reg srv) \<noteq> 0"
    and "recoverExecution demo_libs e2e_exec w NewInMemory (srv_reg srv) (OpenRound (srv_reg srv) - 1) = (w, NewInMemory, None)"
  shows "run_step_of\<^sup>*\<^sup>* (initProcess srv fw w) (run_failing srv fw w)"
proof -
  let ?p0 = "initProcess srv fw w"
  let ?p1 = "?p0\<lparr>p_serve := (p_serve ?p0)(Rest := Listening), p_main := Waiting\<rparr>"
  let ?p2 = "groupReturn (regResult Running) (?p1\<lparr>p_db := w, p_transport := NewInMemory, p_front := p_front ?p1, p_reg := Running\<rparr>)"
  let ?p3 = "groupReturn (workResult WServing) (?p2\<lparr>p_files := fw, p_transport := NewInMemory, p_worker := WServing\<rparr>)"
  let ?p4 = "groupReturn (serveResult Grpc (Some (Opaque ''accept''))) (?p3\<lparr>p_serve := (p_serve ?p3)(Grpc := Left)\<rparr>)"
  have s1: "run_step_of ?p0 ?p1" by (intro by_program proc_launched) (simp_all add: initProcess_def)
  have s2: "run_step_of ?p1 ?p2"
  proof (intro by_program proc_reg)
    have "allowed_exec (\<lambda>q. ExecuteRound q False) e2e_exec" by (simp add: allowed_exec_def e2e_exec_allowed)
    from run_recovered [OF _ this, of "frontEnd srv" demo_libs w NewInMemory w NewInMemory] assms
    show "run_step demo_libs (\<lambda>q. ExecuteRound q (p_cancelled ?p1)) recvProof
      (p_db ?p1, p_transport ?p1, p_front ?p1, p_reg ?p1) (w, NewInMemory, p_front ?p1, Running)"
      by (simp add: initProcess_def frontEnd_def rpc_NewServer_def)
  qed simp
  have s3: "run_step_of ?p2 ?p3" by (intro by_program proc_worker) (simp add: initProcess_def dw_started)
  have s4: "run_step_of ?p3 ?p4" by (intro by_environment proc_serve_failed) (simp add: initProcess_def)
  have eq: "?p4 = run_failing srv fw w"
    by (simp add: run_failing_def initProcess_def groupReturn_def regResult_def workResult_def serveResult_def fun_eq_iff)
  have "run_step_of\<^sup>*\<^sup>* ?p0 ?p1" using s1 by (rule r_into_rtranclp)
  then have "run_step_of\<^sup>*\<^sup>* ?p0 ?p2" using s2 by (rule rtranclp.rtrancl_into_rtrancl)
  then have "run_step_of\<^sup>*\<^sup>* ?p0 ?p3" using s3 by (rule rtranclp.rtrancl_into_rtrancl)
  then have "run_step_of\<^sup>*\<^sup>* ?p0 ?p4" using s4 by (rule rtranclp.rtrancl_into_rtrancl)
  then show ?thesis unfolding eq .
qed

lemma run_failing_returns:
  assumes "run_step_of\<^sup>*\<^sup>* (initProcess srv fw w) (run_failing srv fw w)"
  shows "\<exists>p. run_step_of\<^sup>*\<^sup>* (initProcess srv fw w) p \<and> later (run_failing srv fw w) p \<and> p_main p = Returned None"
proof -
  have "start_returns (program_step demo_libs (demo_worker []) (\<lambda>w f. w) DisabledWorker None) (run_failing srv fw w)"
    by (rule shutdown_run [OF process.reachable_inv [OF assms proc_inv_init]])
      (simp_all add: run_failing_def worker_stoppable_def)
  then obtain p where p: "(program_step demo_libs (demo_worker []) (\<lambda>w f. w) DisabledWorker None)\<^sup>*\<^sup>* (run_failing srv fw w) p"
    "later (run_failing srv fw w) p" "p_main p = Returned None" unfolding start_returns_def by blast
  with rtranclp_trans [OF assms program_run [OF p(1)]] show ?thesis by blast
qed

definition run_fs :: "(ldb_world, nat) mig_fs" where
  "run_fs = ref_fs\<lparr>fs_ReadDir := (\<lambda>w p. Inr [])\<rparr>"

abbreviation run_poet ::
  "((nat, string) Server \<Rightarrow> Worker_Round.demo_world \<Rightarrow> ldb_world \<Rightarrow> Worker_Round.demo_world \<times> ldb_world \<times> (nat, string) Server \<times> goerr option) \<Rightarrow>
   (Worker_Round.demo_world \<times> ldb_world \<times> goerr option) outcome" where
  "run_poet start \<equiv> poetMain (\<lambda>c a. Inr run_cfg) (\<lambda>f c. Inr run_cfg) (Inr ''/c'') 0 [] run_fs (\<lambda>_. None)
     run_slibs (demo_senv 1) demo_libs start demo_files (Reg_Round.demo_world [] [])"

lemma run_migrated: "migrations_Migrate ref_ldb run_fs (Reg_Round.demo_world [] []) run_cfg = (Reg_Round.demo_world [] [], None)"
  by code_simp

theorem failed_service_exits_zero_witness:
  "\<exists>fw w srv p start. run_start = Ret (fw, w, Inr srv) \<and> run_step_of\<^sup>*\<^sup>* (initProcess srv fw w) p \<and>
     p_err p = Some (Opaque ''accept'') \<and> p_main p = Returned None \<and>
     start srv fw w = (p_files p, p_db p, srv\<lparr>srv_reg := rs_registration (p_front p)\<rparr>, None) \<and> exitStatus (run_poet start) = 0"
proof -
  obtain fw w res where r: "run_start = Ret (fw, w, res)" using run_started by (cases run_start) auto
  obtain srv where res: "res = Inr srv" using run_started [unfolded r] by (cases res) simp_all
  note n = r [unfolded run_start_def res]
  have srv: "srv_worker srv = DisabledWorker" "OpenRound (srv_reg srv) \<noteq> 0"
      "recoverExecution demo_libs e2e_exec w NewInMemory (srv_reg srv) (OpenRound (srv_reg srv) - 1) = (w, NewInMemory, None)"
      "snd (snd (server_Close demo_libs w srv)) = None"
    using run_started by (simp_all add: r res)
  obtain p where p: "run_step_of\<^sup>*\<^sup>* (initProcess srv fw w) p" "later (run_failing srv fw w) p" "p_main p = Returned None"
    using run_failing_returns [OF run_failing_reached [OF srv(2,3)]] by blast
  define start where "start = (\<lambda>(s :: (nat, string) Server) (f :: Worker_Round.demo_world) (v :: ldb_world).
    (p_files p, p_db p, srv\<lparr>srv_reg := rs_registration (p_front p)\<rparr>, None :: goerr option))"
  have o: "startOutcome demo_libs (\<lambda>t. t) (\<lambda>d. d) (demo_worker []) (\<lambda>w f. w) None srv fw w p (start srv fw w)"
    using p(1,3) srv(1) by (simp add: startOutcome_def start_def)
  have "p_db p = w" "rs_registration (p_front p) = srv_reg srv" and err: "p_err p = Some (Opaque ''accept'')"
    using p(2) by (simp_all add: later_simps run_failing_def initProcess_def frontEnd_def rpc_NewServer_def)
  then have cl: "snd (snd (server_Close demo_libs (p_db p) (srv\<lparr>srv_reg := rs_registration (p_front p)\<rparr>))) = None" using srv(4) by simp
  have c: "startupConfig (\<lambda>c a. Inr run_cfg) (\<lambda>f c. Inr run_cfg) (Inr ''/c'') 0 [] = Inr run_cfg"
    by (simp add: startupConfig_def ParseFlags_def ReadConfigFile_def split: if_splits)
  have m: "migrations_Migrate (se_ldb run_slibs) run_fs (Reg_Round.demo_world [] []) run_cfg = (Reg_Round.demo_world [] [], None)"
    using run_migrated by (simp add: run_slibs_def)
  have e: "metricsEndpoint (\<lambda>_. None) run_cfg = None" by (simp add: metricsEndpoint_def split: option.split)
  note z = failed_service_exits_zero [where start = start, OF c m e n o cl]
  show ?thesis
    by (intro exI [of _ fw] exI [of _ w] exI [of _ srv] exI [of _ p] exI [of _ start]) (simp add: r res p(1,3) err z, simp add: start_def)
qed

end
