(* ===== verification/Bench.thy ===== *)
theory Bench
  imports Worker_Round Reg_DB
begin

text \<open>
  The benchmark command (\<open>cmd/bench\<close>): it generates one proof without persisting anything and verifies
  it. Files, profiles, clocks and go-flags are parameters.
\<close>

section \<open>Configuration\<close>

definition bench_defaultDuration :: duration where
  "bench_defaultDuration = duration_ns (10 * 1000000000)"

record bench_config =
  bc_Duration :: duration
  bc_CpuProfile :: "string option"
  bc_Memprofile :: "string option"

definition bench_loadConfig :: "(bench_config \<Rightarrow> goerr + bench_config) \<Rightarrow> goerr + bench_config" where
  "bench_loadConfig parseFlags =
     parseFlags \<lparr>bc_Duration = bench_defaultDuration, bc_CpuProfile = None, bc_Memprofile = None\<rparr>"

section \<open>The command\<close>

text \<open>How the process ends: with an exit status, in a panic, or after the report of leaves, rate and root.\<close>

datatype bench_result = Exited nat | Panicked string | Reported u64 u64 bytes

text \<open>
  \<open>osCreate\<close> is the error of creating a file, \<open>startCPU\<close> and \<open>writeHeap\<close> those of the two profiles (\<open>log.Fatal\<close>
  ends the process with status 1). \<open>sel e\<close> is what the work loop sees when the deadline is \<open>e\<close>,
  \<open>seconds\<close> the number \<open>uint64(proofGenDuration.Seconds())\<close> of whole seconds that generating took; an
  integer division by zero panics.
\<close>

definition profileFails :: "(string \<Rightarrow> goerr option) \<Rightarrow> goerr option \<Rightarrow> string option \<Rightarrow> bool" where
  "profileFails osCreate profile path =
     (case path of None \<Rightarrow> False | Some f \<Rightarrow> osCreate f \<noteq> None \<or> profile \<noteq> None)"

definition benchChallenge :: bytes where
  "benchChallenge = str_bytes ''1234567890abcdefghij''"

definition benchProof ::
  "sha256_api \<Rightarrow> ('t, 'rd) merkle_api \<Rightarrow> goerr + dir_entry list \<Rightarrow> (gotime \<Rightarrow> nat \<Rightarrow> tick) \<Rightarrow> string \<Rightarrow> gotime \<Rightarrow>
   bench_config \<Rightarrow> (goerr \<times> u64 + u64 \<times> MerkleProof) option" where
  "benchProof S M readDir sel tempdir proofGenStarted cfg =
     GenerateProofWithoutPersistency S M \<lparr>MinMemoryLayer = 0, Datadir = tempdir, FileWriterBufSize = 0\<rparr> readDir
       (labelHashFuncOf S benchChallenge) (merkleHashFuncOf S benchChallenge)
       (sel (proofGenStarted + sint (bc_Duration cfg))) ErrCanceled T"

definition benchVerify ::
  "sha256_api \<Rightarrow> ('t, 'rd) merkle_api \<Rightarrow> u64 \<Rightarrow> u64 \<Rightarrow> MerkleProof \<Rightarrow> bench_result option" where
  "benchVerify S M seconds leafs merkleProof =
     (if seconds = 0 then Some (Panicked ''integer divide by zero'')
      else map_option (\<lambda>v. case v of
               Ret None \<Rightarrow> Reported leafs (leafs div seconds) (Root merkleProof)
             | Ret (Some err) \<Rightarrow> Panicked ''Failed to verify nip''
             | Panic \<Rightarrow> Panicked ''index out of range'')
             (Validate S M merkleProof (labelHashFuncOf S benchChallenge) (merkleHashFuncOf S benchChallenge) leafs T))"

definition bench_main ::
  "sha256_api \<Rightarrow> ('t, 'rd) merkle_api \<Rightarrow> (bench_config \<Rightarrow> goerr + bench_config) \<Rightarrow> (string \<Rightarrow> goerr option) \<Rightarrow>
   goerr option \<Rightarrow> goerr option \<Rightarrow> goerr + dir_entry list \<Rightarrow> (gotime \<Rightarrow> nat \<Rightarrow> tick) \<Rightarrow> string \<Rightarrow> gotime \<Rightarrow> u64 \<Rightarrow>
   bench_result option" where
  "bench_main S M parseFlags osCreate startCPU writeHeap readDir sel tempdir proofGenStarted seconds =
     (case bench_loadConfig parseFlags of
        Inl err \<Rightarrow> Some (Exited 1)
      | Inr cfg \<Rightarrow>
          if profileFails osCreate startCPU (bc_CpuProfile cfg) then Some (Exited 1)
          else (case benchProof S M readDir sel tempdir proofGenStarted cfg of
              None \<Rightarrow> None
            | Some (Inl err) \<Rightarrow> Some (Panicked ''failed to generate proof'')
            | Some (Inr (leafs, merkleProof)) \<Rightarrow>
                if profileFails osCreate writeHeap (bc_Memprofile cfg) then Some (Exited 1)
                else benchVerify S M seconds leafs merkleProof))"

section \<open>Lemmas\<close>

lemma benchProof_valid:
  assumes "merkle_contract M (merkleHashFuncOf S benchChallenge) leaves rleaves park"
    and "benchProof S M readDir sel tempdir start cfg = Some (Inr (leafs, pf))"
  shows "Validate S M pf (labelHashFuncOf S benchChallenge) (merkleHashFuncOf S benchChallenge) leafs T = Some (Ret None)"
proof -
  have "persist_keeps leaves (\<lambda>tree (st :: unit) _. (tree, st, None))" by (simp add: persist_keeps_def)
  moreover have "0 < T" by (simp add: T_def)
  ultimately show ?thesis
    using assms(2) GenerateProof_valid [OF assms(1)]
    unfolding benchProof_def GenerateProofWithoutPersistency_def by fastforce
qed

text \<open>
  The benchmark never reports a proof that does not verify, nor does verifying fail: a generated
  proof is either reported with the leaf count it verifies for, or lost to a profile that cannot be
  written or to the division by the elapsed seconds, which panics for a run shorter than a second.
\<close>

lemma bench_reports_verified_proof:
  assumes "merkle_contract M (merkleHashFuncOf S benchChallenge) leaves rleaves park"
    and "bench_loadConfig parseFlags = Inr cfg" and "\<not> profileFails osCreate startCPU (bc_CpuProfile cfg)"
    and "benchProof S M readDir sel tempdir start cfg = Some (Inr (leafs, pf))"
  shows "bench_main S M parseFlags osCreate startCPU writeHeap readDir sel tempdir start seconds =
    Some (if profileFails osCreate writeHeap (bc_Memprofile cfg) then Exited 1
      else if seconds = 0 then Panicked ''integer divide by zero''
      else Reported leafs (leafs div seconds) (Root pf))"
  using benchProof_valid [OF assms(1,4)] assms(2-4) by (simp add: bench_main_def benchVerify_def)

text \<open>
  With a library that does not fail, a temporary directory without layer files and a deadline that
  passes, the benchmark generates a proof.
\<close>

lemma benchProof_returns:
  assumes "library_undisturbed M" and "\<forall>e k. sel e k \<noteq> Cancelled" and "\<forall>e. \<forall>k \<ge> K e. sel e k = Stopped"
    and "selection_returns S T" and "getLayersFiles readDir = Inr Map.empty"
  shows "\<exists>leafs pf. benchProof S M readDir sel tempdir start cfg = Some (Inr (leafs, pf))"
proof -
  let ?e = "start + sint (bc_Duration cfg)"
  have "\<exists>st' n pf. GenerateProof S M \<lparr>MinMemoryLayer = 0, Datadir = tempdir, FileWriterBufSize = 0\<rparr> readDir
      (labelHashFuncOf S benchChallenge) (merkleHashFuncOf S benchChallenge) (sel ?e) ErrCanceled T
      (\<lambda>tree (st :: unit) _. (tree, st, None)) () = Some (st', Inr (n, pf))"
    by (rule GenerateProof_returns [where K = "K ?e"]) (use assms in simp_all)
  then show ?thesis unfolding benchProof_def GenerateProofWithoutPersistency_def by fastforce
qed

end
