(* ===== verification/Spec2Isabelle.thy ===== *)
theory Spec2Isabelle
  imports Poet Bench
begin

text \<open>
  \<^bold>\<open>A verification library for poet\<close>, the Spacemesh service that produces proofs of elapsed time.

  \<^bold>\<open>The program.\<close> Clients register a challenge with the \<^emph>\<open>registration service\<close>
  (\<open>registration/\<close>) through the gRPC front end (\<open>rpc/\<close>). A challenge is admitted with a certificate
  (\<open>shared/cert.go\<close>) or a proof of work (\<open>shared/pow.go\<close>, \<open>registration/pow_verifier.go\<close>) and is stored
  in the database of the open round. When the round starts (\<open>server/config.go\<close> has the schedule) the
  service closes it, computes the Merkle root of its challenges and hands it through an in-memory
  transport (\<open>transport/\<close>) to the \<^emph>\<open>worker\<close> (\<open>service/\<close>). The worker runs the \<^emph>\<open>prover\<close>
  (\<open>prover/\<close>), which labels the leaves of a Merkle tree by sequential hashing until the end of the round
  and then opens leaves selected by Fiat and Shamir's method (\<open>shared/shared.go\<close>). The proof goes back
  to the registration service, which stores it with the members of the round and serves it to clients,
  who check it with the \<^emph>\<open>verifier\<close> (\<open>verifier/\<close>). \<open>state/\<close> and \<open>server/state.go\<close> keep state files,
  \<open>db/\<close> and \<open>migrations/\<close> move old databases, \<open>server/\<close> and \<open>poet.go\<close> put everything together.

  \<^bold>\<open>The theories.\<close>
  \<^item> \<open>Prelude\<close>: machine types, errors as values (\<open>goerr\<close>, \<open>errors.Is\<close>), panics (\<open>outcome\<close>), byte
    encodings, closures with hidden state, and the locales \<open>go_closure\<close> (a closure computes a pure
    function), \<open>step_system\<close> (invariants of a step relation) and \<open>op_refinement\<close> (operations that refine a
    specification). \<open>Strconv\<close>, \<open>Paths\<close>, \<open>Os\<close>, \<open>Leveldb\<close>, \<open>Codec\<close>, \<open>Merkle\<close>: what the program uses of
    \<open>strconv\<close>, \<open>path/filepath\<close>, \<open>os\<close>, and the packages goleveldb, go-scale and merkle-tree.
  \<^item> \<open>Hash\<close> (\<open>hash/hash.go\<close>), \<open>Shared\<close> (\<open>shared/shared.go\<close>), \<open>Verifier\<close> (\<open>verifier/verifier.go\<close>),
    \<open>Prover\<close> and \<open>Prover_Recovery\<close> (\<open>prover/\<close>): hash closures, index selection, labels, the work loop,
    fresh and recovered proofs, validation.
  \<^item> \<open>Pow\<close>, \<open>Cert\<close>, \<open>Schedule\<close>: proof of work, certificates, the round schedule.
  \<^item> \<open>Reg_Round\<close> (\<open>registration/round.go\<close>) with its specification in \<open>Reg_Refine\<close>, \<open>Reg_DB\<close>
    (\<open>registration/db.go\<close>), \<open>Reg_Service\<close> (\<open>registration/registration.go\<close>), \<open>Rpc\<close> (\<open>rpc/rpcserver.go\<close>),
    \<open>Reg_Run\<close> (\<open>Registration.Run\<close> with requests and timers as a step relation).
  \<^item> \<open>Transport\<close> (\<open>transport/memory.go\<close>), \<open>State\<close> (\<open>state/state.go\<close>, \<open>server/state.go\<close>), \<open>Worker_Round\<close>
    (\<open>service/round.go\<close>), \<open>Worker\<close> (\<open>service/service.go\<close>, \<open>service/disabled_service.go\<close>).
  \<^item> \<open>Config\<close> (\<open>server/config.go\<close>), \<open>Migrate\<close> (\<open>db/migrate.go\<close>, \<open>migrations/\<close>), \<open>Server\<close>
    (construction in \<open>server/server.go\<close>), \<open>End_To_End\<close> (lemmas that connect the components), \<open>Bench\<close>
    (\<open>cmd/bench\<close>: generating and verifying one proof).
  \<^item> \<open>Process\<close>: \<open>Server.Start\<close> as a transition system in which the registration loop, the requests, the
    worker, the three network servers and the starting goroutine interleave (\<open>process_step\<close>, the union of
    what the program does, \<open>program_step\<close>, and what happens to it, \<open>environment_step\<close>), with the order of
    shutdown and its completion by steps of the program alone; \<open>Durability\<close>: what this system does to the databases; \<open>Poet\<close> (\<open>poet.go\<close>): the program
    and its exit status.

  \<^bold>\<open>How code becomes definitions.\<close> A struct is a record, a method a function that takes and returns the
  state it changes, an error result a value of \<open>goerr option\<close> or \<open>goerr + 'a\<close>, a panic \<open>Panic\<close>.
  Integers keep their width (\<open>word\<close>), so that conversions and overflow are those of the program;
  durations wrap and \<open>Time.Sub\<close> saturates. The exception are the counters of a round (\<open>members\<close>,
  \<open>maxMembers\<close>, \<open>maxBatchSize\<close>, Go's \<open>int\<close>), which are unbounded: they count entries in memory and stay far
  below the limit. A method that holds the mutex of its object is one atomic
  step; goroutines are step relations whose steps come in any order (\<open>round_step\<close>, \<open>server_step\<close>,
  \<open>worker_step\<close>, \<open>process_step\<close>), and a \<open>select\<close> is the set of its possible outcomes. Code outside the repository
  (SHA-256, BLAKE3, RIPEMD, ed25519, goleveldb, go-scale, XDR, merkle-tree, the file system) is a record
  of operations that the definitions take as argument; the predicates \<open>*_ok\<close> and \<open>*_contract\<close> state the
  documented behaviour the code relies on, and for each of them a reference instance is shown to have it
  (\<open>ref_ldb\<close>, \<open>ref_os\<close>, \<open>ref_merkle\<close>, \<open>ref_mtree\<close>), which the concrete runs use.

  \<^bold>\<open>Loops.\<close> Loops over data are structural recursion. The nonce search, the Fiat-Shamir loop and the work
  loop may run forever: they are \<open>while_option\<close> or \<open>partial_function (option)\<close>, where not returning is
  \<open>None\<close>; that they return is proved (\<open>fiat_shamir_terminates_iff\<close>, \<open>sequential_work_returns\<close>,
  \<open>undisturbed_round_is_published\<close>). There is no fuel.

  \<^bold>\<open>What the lemmas show.\<close> Proofs: what the prover returns, fresh or recovered, is accepted by the
  verifier, and what the verifier accepts opens correctly computed leaves at the selected indices;
  closures with reused buffers compute pure functions; encodings are inverse to decodings. Registration:
  a confirmed challenge is stored and stays stored, the membership root commits to exactly the stored
  challenges, the round refines a bounded map, requests cannot bring the service down, and refused ones
  leave no trace. Worker: published proofs are valid for the executed round, and state survives
  restarts. Databases: migration loses nothing as long as the old database can be read. The process: no
  interleaving loses a stored challenge, no request makes it panic, \<open>Start\<close> returns last, and
  once the context is cancelled the program's own steps lead to its return. Errors that the code does not handle are stated too (\<open>failed_flush_consumes_places\<close>,
  \<open>failed_close_hands_over_empty_root\<close>, \<open>pow_rotation_is_not_persisted\<close>, \<open>unpublished_proof_is_deleted\<close>,
  \<open>read_error_loses_entries\<close>, \<open>round_closed_behind_worker_is_lost\<close>, \<open>failed_start_leaves_goroutines\<close>,
  \<open>failed_service_exits_zero\<close>, \<open>unchecked_certifier_key_crashes\<close>). The property of this theory follows one challenge through all components.

  \<^bold>\<open>Not modelled.\<close> The insides of the gRPC and HTTP packages (\<open>Process\<close> has what is documented of \<open>Serve\<close>,
  \<open>GracefulStop\<close> and \<open>Shutdown\<close>), metrics, logging (\<open>logging/\<close>) and profiling, which are pure output, the
  parsing of the genesis time for go-flags, the system call for the thread id file (\<open>service/tid\<close>), the
  generated protobuf and gateway code (\<open>release/proto\<close>) and mocks. Between the check of a request's
  certificate and the submission to the round other steps may happen in the program; the model has both
  in one step. The wait of a submission for its result is folded into the step too: its outcome is the
  parameter \<open>await\<close>, which \<open>rpc_submit_success_means_registered\<close> ties to the channel in the later state of
  the round in which the request is answered. The teardown of a round, a goroutine of its own that the
  worker waits for before it ends, is part of the worker's step, and the version flag is left out.
\<close>

section \<open>From a challenge to a valid proof\<close>

text \<open>
  C1: A registered challenge ends up in a valid proof. Let a submission to a round have been answered
  with \<open>nil\<close>. When the round is closed and handed through the transport to the worker, the worker handles
  it and publishes a proof through the transport, and the registration service stores what it receives,
  then a client that asks for the proof of the round gets one whose members contain the submitted
  challenge, and \<open>Validate\<close> accepts the proof for the hash functions derived from the Merkle root of
  exactly these members, with the leaf count in the response and the security parameter \<open>T\<close>.
\<close>

theorem accepted_challenge_gets_valid_proof:
  assumes "leveldb_contract (rl_ldb libs) cont path" and "ldb_put_ok (rl_ldb libs) cont path"
    and "iter_ok (rl_ldb libs) path" and "xdr_ok (rl_xdr libs)"
    and "mtree_ok (rl_mtree libs) (HashMembershipTreeNode (rl_blake3 libs)) leaves rootf"
    and "os_contract (wl_os L) file"
    and "newRound (rl_ldb libs) w0 e (reg_dbdir r) opts = (w1, Inr r0)"
    and "(round_step (rl_ldb libs) cont path (roundPath (reg_dbdir r) e))\<^sup>*\<^sup>* (w1, r0, []) (w, reg_openRound r, subs)"
    and "path w (r_db (reg_openRound r)) = Some (roundPath (reg_dbdir r) e)"
    and "c < length subs" and "r_chans (reg_openRound r) ! c = settled_chan None"
    and "m_closedRounds q = []" and "m_proofs q = []"
    and "\<forall>q e root. exec q e root \<in> ExecuteRound q False e root"
    and "closeRound libs exec now w q r = Ret (w2, q2, r2, None)"
    and "(q3, cr) \<in> recvRoundClosed q2"
    and "file fw (stateFile (freshRound (roundsDir s) (cr_Epoch cr))) = None"
    and "merkle_contract (wl_mk L) (merkleHashFuncOf (wl_sha L) (cr_MembershipRoot cr)) mleaves rleaves park"
    and "\<forall>p. en_publish E q3 p \<in> transport_NewProof q3 False p"
    and "handleClosedRound E L s now' begun fw q3 cr = Some (Ret (fw', q4, st))"
    and "(q5, nip) \<in> recvProof q4"
    and "reg_dbdir r3 = reg_dbdir r"
    and "cont w3 (roundPath (reg_dbdir r) e) = cont w2 (roundPath (reg_dbdir r) e)"
    and "path w3 (db_db (reg_db r3)) = Some dbp" and "cont w3 dbp = Some md" and "dbp \<noteq> roundPath (reg_dbdir r) e"
    and "reg_onNewProof libs w3 r3 nip = (w4, r4, None)"
    and "\<forall>k err. ldb_Get (rl_ldb libs) w4 (db_db (reg_db r4)) k = Inl err \<longrightarrow> errors_Is err ErrNotFound"
  shows "\<exists>resp. rpc_Proof libs w4 (rpc_NewServer r4 phaseShift cycleGap) (epochToRoundId e) = Inr resp \<and>
    snd (subs ! c) \<in> set (presp_Members resp) \<and>
    Validate (wl_sha L) (wl_mk L) (presp_Proof resp) (labelHashFuncOf (wl_sha L) (rootf (presp_Members resp)))
      (merkleHashFuncOf (wl_sha L) (rootf (presp_Members resp))) (presp_Leaves resp) T = Some (Ret None)"
proof -
  let ?p = "roundPath (reg_dbdir r) e"
  obtain m where ex: "exec q e (rootf (ordered_members m)) = (q2, None)" and m: "cont w2 ?p = Some m"
    and mem: "snd (subs ! c) \<in> set (ordered_members m)"
    by (rule closeRound_commits [OF assms(1,3,5,7-11,15)])
  let ?root = "rootf (ordered_members m)"
  have cr: "cr = \<lparr>cr_Epoch = e, cr_MembershipRoot = ?root\<rparr>" and q3: "m_proofs q3 = []"
    using closed_round_arrives [OF assms(12) _ assms(16), of e ?root] assms(13) assms(14) [rule_format, of q e ?root] ex by auto
  have "q4 \<noteq> q3" using assms(21) q3 by (auto simp: recvProof_def)
  with handleClosedRound_publishes_valid [OF assms(6,17,18,20)] obtain pf numLeaves
    where q4: "q4 = fst (en_publish E q3 (nipOf e numLeaves pf))"
    and v: "Validate (wl_sha L) (wl_mk L) pf (labelHashFuncOf (wl_sha L) ?root) (merkleHashFuncOf (wl_sha L) ?root) numLeaves T
      = Some (Ret None)"
    by (auto simp: cr)
  have nip: "nip = nipOf e numLeaves pf"
    using published_proof_arrives [OF q3 assms(19) [rule_format]] assms(21) q4 by blast
  then have ep: "Epoch nip = e" by (simp add: nipOf_def)
  have db: "cont w3 (roundPath (reg_dbdir r3) (Epoch nip)) = Some m" "dbp \<noteq> roundPath (reg_dbdir r3) (Epoch nip)"
    using assms(22,23,26) m ep by simp_all
  have eta: "\<lparr>Root = Root pf, ProvenLeaves = ProvenLeaves pf, ProofNodes = ProofNodes pf\<rparr> = pf" by simp
  from onNewProof_serves [OF assms(1-4) db(1) assms(24,25) db(2) assms(27,28)] ep mem v nip
  show ?thesis by (simp add: nipOf_def eta)
qed

theorem accepted_challenge_gets_valid_proof_witness:
  "\<exists>libs w4 r4 resp. rpc_Proof (libs :: (ldb_world, nat, bytes list, bytes, bytes) reg_libs) w4 (rpc_NewServer r4 1 1) ''7'' = Inr resp \<and>
     [70] \<in> set (presp_Members resp) \<and>
     Validate count_sha (ref_merkle (merkleHashFuncOf count_sha [70])) (presp_Proof resp)
       (labelHashFuncOf count_sha (concat (presp_Members resp))) (merkleHashFuncOf count_sha (concat (presp_Members resp)))
       (presp_Leaves resp) T = Some (Ret None)"
proof -
  let ?E = "demo_env (\<lambda>(q :: inMemory) n. (q\<lparr>m_proofs := m_proofs q @ [n]\<rparr>, None))" and ?L = "demo_worker [70]"
    and ?cr = "\<lparr>cr_Epoch = 7, cr_MembershipRoot = [70]\<rparr>" and ?path = "roundPath (reg_dbdir e2e_reg) 7"
  obtain n pf fw' where h: "handleClosedRound ?E ?L demo_service 0 5 demo_files NewInMemory ?cr
      = Some (Ret (fw', NewInMemory\<lparr>m_proofs := [nipOf 7 n pf]\<rparr>, Go))"
    using e2e_worker by blast
  let ?nip = "nipOf 7 n pf" and ?libs = "demo_libs\<lparr>rl_xdr := one_xdr (proofOf [9] (nipOf 7 n pf) [[70]])\<rparr>"
  have ep: "Epoch ?nip = 7" by (simp add: nipOf_def)
  obtain r2 where cl: "closeRound ?libs e2e_exec 300000000000 e2e_stored NewInMemory e2e_reg = Ret (e2e_closed, e2e_handed, r2, None)"
    and r2: "reg_db r2 = demo_db" "reg_dbdir r2 = ''db''" "reg_cfg r2 = reg_DefaultConfig"
    using e2e_close by blast
  obtain w4 r4 where on: "reg_onNewProof ?libs e2e_closed r2 ?nip = (w4, r4, None)"
    and w4: "reg_db r4 = demo_db" "ref_path w4 0 = Some ''p''"
    using e2e_onNewProof [OF ep r2] by blast
  have dir: "reg_dbdir e2e_reg = ''db''" "reg_openRound e2e_reg = e2e_round 1 [settled_chan None] []"
    by (simp_all add: e2e_reg_def demo_reg_def)
  note pkg = e2e_packages [of "proofOf [9] ?nip [[70]]"]
  have id: "epochToRoundId 7 = ''7''" by code_simp
  have get: "\<forall>k err. ldb_Get (rl_ldb ?libs) w4 (db_db (reg_db r4)) k = Inl err \<longrightarrow> errors_Is err ErrNotFound"
    using ref_get_errors [of 0 w4] w4 by (simp add: e2e_libs demo_db_def ref_path_def split: if_splits)
  have "\<exists>resp. rpc_Proof ?libs w4 (rpc_NewServer r4 1 1) (epochToRoundId 7) = Inr resp \<and>
     snd (([([7], [70])] :: kvs) ! 0) \<in> set (presp_Members resp) \<and>
     Validate (wl_sha ?L) (wl_mk ?L) (presp_Proof resp) (labelHashFuncOf (wl_sha ?L) (concat (presp_Members resp)))
       (merkleHashFuncOf (wl_sha ?L) (concat (presp_Members resp))) (presp_Leaves resp) T = Some (Ret None)"
  proof (rule accepted_challenge_gets_valid_proof [where q = NewInMemory and cr = ?cr and E = ?E and s = demo_service and
        fw = demo_files and nip = ?nip and r = e2e_reg and subs = "[([7], [70])] :: kvs" and
        dbp = "''p''" and md = Map.empty, OF pkg(1-5) _ _ _ _ _ _ _ _ _ cl _ _ _ _ h _ _ _ _ _ _ on get])
    show "os_contract (wl_os ?L) (\<lambda>w. ow_file (fst w))"
      using lift_os_contract [OF ref_os_contract] by (simp add: demo_worker_def)
    show "newRound (rl_ldb ?libs) (demo_world [Some ''p''] [(''db/rounds/7'', []), (''p'', [])]) 7 (reg_dbdir e2e_reg)
        [withMaxMembers 3, withSubmitFlushInterval 1000] = (e2e_world [], Inr (e2e_round 0 [] []))"
      using e2e_open by (simp add: dir e2e_libs)
    show "(round_step (rl_ldb ?libs) ref_cont ref_path ?path)\<^sup>*\<^sup>* (e2e_world [], e2e_round 0 [] [], [])
        (e2e_stored, reg_openRound e2e_reg, [([7], [70])])"
      using e2e_reach by (simp add: dir e2e_libs)
    show "ref_path e2e_stored (r_db (reg_openRound e2e_reg)) = Some ?path"
      by (simp add: dir e2e_path ref_path_def demo_world_def e2e_round_def)
    show "merkle_contract (wl_mk ?L) (merkleHashFuncOf (wl_sha ?L) (cr_MembershipRoot ?cr)) (\<lambda>t. t) (\<lambda>r. r)
        (ref_park (merkleHashFuncOf count_sha [70]))"
      using ref_merkle_contract [of "merkleHashFuncOf count_sha [70]"] by (simp add: demo_worker_def)
    show "ow_file (fst demo_files) (stateFile (freshRound (roundsDir demo_service) (cr_Epoch ?cr))) = None"
      by (simp add: ow_file_def demo_files_def empty_world_def)
    show "ref_path e2e_closed (db_db (reg_db r2)) = Some ''p''" "ref_cont e2e_closed ''p'' = Some Map.empty" "''p'' \<noteq> ?path"
      by (simp_all add: r2 dir e2e_path demo_db_def ref_path_def ref_cont_def demo_world_def)
  qed (simp_all add: dir r2 e2e_path e2e_exec_allowed NewInMemory_def recvRoundClosed_def recvProof_def demo_env_def
      transport_NewProof_def chanCap_def demo_db_def ref_path_def ref_cont_def demo_world_def e2e_round_def demo_round_def)
  then obtain resp where "rpc_Proof ?libs w4 (rpc_NewServer r4 1 1) ''7'' = Inr resp" "[70] \<in> set (presp_Members resp)"
    "Validate (wl_sha ?L) (wl_mk ?L) (presp_Proof resp) (labelHashFuncOf (wl_sha ?L) (concat (presp_Members resp)))
       (merkleHashFuncOf (wl_sha ?L) (concat (presp_Members resp))) (presp_Leaves resp) T = Some (Ret None)"
    unfolding id by auto
  then show ?thesis by (auto simp: demo_worker_def)
qed

end
